(* ===== verification/Prelude.thy ===== *)
theory Prelude
  imports Main "HOL-Library.Char_ord"
begin

text \<open>
  What every other theory of the development shares: the error values that stand for the
  exceptions of the Python code, the operations of Python's \<open>str\<close> and \<open>list\<close> that the
  program uses, decimal numerals, and the generic lemmas about them.

  Text is modelled over ASCII: a \<open>str\<close> is a list of \<open>char\<close>, and the character classes
  (white space, digits, letters, case) are those of code points below 128. Device CLI text,
  identifiers and configuration values are of that kind; text with code points above 127 is
  outside the model.
\<close>

section \<open>Collections of facts\<close>

named_theorems py_defs \<open>definitions of the Python operations, for evaluation\<close>
named_theorems list_facts \<open>generic facts about lists, options and maps\<close>

section \<open>Exceptions as values\<close>

datatype py_exn = IndexError | ValueError | KeyError | TypeError | RuntimeError string
  | ReadOnlyViolation string | UnsafeCommand string

type_synonym 'a res = "py_exn + 'a"

definition res_bind :: "'a res \<Rightarrow> ('a \<Rightarrow> 'b res) \<Rightarrow> 'b res" where
  "res_bind m f = (case m of Inl e \<Rightarrow> Inl e | Inr x \<Rightarrow> f x)"

lemma res_bind_simps [simp]:
  "res_bind (Inl e) f = Inl e" "res_bind (Inr x) f = f x"
  by (simp_all add: res_bind_def)

lemma res_bind_Inr: "res_bind m f = Inr y \<longleftrightarrow> (\<exists>x. m = Inr x \<and> f x = Inr y)"
  by (cases m) auto

text \<open>A loop whose body may raise.\<close>

fun fold_res :: "('s \<Rightarrow> 'a \<Rightarrow> 's res) \<Rightarrow> 's \<Rightarrow> 'a list \<Rightarrow> 's res" where
  "fold_res f s [] = Inr s"
| "fold_res f s (x # xs) = res_bind (f s x) (\<lambda>s'. fold_res f s' xs)"

section \<open>JSON-like values\<close>

text \<open>The values the program puts in the dicts it returns and hashes: no floats.\<close>

datatype json = JNull | JBool bool | JInt int | JStr string | JArr "json list"
  | JObj "(string \<times> json) list"

definition j_opt_int :: "int option \<Rightarrow> json" where
  "j_opt_int x = (case x of None \<Rightarrow> JNull | Some n \<Rightarrow> JInt n)"

section \<open>Lists\<close>

text \<open>\<open>xs[i]\<close> for a non-negative index: an \<open>IndexError\<close> out of range.\<close>

definition py_get :: "'a list \<Rightarrow> nat \<Rightarrow> 'a res" where
  "py_get xs i = (if i < length xs then Inr (xs ! i) else Inl IndexError)"

lemma py_get_Inr: "py_get xs i = Inr x \<longleftrightarrow> i < length xs \<and> xs ! i = x"
  by (auto simp: py_get_def)

text \<open>\<open>next((i for i, x in enumerate(xs) if p(x)), None)\<close>.\<close>

fun first_index :: "('a \<Rightarrow> bool) \<Rightarrow> 'a list \<Rightarrow> nat option" where
  "first_index p [] = None"
| "first_index p (x # xs) = (if p x then Some 0 else map_option Suc (first_index p xs))"

lemma first_index_Some:
  "first_index p xs = Some i \<longleftrightarrow> i < length xs \<and> p (xs ! i) \<and> (\<forall>j<i. \<not> p (xs ! j))"
proof (induction xs arbitrary: i)
  case (Cons x xs)
  show ?case
  proof (cases i)
    case 0
    then show ?thesis by auto
  next
    case (Suc k)
    have "(\<forall>j<Suc k. \<not> p ((x # xs) ! j)) \<longleftrightarrow> \<not> p x \<and> (\<forall>j<k. \<not> p (xs ! j))"
      by (metis (no_types) Suc_less_eq diff_Suc_1 less_Suc_eq_0_disj nth_Cons' nth_Cons_0 nth_Cons_Suc)
    then show ?thesis using Suc Cons.IH[of k] by auto
  qed
qed simp

lemma first_index_None: "first_index p xs = None \<longleftrightarrow> (\<forall>x\<in>set xs. \<not> p x)"
  by (induction xs) auto

text \<open>\<open>max(xs, default=d)\<close>.\<close>

definition max_default :: "int \<Rightarrow> int list \<Rightarrow> int" where
  "max_default d xs = (case xs of [] \<Rightarrow> d | y # ys \<Rightarrow> foldl max y ys)"

lemma foldl_max_ge: "a \<le> foldl max a xs" "x \<in> set xs \<Longrightarrow> x \<le> foldl max (a::int) xs"
proof (induction xs arbitrary: a)
  case (Cons y ys)
  { case 1 show ?case using Cons.IH(1)[of "max a y"] by simp }
  { case 2 then show ?case using Cons.IH(1)[of "max a y"] Cons.IH(2)[of "max a y"] by auto }
qed simp_all

lemma max_default_ge: "x \<in> set xs \<Longrightarrow> x \<le> max_default d xs"
  by (cases xs) (auto simp: max_default_def foldl_max_ge intro: foldl_max_ge)

text \<open>\<open>list(dict.fromkeys(xs))\<close>: duplicates removed, the first of each kept in place.\<close>

definition dedup :: "'a list \<Rightarrow> 'a list" where
  "dedup xs = rev (remdups (rev xs))"

lemma set_dedup [simp]: "set (dedup xs) = set xs"
  by (simp add: dedup_def)

lemma distinct_dedup [simp]: "distinct (dedup xs)"
  by (simp add: dedup_def)

text \<open>A dict whose insertion order matters: an association list with distinct keys.\<close>

fun al_put :: "'k \<Rightarrow> 'v \<Rightarrow> ('k \<times> 'v) list \<Rightarrow> ('k \<times> 'v) list" where
  "al_put k v [] = [(k, v)]"
| "al_put k v ((k', v') # xs) = (if k = k' then (k, v) # xs else (k', v') # al_put k v xs)"

lemma map_of_al_put [simp]: "map_of (al_put k v xs) = (map_of xs)(k \<mapsto> v)"
  by (induction xs) (auto simp: fun_eq_iff)

lemma keys_al_put: "fst ` set (al_put k v xs) = insert k (fst ` set xs)"
  by (induction k v xs rule: al_put.induct) auto

lemma distinct_al_put: "distinct (map fst xs) \<Longrightarrow> distinct (map fst (al_put k v xs))"
proof (induction xs)
  case (Cons x xs)
  obtain a b where x: "x = (a, b)" by (cases x)
  have "a \<notin> fst ` set (al_put k v xs)" if "a \<noteq> k"
    using Cons.prems that by (auto simp: keys_al_put x)
  then show ?case using Cons by (auto simp: x)
qed simp

text \<open>\<open>d.setdefault(k, []).append(v)\<close>.\<close>

fun al_append :: "'k \<Rightarrow> 'v \<Rightarrow> ('k \<times> 'v list) list \<Rightarrow> ('k \<times> 'v list) list" where
  "al_append k v [] = [(k, [v])]"
| "al_append k v ((k', vs) # xs) =
     (if k = k' then (k, vs @ [v]) # xs else (k', vs) # al_append k v xs)"

lemma set_al_append: "(\<Union>x\<in>set (al_append k v xs). set (snd x)) = insert v (\<Union>x\<in>set xs. set (snd x))"
  by (induction k v xs rule: al_append.induct) auto

section \<open>Strings\<close>

definition is_space :: "char \<Rightarrow> bool" where
  "is_space c = (let n = (of_char c :: int) in 9 \<le> n \<and> n \<le> 13 \<or> 28 \<le> n \<and> n \<le> 32)"

definition is_digit :: "char \<Rightarrow> bool" where
  "is_digit c = (let n = (of_char c :: int) in 48 \<le> n \<and> n \<le> 57)"

definition is_alpha :: "char \<Rightarrow> bool" where
  "is_alpha c = (let n = (of_char c :: int) in 65 \<le> n \<and> n \<le> 90 \<or> 97 \<le> n \<and> n \<le> 122)"

definition is_alnum :: "char \<Rightarrow> bool" where
  "is_alnum c = (is_alpha c \<or> is_digit c)"

definition is_word :: "char \<Rightarrow> bool" where
  "is_word c = (is_alnum c \<or> c = CHR ''_'')"

definition lower_char :: "char \<Rightarrow> char" where
  "lower_char c = (let n = (of_char c :: int) in if 65 \<le> n \<and> n \<le> 90 then char_of (n + 32) else c)"

definition upper_char :: "char \<Rightarrow> char" where
  "upper_char c = (let n = (of_char c :: int) in if 97 \<le> n \<and> n \<le> 122 then char_of (n - 32) else c)"

definition lower :: "string \<Rightarrow> string" where
  "lower s = map lower_char s"

definition upper :: "string \<Rightarrow> string" where
  "upper s = map upper_char s"

definition lstrip :: "string \<Rightarrow> string" where
  "lstrip s = dropWhile is_space s"

definition rstrip :: "string \<Rightarrow> string" where
  "rstrip s = rev (dropWhile is_space (rev s))"

definition strip :: "string \<Rightarrow> string" where
  "strip s = rstrip (lstrip s)"

definition starts_with :: "string \<Rightarrow> string \<Rightarrow> bool" where
  "starts_with p s = (take (length p) s = p)"

definition ends_with :: "string \<Rightarrow> string \<Rightarrow> bool" where
  "ends_with p s = starts_with (rev p) (rev s)"

text \<open>\<open>needle in s\<close>.\<close>

fun is_substring :: "string \<Rightarrow> string \<Rightarrow> bool" where
  "is_substring p [] = (p = [])"
| "is_substring p (c # s) = (starts_with p (c # s) \<or> is_substring p s)"

text \<open>\<open>s.isdigit()\<close>: non-empty and digits only.\<close>

definition all_digits :: "string \<Rightarrow> bool" where
  "all_digits s = (s \<noteq> [] \<and> list_all is_digit s)"

text \<open>\<open>s.split()\<close>: the maximal runs of non-space characters.\<close>

function split_ws :: "string \<Rightarrow> string list" where
  "split_ws s = (let t = dropWhile is_space s in
     if t = [] then []
     else takeWhile (\<lambda>c. \<not> is_space c) t # split_ws (dropWhile (\<lambda>c. \<not> is_space c) t))"
  by pat_completeness auto
termination
proof (relation "measure length", goal_cases)
  case (2 s t)
  then have "t \<noteq> []" and t: "t = dropWhile is_space s" by auto
  then have "\<not> is_space (hd t)" by (simp add: hd_dropWhile)
  then have "length (dropWhile (\<lambda>c. \<not> is_space c) t) < length t"
    using \<open>t \<noteq> []\<close> by (cases t) (auto simp: le_imp_less_Suc length_dropWhile_le)
  also have "\<dots> \<le> length s" by (simp add: t length_dropWhile_le)
  finally show ?case by simp
qed simp

declare split_ws.simps [simp del]

text \<open>\<open>s.split(sep)\<close> for a one-character separator; never empty.\<close>

fun split_on :: "char \<Rightarrow> string \<Rightarrow> string list" where
  "split_on d [] = [[]]"
| "split_on d (c # s) =
     (if c = d then [] # split_on d s
      else (case split_on d s of [] \<Rightarrow> [[c]] | x # xs \<Rightarrow> (c # x) # xs))"

text \<open>\<open>s.splitlines()\<close>: the line ends are \<open>\n \v \f \r \x1c \x1d \x1e\<close> and \<open>\r\n\<close>.\<close>

definition is_line_end :: "char \<Rightarrow> bool" where
  "is_line_end c = (let n = (of_char c :: int) in 10 \<le> n \<and> n \<le> 13 \<or> 28 \<le> n \<and> n \<le> 30)"

fun split_lines :: "string \<Rightarrow> string list" where
  "split_lines [] = []"
| "split_lines (c # s) =
     (if is_line_end c
      then [] # split_lines (if c = CHR 0x0D \<and> s \<noteq> [] \<and> hd s = CHR 0x0A then tl s else s)
      else (case split_lines s of [] \<Rightarrow> [[c]] | x # xs \<Rightarrow> (c # x) # xs))"

text \<open>\<open>sep.join(xs)\<close>.\<close>

fun join :: "string \<Rightarrow> string list \<Rightarrow> string" where
  "join sep [] = []"
| "join sep [x] = x"
| "join sep (x # y # xs) = x @ sep @ join sep (y # xs)"

text \<open>\<open>text.partition(sep)\<close> for a one-character separator: (before, found, after).\<close>

definition partition_at :: "char \<Rightarrow> string \<Rightarrow> string \<times> bool \<times> string" where
  "partition_at d s = (let (a, b) = (takeWhile (\<lambda>c. c \<noteq> d) s, dropWhile (\<lambda>c. c \<noteq> d) s)
     in (a, b \<noteq> [], drop 1 b))"

definition replace_char :: "char \<Rightarrow> char \<Rightarrow> string \<Rightarrow> string" where
  "replace_char a b s = map (\<lambda>c. if c = a then b else c) s"

text \<open>\<open>repr\<close> of a text and of a list of texts; characters are those of Latin-1.\<close>

definition repr_char :: "char \<Rightarrow> char \<Rightarrow> string" where
  "repr_char q c =
     (let n = (of_char c :: nat); digit = (\<lambda>k. ''0123456789abcdef'' ! k)
      in if c = q \<or> c = CHR 0x5C then [CHR 0x5C, c]
         else if n = 10 then [CHR 0x5C, CHR ''n'']
         else if n = 13 then [CHR 0x5C, CHR ''r'']
         else if n = 9 then [CHR 0x5C, CHR ''t'']
         else if n < 32 \<or> 127 \<le> n \<and> n \<le> 160 \<or> n = 173 then [CHR 0x5C, CHR ''x'', digit (n div 16), digit (n mod 16)]
         else [c])"

definition py_repr :: "string \<Rightarrow> string" where
  "py_repr s = (let q = (if CHR 0x27 \<in> set s \<and> CHR 0x22 \<notin> set s then CHR 0x22 else CHR 0x27)
     in q # concat (map (repr_char q) s) @ [q])"

definition py_repr_list :: "string list \<Rightarrow> string" where
  "py_repr_list xs = CHR ''['' # join '', '' (map py_repr xs) @ '']''"

section \<open>Decimal numerals\<close>

definition digit_val :: "char \<Rightarrow> int" where
  "digit_val c = of_char c - 48"

text \<open>\<open>int(s)\<close> of a text of digits.\<close>

definition parse_int :: "string \<Rightarrow> int" where
  "parse_int s = foldl (\<lambda>n c. 10 * n + digit_val c) 0 s"

definition digit_char :: "int \<Rightarrow> char" where
  "digit_char d = char_of (48 + d)"

text \<open>\<open>str(i)\<close>.\<close>

function show_digits :: "int \<Rightarrow> string" where
  "show_digits i =
     (if i < 10 then [digit_char i] else show_digits (i div 10) @ [digit_char (i mod 10)])"
  by pat_completeness auto
termination by (relation "measure nat") auto

declare show_digits.simps [simp del]

definition show_int :: "int \<Rightarrow> string" where
  "show_int i = (if i < 0 then CHR ''-'' # show_digits (- i) else show_digits i)"

lemma of_char_digit_char: "0 \<le> d \<Longrightarrow> d < 10 \<Longrightarrow> (of_char (digit_char d) :: int) = 48 + d"
proof -
  assume "0 \<le> d" "d < 10"
  then have "d = 0 \<or> d = 1 \<or> d = 2 \<or> d = 3 \<or> d = 4 \<or> d = 5 \<or> d = 6 \<or> d = 7 \<or> d = 8 \<or> d = 9"
    by presburger
  then show ?thesis by (auto simp: digit_char_def)
qed

lemma is_digit_digit_char: "0 \<le> d \<Longrightarrow> d < 10 \<Longrightarrow> is_digit (digit_char d)"
  by (simp add: is_digit_def of_char_digit_char)

lemma digit_val_digit_char: "0 \<le> d \<Longrightarrow> d < 10 \<Longrightarrow> digit_val (digit_char d) = d"
  by (simp add: digit_val_def of_char_digit_char)

lemma parse_int_snoc: "parse_int (s @ [c]) = 10 * parse_int s + digit_val c"
  by (simp add: parse_int_def)

lemma show_digits_all: "0 \<le> i \<Longrightarrow> all_digits (show_digits i)"
proof (induction i rule: show_digits.induct)
  case (1 i)
  show ?case
  proof (cases "i < 10")
    case True
    with 1 show ?thesis by (subst show_digits.simps) (simp add: all_digits_def is_digit_digit_char)
  next
    case False
    with 1 have "all_digits (show_digits (i div 10))" by simp
    with False show ?thesis
      by (subst show_digits.simps) (simp add: all_digits_def is_digit_digit_char)
  qed
qed

text \<open>\<open>int(str(i)) = i\<close>.\<close>

lemma parse_show_digits: "0 \<le> i \<Longrightarrow> parse_int (show_digits i) = i"
proof (induction i rule: show_digits.induct)
  case (1 i)
  show ?case
  proof (cases "i < 10")
    case True
    with 1 show ?thesis
      by (subst show_digits.simps) (simp add: parse_int_def digit_val_digit_char)
  next
    case False
    with 1 have "parse_int (show_digits (i div 10)) = i div 10" by simp
    with False show ?thesis
      by (subst show_digits.simps) (simp add: parse_int_snoc digit_val_digit_char)
  qed
qed

lemma show_digits_inj: "0 \<le> i \<Longrightarrow> 0 \<le> j \<Longrightarrow> show_digits i = show_digits j \<Longrightarrow> i = j"
  by (metis parse_show_digits)

lemma show_int_nonneg: "0 \<le> i \<Longrightarrow> show_int i = show_digits i"
  by (simp add: show_int_def)

lemma hd_show_digits: "0 < i \<Longrightarrow> hd (show_digits i) \<noteq> CHR ''0''"
proof (induction i rule: show_digits.induct)
  case (1 i)
  show ?case
  proof (cases "i < 10")
    case True
    with 1 have "(of_char (digit_char i) :: int) \<noteq> of_char (CHR ''0'')"
      by (simp add: of_char_digit_char)
    then have "digit_char i \<noteq> CHR ''0''" by metis
    with True show ?thesis by (subst show_digits.simps) simp
  next
    case False
    with 1 have "hd (show_digits (i div 10)) \<noteq> CHR ''0''" "show_digits (i div 10) \<noteq> []"
      using show_digits_all[of "i div 10"] by (auto simp: all_digits_def)
    with False show ?thesis by (subst show_digits.simps) simp
  qed
qed

text \<open>Splitting undoes joining, when the parts do not hold the separator.\<close>

lemma split_on_nil [simp]: "split_on d s \<noteq> []"
  by (induction s) (auto split: list.splits)

lemma split_on_plain: "d \<notin> set s \<Longrightarrow> split_on d s = [s]"
  by (induction s) auto

lemma split_on_append: "d \<notin> set a \<Longrightarrow> split_on d (a @ d # s) = a # split_on d s"
  by (induction a) auto

lemma split_on_join:
  "xs \<noteq> [] \<Longrightarrow> \<forall>x\<in>set xs. d \<notin> set x \<Longrightarrow> split_on d (join [d] xs) = xs"
proof (induction "[d]" xs rule: join.induct)
  case (3 x y xs)
  then show ?case using split_on_append[of d x] by simp
qed (simp_all add: split_on_plain)

lemma all_digits_not_in: "all_digits s \<Longrightarrow> \<not> is_digit c \<Longrightarrow> c \<notin> set s"
  by (auto simp: all_digits_def list_all_iff)

text \<open>Stripping twice is stripping once.\<close>

lemma dropWhile_idem: "dropWhile P (dropWhile P xs) = dropWhile P xs"
  by (induction xs) auto

lemma rstrip_snoc: "\<not> is_space c \<Longrightarrow> rstrip (s @ [c]) = s @ [c]"
  by (simp add: rstrip_def)

lemma rstrip_Nil [simp]: "rstrip [] = []"
  by (simp add: rstrip_def)

lemma rstrip_ends: "rstrip s = [] \<or> \<not> is_space (last (rstrip s))"
  by (metis rstrip_def hd_dropWhile last_rev rev_is_Nil_conv)

lemma rstrip_prefix: "\<exists>t. s = rstrip s @ t"
  unfolding rstrip_def by (metis rev_append rev_rev_ident takeWhile_dropWhile_id)

lemma strip_shape: "strip s = [] \<or> \<not> is_space (hd (strip s)) \<and> \<not> is_space (last (strip s))"
proof (cases "strip s = []")
  case False
  obtain t where "lstrip s = strip s @ t" using rstrip_prefix[of "lstrip s"] by (auto simp: strip_def)
  then have "hd (lstrip s) = hd (strip s)" "lstrip s \<noteq> []" using False by auto
  moreover have "lstrip s \<noteq> [] \<Longrightarrow> \<not> is_space (hd (lstrip s))" unfolding lstrip_def by (rule hd_dropWhile)
  ultimately show ?thesis using rstrip_ends[of "lstrip s"] by (auto simp: strip_def)
qed simp

lemma strip_fixed:
  assumes "s = [] \<or> \<not> is_space (hd s) \<and> \<not> is_space (last s)"
  shows "strip s = s"
proof (cases s)
  case (Cons c t)
  then have "lstrip s = s" using assms by (simp add: lstrip_def)
  moreover have "rstrip s = s" using assms Cons rstrip_snoc[of "last s" "butlast s"]
    by (metis append_butlast_last_id list.discI)
  ultimately show ?thesis by (simp add: strip_def)
qed (simp add: strip_def lstrip_def)

lemma strip_strip [simp]: "strip (strip s) = strip s"
  by (rule strip_fixed) (rule strip_shape)

lemmas [py_defs] = is_space_def is_digit_def is_alpha_def is_alnum_def is_word_def lower_char_def
  lower_def lstrip_def rstrip_def strip_def starts_with_def ends_with_def all_digits_def
  partition_at_def is_line_end_def replace_char_def digit_val_def parse_int_def

end
