(* ===== verification/Regex.thy ===== *)
theory Regex
  imports Prelude "HOL-Library.Sublist"
begin

text \<open>
  Python's \<open>re\<close> module, as far as the program uses it: patterns as a datatype and a
  backtracking matcher that returns every way to match at a position, in the order in which
  Python's matcher tries them; the first one is the match. The definitions that follow the
  program's patterns write them with these constructors.
\<close>

section \<open>Patterns\<close>

datatype rx =
    REps                      \<comment> \<open>the empty pattern\<close>
  | RSet "char \<Rightarrow> bool"        \<comment> \<open>one character of a class\<close>
  | RSeq rx rx
  | RAlt rx rx
  | RStar rx                  \<comment> \<open>greedy repetition\<close>
  | RLazy rx                  \<comment> \<open>lazy repetition, \<open>*?\<close>\<close>
  | RGrp nat rx               \<comment> \<open>capturing group\<close>
  | RBound                    \<comment> \<open>\<open>\b\<close>\<close>
  | RBol                      \<comment> \<open>\<open>^\<close>\<close>
  | REol                      \<comment> \<open>\<open>$\<close>: at the end, or before a final newline\<close>

definition ROpt :: "rx \<Rightarrow> rx" where "ROpt r = RAlt r REps"
definition RPlus :: "rx \<Rightarrow> rx" where "RPlus r = RSeq r (RStar r)"
definition RPlusLazy :: "rx \<Rightarrow> rx" where "RPlusLazy r = RSeq r (RLazy r)"

fun rseq :: "rx list \<Rightarrow> rx" where
  "rseq [] = REps"
| "rseq [r] = r"
| "rseq (r # r' # rs) = RSeq r (rseq (r' # rs))"

fun ralt :: "rx list \<Rightarrow> rx" where
  "ralt [] = RSet (\<lambda>_. False)"
| "ralt [r] = r"
| "ralt (r # r' # rs) = RAlt r (ralt (r' # rs))"

definition r_lit :: "string \<Rightarrow> rx" where
  "r_lit s = rseq (map (\<lambda>c. RSet (\<lambda>d. d = c)) s)"

text \<open>A literal under \<open>re.IGNORECASE\<close>; the argument is in lower case.\<close>

definition r_lit_ci :: "string \<Rightarrow> rx" where
  "r_lit_ci s = rseq (map (\<lambda>c. RSet (\<lambda>d. lower_char d = c)) s)"

definition r_space :: rx where "r_space = RSet is_space"
definition r_nonspace :: rx where "r_nonspace = RSet (\<lambda>c. \<not> is_space c)"
definition r_digit :: rx where "r_digit = RSet is_digit"
definition r_dot :: rx where "r_dot = RSet (\<lambda>c. c \<noteq> CHR 0x0A)"
definition r_any :: rx where "r_any = RSet (\<lambda>_. True)"

section \<open>Matching\<close>

text \<open>A position: the character before it, the text after it, and the groups captured so far
  (the latest first).\<close>

type_synonym rpos = "char option \<times> string \<times> (nat \<times> string) list"

definition r_rest :: "rpos \<Rightarrow> string" where "r_rest s = fst (snd s)"
definition r_caps :: "rpos \<Rightarrow> (nat \<times> string) list" where "r_caps s = snd (snd s)"

definition at_boundary :: "rpos \<Rightarrow> bool" where
  "at_boundary s =
     ((case fst s of None \<Rightarrow> False | Some c \<Rightarrow> is_word c) \<noteq>
      (case r_rest s of [] \<Rightarrow> False | c # _ \<Rightarrow> is_word c))"

definition at_end :: "rpos \<Rightarrow> bool" where
  "at_end s = (r_rest s = [] \<or> r_rest s = [CHR 0x0A])"

text \<open>Repetition. Every round of the program's loops consumes a character, so as many rounds
  as there are characters left are enough; the text left is the fuel.\<close>

fun rep_greedy :: "(rpos \<Rightarrow> rpos list) \<Rightarrow> string \<Rightarrow> rpos \<Rightarrow> rpos list" where
  "rep_greedy f [] s = [s]"
| "rep_greedy f (_ # fuel) s = concat (map (rep_greedy f fuel) (f s)) @ [s]"

fun rep_lazy :: "(rpos \<Rightarrow> rpos list) \<Rightarrow> string \<Rightarrow> rpos \<Rightarrow> rpos list" where
  "rep_lazy f [] s = [s]"
| "rep_lazy f (_ # fuel) s = s # concat (map (rep_lazy f fuel) (f s))"

primrec run_rx :: "rx \<Rightarrow> rpos \<Rightarrow> rpos list" where
  "run_rx REps = (\<lambda>s. [s])"
| "run_rx (RSet p) = (\<lambda>s. case r_rest s of [] \<Rightarrow> []
     | c # cs \<Rightarrow> if p c then [(Some c, cs, r_caps s)] else [])"
| "run_rx (RSeq a b) = (\<lambda>s. concat (map (run_rx b) (run_rx a s)))"
| "run_rx (RAlt a b) = (\<lambda>s. run_rx a s @ run_rx b s)"
| "run_rx (RStar a) = (\<lambda>s. rep_greedy (run_rx a) (r_rest s) s)"
| "run_rx (RLazy a) = (\<lambda>s. rep_lazy (run_rx a) (r_rest s) s)"
| "run_rx (RGrp n a) = (\<lambda>s. map (\<lambda>t. (fst t, r_rest t,
       (n, take (length (r_rest s) - length (r_rest t)) (r_rest s)) # r_caps t)) (run_rx a s))"
| "run_rx RBound = (\<lambda>s. if at_boundary s then [s] else [])"
| "run_rx RBol = (\<lambda>s. if fst s = None then [s] else [])"
| "run_rx REol = (\<lambda>s. if at_end s then [s] else [])"

text \<open>\<open>re.match\<close>, \<open>re.fullmatch\<close> and \<open>re.search\<close>; the result is the position after the match,
  with the groups. \<open>group n\<close> is \<open>None\<close> where the group took no part in the match.\<close>

definition rx_match :: "rx \<Rightarrow> string \<Rightarrow> rpos option" where
  "rx_match r s = (case run_rx r (None, s, []) of [] \<Rightarrow> None | t # _ \<Rightarrow> Some t)"

definition rx_fullmatch :: "rx \<Rightarrow> string \<Rightarrow> rpos option" where
  "rx_fullmatch r s =
     (case filter (\<lambda>t. r_rest t = []) (run_rx r (None, s, [])) of [] \<Rightarrow> None | t # _ \<Rightarrow> Some t)"

fun search_from :: "rx \<Rightarrow> char option \<Rightarrow> string \<Rightarrow> rpos option" where
  "search_from r p [] = (case run_rx r (p, [], []) of [] \<Rightarrow> None | t # _ \<Rightarrow> Some t)"
| "search_from r p (c # s) = (case run_rx r (p, c # s, []) of
       [] \<Rightarrow> search_from r (Some c) s | t # _ \<Rightarrow> Some t)"

definition rx_search :: "rx \<Rightarrow> string \<Rightarrow> rpos option" where
  "rx_search r s = search_from r None s"

definition group :: "nat \<Rightarrow> rpos \<Rightarrow> string option" where
  "group n t = map_of (r_caps t) n"

definition group_or :: "string \<Rightarrow> nat \<Rightarrow> rpos \<Rightarrow> string" where
  "group_or d n t = (case group n t of None \<Rightarrow> d | Some x \<Rightarrow> x)"

text \<open>\<open>re.sub\<close> with a constant replacement. The program's patterns never match the empty text;
  a match that does not shorten the text left would be skipped.\<close>

function sub_from :: "rx \<Rightarrow> string \<Rightarrow> char option \<Rightarrow> string \<Rightarrow> string" where
  "sub_from r w p [] = []"
| "sub_from r w p (c # s) = (case run_rx r (p, c # s, []) of
       [] \<Rightarrow> c # sub_from r w (Some c) s
     | t # _ \<Rightarrow> if length (r_rest t) \<le> length s then w @ sub_from r w (fst t) (r_rest t)
                else c # sub_from r w (Some c) s)"
  by pat_completeness auto
termination by (relation "measure (\<lambda>(r, w, p, s). length s)") auto

definition rx_sub :: "rx \<Rightarrow> string \<Rightarrow> string \<Rightarrow> string" where
  "rx_sub r w s = sub_from r w None s"

section \<open>Facts about the matcher\<close>

lemma rpos_simps [simp]: "r_rest (p, s, g) = s" "r_caps (p, s, g) = g"
  by (simp_all add: r_rest_def r_caps_def)

text \<open>A match never lengthens the text: what is left is a suffix of what was there.\<close>

lemma rep_greedy_suffix:
  assumes "\<And>s t. t \<in> set (f s) \<Longrightarrow> suffix (r_rest t) (r_rest s)"
  shows "t \<in> set (rep_greedy f fuel s) \<Longrightarrow> suffix (r_rest t) (r_rest s)"
proof (induction fuel arbitrary: s t)
  case (Cons c fuel)
  then consider "t = s" | u where "u \<in> set (f s)" "t \<in> set (rep_greedy f fuel u)" by auto
  then show ?case
    by cases (simp, meson Cons.IH assms suffix_order.trans)
qed simp

lemma rep_lazy_suffix:
  assumes "\<And>s t. t \<in> set (f s) \<Longrightarrow> suffix (r_rest t) (r_rest s)"
  shows "t \<in> set (rep_lazy f fuel s) \<Longrightarrow> suffix (r_rest t) (r_rest s)"
proof (induction fuel arbitrary: s t)
  case (Cons c fuel)
  then consider "t = s" | u where "u \<in> set (f s)" "t \<in> set (rep_lazy f fuel u)" by auto
  then show ?case
    by cases (simp, meson Cons.IH assms suffix_order.trans)
qed simp

lemma run_rx_suffix: "t \<in> set (run_rx r s) \<Longrightarrow> suffix (r_rest t) (r_rest s)"
proof (induction r arbitrary: s t)
  case (RSet p)
  then obtain c cs where "r_rest s = c # cs" "r_rest t = cs"
    by (cases "r_rest s") (auto split: if_splits)
  then show ?case by (simp add: suffix_ConsI)
next
  case (RSeq a b)
  then obtain u where "u \<in> set (run_rx a s)" "t \<in> set (run_rx b u)" by auto
  then show ?case by (meson RSeq.IH suffix_order.trans)
next
  case (RStar a)
  then show ?case by (auto intro: rep_greedy_suffix[of "run_rx a"])
next
  case (RLazy a)
  then show ?case by (auto intro: rep_lazy_suffix[of "run_rx a"])
qed (auto split: if_splits)

text \<open>Sequences, alternatives, repetitions and literals.\<close>

lemma run_rseq_Cons: "run_rx (rseq (r # rs)) s = concat (map (run_rx (rseq rs)) (run_rx r s))"
  by (cases rs) (simp_all add: concat_map_singleton)

lemma run_rseq_step: "u \<in> set (run_rx r s) \<Longrightarrow> t \<in> set (run_rx (rseq rs) u) \<Longrightarrow> t \<in> set (run_rx (rseq (r # rs)) s)"
  unfolding run_rseq_Cons by auto

lemma run_ralt: "r \<in> set rs \<Longrightarrow> t \<in> set (run_rx r s) \<Longrightarrow> t \<in> set (run_rx (ralt rs) s)"
proof (induction rs rule: ralt.induct)
  case (3 r r' rs)
  then show ?case by (cases "r = r'") auto
qed auto

lemma run_star: "s \<in> set (run_rx (RStar r) s)"
  by (cases "r_rest s") auto

lemma run_lit_ci: "lower x = w \<Longrightarrow> \<exists>q. (q, s, g) \<in> set (run_rx (r_lit_ci w) (p, x @ s, g))"
proof (induction w arbitrary: x p)
  case (Cons c w)
  then obtain d x' where x: "x = d # x'" "lower_char d = c" "lower x' = w" by (auto simp: lower_def)
  obtain q where "(q, s, g) \<in> set (run_rx (r_lit_ci w) (Some d, x' @ s, g))" using Cons.IH[OF x(3)] by blast
  then have "(q, s, g) \<in> set (run_rx (rseq (RSet (\<lambda>d. lower_char d = c) # map (\<lambda>c. RSet (\<lambda>d. lower_char d = c)) w)) (p, x @ s, g))"
    by (intro run_rseq_step[where u = "(Some d, x' @ s, g)"]) (simp_all add: x r_lit_ci_def)
  then show ?case by (auto simp: r_lit_ci_def)
qed (simp add: r_lit_ci_def lower_def)

lemma search_prefix: "run_rx r (p, s, []) \<noteq> [] \<Longrightarrow> search_from r p s \<noteq> None"
  by (cases s) (auto split: list.splits)

lemma search_Some:
  "search_from r p s = Some t \<Longrightarrow> \<exists>q v. t \<in> set (run_rx r (q, v, [])) \<and> suffix v s"
proof (induction s arbitrary: p)
  case Nil
  then have "t \<in> set (run_rx r (p, [], []))" by (cases "run_rx r (p, [], [])") auto
  then show ?case by (intro exI[of _ p] exI[of _ "[]"]) simp
next
  case (Cons c s)
  show ?case
  proof (cases "run_rx r (p, c # s, [])")
    case Nil
    then have "search_from r (Some c) s = Some t" using Cons.prems by simp
    from Cons.IH[OF this] obtain q v where "t \<in> set (run_rx r (q, v, []))" "suffix v s" by blast
    then show ?thesis by (intro exI[of _ q] exI[of _ v]) (simp add: suffix_ConsI)
  next
    case (Cons u us)
    then have "t \<in> set (run_rx r (p, c # s, []))" using Cons.prems by simp
    then show ?thesis by (intro exI[of _ p] exI[of _ "c # s"]) simp
  qed
qed

text \<open>A pattern without groups captures nothing.\<close>

primrec no_groups :: "rx \<Rightarrow> bool" where
  "no_groups REps = True"
| "no_groups (RSet p) = True"
| "no_groups (RSeq a b) = (no_groups a \<and> no_groups b)"
| "no_groups (RAlt a b) = (no_groups a \<and> no_groups b)"
| "no_groups (RStar a) = no_groups a"
| "no_groups (RLazy a) = no_groups a"
| "no_groups (RGrp n a) = False"
| "no_groups RBound = True"
| "no_groups RBol = True"
| "no_groups REol = True"

lemma rep_greedy_caps:
  "(\<And>s t. t \<in> set (f s) \<Longrightarrow> r_caps t = r_caps s) \<Longrightarrow> t \<in> set (rep_greedy f fuel s) \<Longrightarrow> r_caps t = r_caps s"
proof (induction fuel arbitrary: s)
  case (Cons a fuel)
  from Cons.prems(2) consider "t = s" | u where "u \<in> set (f s)" "t \<in> set (rep_greedy f fuel u)"
    by (auto simp del: split_paired_Ex)
  then show ?case using Cons.IH[OF Cons.prems(1)] Cons.prems(1) by cases auto
qed simp

lemma rep_lazy_caps:
  "(\<And>s t. t \<in> set (f s) \<Longrightarrow> r_caps t = r_caps s) \<Longrightarrow> t \<in> set (rep_lazy f fuel s) \<Longrightarrow> r_caps t = r_caps s"
proof (induction fuel arbitrary: s)
  case (Cons a fuel)
  from Cons.prems(2) consider "t = s" | u where "u \<in> set (f s)" "t \<in> set (rep_lazy f fuel u)"
    by (auto simp del: split_paired_Ex)
  then show ?case using Cons.IH[OF Cons.prems(1)] Cons.prems(1) by cases auto
qed simp

lemma no_groups_caps: "no_groups r \<Longrightarrow> t \<in> set (run_rx r s) \<Longrightarrow> r_caps t = r_caps s"
proof (induction r arbitrary: s t)
  case (RSet p)
  then show ?case by (auto split: list.splits if_splits)
next
  case (RStar a)
  have a: "\<And>s t. t \<in> set (run_rx a s) \<Longrightarrow> r_caps t = r_caps s" using RStar.IH RStar.prems(1) by simp
  have "t \<in> set (rep_greedy (run_rx a) (r_rest s) s)" using RStar.prems(2) by simp
  with a show ?case by (rule rep_greedy_caps)
next
  case (RLazy a)
  have a: "\<And>s t. t \<in> set (run_rx a s) \<Longrightarrow> r_caps t = r_caps s" using RLazy.IH RLazy.prems(1) by simp
  have "t \<in> set (rep_lazy (run_rx a) (r_rest s) s)" using RLazy.prems(2) by simp
  with a show ?case by (rule rep_lazy_caps)
next
  case (RSeq a b)
  then obtain u where "u \<in> set (run_rx a s)" "t \<in> set (run_rx b u)" by (auto simp del: split_paired_Ex)
  then show ?case using RSeq.IH RSeq.prems(1) by simp
next
  case (RAlt a b)
  from RAlt.prems(2) consider "t \<in> set (run_rx a s)" | "t \<in> set (run_rx b s)" by auto
  then show ?case
  proof cases
    case 1
    then show ?thesis by (rule RAlt.IH(1)[rotated]) (use RAlt.prems(1) in simp)
  next
    case 2
    then show ?thesis by (rule RAlt.IH(2)[rotated]) (use RAlt.prems(1) in simp)
  qed
qed (simp_all split: if_splits)

lemma no_groups_rseq: "list_all no_groups rs \<Longrightarrow> no_groups (rseq rs)"
  by (induction rs rule: rseq.induct) auto

lemma no_groups_lit [simp]: "no_groups (r_lit w)" "no_groups (r_lit_ci w)"
  by (simp_all add: r_lit_def r_lit_ci_def no_groups_rseq list_all_iff)

text \<open>What a repeated class reads.\<close>

lemma star_reads: "t \<in> set (run_rx (RStar (RSet P)) s) \<Longrightarrow> \<exists>w. r_rest s = w @ r_rest t \<and> list_all P w"
proof -
  have "t \<in> set (rep_greedy (run_rx (RSet P)) fuel s) \<Longrightarrow> \<exists>w. r_rest s = w @ r_rest t \<and> list_all P w" for fuel
  proof (induction fuel arbitrary: s)
    case (Cons c fuel)
    show ?case
    proof (cases "t = s")
      case False
      then obtain u where u: "u \<in> set (run_rx (RSet P) s)" "t \<in> set (rep_greedy (run_rx (RSet P)) fuel u)"
        using Cons.prems by (auto simp del: split_paired_Ex run_rx.simps)
      from u(1) obtain d where d: "r_rest s = d # r_rest u" "P d" by (cases "r_rest s") (auto split: if_splits)
      obtain w where "r_rest u = w @ r_rest t" "list_all P w" using Cons.IH[OF u(2)] by blast
      then have "r_rest s = (d # w) @ r_rest t" "list_all P (d # w)" using d by simp_all
      then show ?thesis by blast
    qed simp
  qed simp
  then show "t \<in> set (run_rx (RStar (RSet P)) s) \<Longrightarrow> \<exists>w. r_rest s = w @ r_rest t \<and> list_all P w" by simp
qed

end
