(* ===== verification/Ipv4.thy ===== *)
theory Ipv4
  imports Prelude "HOL-Library.Word"
begin

text \<open>
  The part of Python's \<open>ipaddress\<close> module the program uses, on 32-bit words: \<open>ip_address\<close> and
  \<open>ip_network(..., strict=False)\<close> of an IPv4 text with a prefix length, a netmask or a host mask,
  membership, and the number of addresses. \<open>None\<close> is the module's \<open>ValueError\<close>. The program
  annotates its networks as \<open>IPv4Network\<close>; texts that are IPv6 literals are outside the model.
\<close>

unbundle bit_operations_syntax

type_synonym addr = "32 word"

record network =
  net_addr :: addr
  net_prefix :: nat

definition octet :: "string \<Rightarrow> int option" where
  "octet s =
     (if \<not> all_digits s then None
      else if length s > 3 then None
      else if s \<noteq> ''0'' \<and> hd s = CHR ''0'' then None
      else if parse_int s > 255 then None
      else Some (parse_int s))"

definition ip_address :: "string \<Rightarrow> addr option" where
  "ip_address s =
     (case map octet (split_on (CHR ''.'') s) of
        [Some a, Some b, Some c, Some d] \<Rightarrow>
          Some (of_int (((a * 256 + b) * 256 + c) * 256 + d))
      | _ \<Rightarrow> None)"

text \<open>The mask of a prefix length.\<close>

definition netmask :: "nat \<Rightarrow> addr" where
  "netmask n = NOT (mask (32 - n))"

text \<open>\<open>_prefix_from_ip_int\<close>: the length of a mask whose ones come first.\<close>

definition prefix_of_mask :: "addr \<Rightarrow> nat option" where
  "prefix_of_mask m = List.find (\<lambda>n. netmask n = m) (rev [0..<33])"

text \<open>\<open>_make_netmask\<close>: a prefix length, else a netmask, else a host mask.\<close>

definition make_prefix :: "string \<Rightarrow> nat option" where
  "make_prefix s =
     (if all_digits s \<and> parse_int s \<le> 32 then Some (nat (parse_int s))
      else case ip_address s of
        None \<Rightarrow> None
      | Some m \<Rightarrow> (case prefix_of_mask m of
            Some n \<Rightarrow> Some n
          | None \<Rightarrow> prefix_of_mask (NOT m)))"

definition mk_network :: "addr \<Rightarrow> nat \<Rightarrow> network" where
  "mk_network a n = \<lparr>net_addr = a AND netmask n, net_prefix = n\<rparr>"

definition ip_network :: "string \<Rightarrow> network option" where
  "ip_network s =
     (case split_on (CHR ''/'') s of
        [a] \<Rightarrow> map_option (\<lambda>x. mk_network x 32) (ip_address a)
      | [a, m] \<Rightarrow> (case ip_address a of
            None \<Rightarrow> None
          | Some x \<Rightarrow> map_option (mk_network x) (make_prefix m))
      | _ \<Rightarrow> None)"

definition in_network :: "addr \<Rightarrow> network \<Rightarrow> bool" where
  "in_network a n = (a AND netmask (net_prefix n) = net_addr n)"

definition num_addresses :: "network \<Rightarrow> int" where
  "num_addresses n = 2 ^ (32 - net_prefix n)"

section \<open>Facts\<close>

lemma make_prefix_le: "make_prefix s = Some n \<Longrightarrow> n \<le> 32"
proof -
  have "prefix_of_mask m = Some k \<Longrightarrow> k \<le> 32" for m k
    by (auto simp: prefix_of_mask_def find_Some_iff rev_nth simp del: upt.simps)
  then show "make_prefix s = Some n \<Longrightarrow> n \<le> 32"
    by (auto simp: make_prefix_def nat_le_iff split: if_splits option.splits)
qed

lemma ip_network_shape:
  assumes "ip_network s = Some n"
  obtains a where "n = mk_network a (net_prefix n)" "net_prefix n \<le> 32"
proof -
  have "\<exists>a k. n = mk_network a k \<and> k \<le> 32"
    using assms make_prefix_le
    by (auto simp: ip_network_def split: list.splits option.splits)
  then show thesis using that by (auto simp: mk_network_def)
qed

lemma and_netmask_eq_iff:
  assumes "n \<le> 32"
  shows "(a :: addr) AND netmask n = b AND netmask n \<longleftrightarrow> drop_bit (32 - n) a = drop_bit (32 - n) b"
proof -
  have bits: "bit (x AND netmask n) i \<longleftrightarrow> bit x i \<and> 32 - n \<le> i" for x :: addr and i
    by (auto simp: netmask_def bit_simps dest: bit_imp_le_length)
  have "a AND netmask n = b AND netmask n \<longleftrightarrow> (\<forall>i\<ge>32 - n. bit a i = bit b i)"
    using bits by (metis bit_eqI)
  also have "\<dots> \<longleftrightarrow> (\<forall>k. bit a (32 - n + k) = bit b (32 - n + k))"
    by (metis le_iff_add)
  also have "\<dots> \<longleftrightarrow> bit (drop_bit (32 - n) a) = bit (drop_bit (32 - n) b)"
    by (simp add: fun_eq_iff bit_drop_bit_eq)
  also have "\<dots> \<longleftrightarrow> drop_bit (32 - n) a = drop_bit (32 - n) b"
    by (metis bit_eqI)
  finally show ?thesis .
qed

text \<open>Membership is agreement on the leading \<open>prefix\<close> bits.\<close>

lemma in_mk_network:
  "n \<le> 32 \<Longrightarrow> in_network a (mk_network b n) \<longleftrightarrow> drop_bit (32 - n) a = drop_bit (32 - n) b"
  by (simp add: in_network_def mk_network_def and_netmask_eq_iff)

text \<open>A network holds exactly \<open>num_addresses\<close> addresses.\<close>

lemma card_drop_bit_fibre:
  assumes "k \<le> 32"
  shows "card {a :: addr. drop_bit k a = drop_bit k b} = 2 ^ k"
proof -
  let ?lo = "(b :: addr) AND NOT (mask k)"
  have split_bits: "drop_bit k a = drop_bit k b \<longleftrightarrow> a AND NOT (mask k) = ?lo" for a :: addr
    using and_netmask_eq_iff[of "32 - k" a b] assms by (simp add: netmask_def)
  have inj: "inj_on (\<lambda>a. a AND mask k) {a. drop_bit k a = drop_bit k b}"
  proof (rule inj_onI)
    fix a c :: addr
    assume "a \<in> {a. drop_bit k a = drop_bit k b}" "c \<in> {a. drop_bit k a = drop_bit k b}"
      and eq: "a AND mask k = c AND mask k"
    then have "a AND NOT (mask k) = c AND NOT (mask k)" by (simp add: split_bits)
    then have "(a AND NOT (mask k)) OR (a AND mask k) = (c AND NOT (mask k)) OR (c AND mask k)"
      by (simp add: eq)
    moreover have "(x AND NOT (mask k)) OR (x AND mask k) = x" for x :: addr
      by (rule bit_eqI) (auto simp: bit_simps)
    ultimately show "a = c" by simp
  qed
  have img: "(\<lambda>a. a AND mask k) ` {a. drop_bit k a = drop_bit k b} = {c :: addr. c AND mask k = c}"
  proof (rule set_eqI, rule iffI)
    fix c :: addr
    assume "c \<in> {c. c AND mask k = c}"
    then have c: "c AND mask k = c" by simp
    let ?a = "?lo OR (c AND mask k)"
    have "?a AND mask k = c AND mask k" by (rule bit_eqI) (auto simp: bit_simps)
    moreover have "?a AND NOT (mask k) = ?lo" by (rule bit_eqI) (auto simp: bit_simps)
    ultimately show "c \<in> (\<lambda>a. a AND mask k) ` {a. drop_bit k a = drop_bit k b}"
      using c split_bits by (metis (mono_tags, lifting) imageI mem_Collect_eq)
  qed (auto simp: and.assoc)
  have "card {a. drop_bit k a = drop_bit k b} = card {c :: addr. c AND mask k = c}"
    using card_image[OF inj] img by simp
  also have "\<dots> = card (unat ` {c :: addr. c AND mask k = c})"
    by (intro card_image[symmetric] inj_onI) (metis word_unat_eq_iff)
  also have "unat ` {c :: addr. c AND mask k = c} = {..<2 ^ k}"
  proof (rule set_eqI, rule iffI)
    fix n :: nat
    assume "n \<in> {..<2 ^ k}"
    then have n: "n < 2 ^ k" by simp
    also have "(2::nat) ^ k \<le> 2 ^ 32" using assms by (intro power_increasing) auto
    finally have u: "unat (of_nat n :: addr) = n" by (simp add: unat_of_nat)
    have "uint (of_nat n :: addr) = int n" using u by (metis uint_nat)
    then have "uint (of_nat n :: addr) < 2 ^ k" using n by (metis of_nat_less_iff of_nat_numeral of_nat_power)
    then have "(of_nat n :: addr) AND mask k = of_nat n" by (simp only: mask_eq_iff)
    then show "n \<in> unat ` {c :: addr. c AND mask k = c}" using u by (metis (mono_tags) image_eqI mem_Collect_eq)
  next
    fix n assume "n \<in> unat ` {c :: addr. c AND mask k = c}"
    then obtain c :: addr where "uint c < 2 ^ k" "n = unat c" by (auto simp only: mask_eq_iff)
    then have "int n < int (2 ^ k)" by (metis of_nat_numeral of_nat_power uint_nat)
    then show "n \<in> {..<2 ^ k}" by (simp only: of_nat_less_iff lessThan_iff)
  qed
  finally show ?thesis by simp
qed

section \<open>Texts of addresses and networks\<close>

text \<open>\<open>str\<close> of an address and of a network.\<close>

definition show_ip :: "addr \<Rightarrow> string" where
  "show_ip a = (let n = uint a; m = n div 256; l = m div 256; k = l div 256 in
     join ''.'' (map show_int [k, l mod 256, m mod 256, n mod 256]))"

definition show_network :: "network \<Rightarrow> string" where
  "show_network n = show_ip (net_addr n) @ ''/'' @ show_int (int (net_prefix n))"

lemma length_show_digits: "0 \<le> i \<Longrightarrow> i < 1000 \<Longrightarrow> length (show_digits i) \<le> 3"
proof -
  assume i: "0 \<le> i" "i < 1000"
  have one: "length (show_digits j) = 1" if "j < 10" for j
    using that by (subst show_digits.simps) simp
  have two: "length (show_digits j) \<le> 2" if "j < 100" for j
    using that one[of "j div 10"] by (subst show_digits.simps) simp
  show ?thesis using i two[of "i div 10"] by (subst show_digits.simps) simp
qed

lemma octet_show_int: "0 \<le> i \<Longrightarrow> i \<le> 255 \<Longrightarrow> octet (show_int i) = Some i"
proof -
  assume i: "0 \<le> i" "i \<le> 255"
  have zero: "show_digits 0 = ''0''" by code_simp
  have "show_digits i = ''0'' \<or> hd (show_digits i) \<noteq> CHR ''0''"
    using i hd_show_digits[of i] zero by (cases "i = 0") auto
  with i show ?thesis
    using show_digits_all[of i] length_show_digits[of i]
    by (auto simp: octet_def show_int_nonneg parse_show_digits)
qed

lemma dot_slash_not_digit: "\<not> is_digit (CHR ''.'')" "\<not> is_digit (CHR ''/'')"
  by code_simp+

lemma show_int_no_sep: "0 \<le> i \<Longrightarrow> CHR ''.'' \<notin> set (show_int i) \<and> CHR ''/'' \<notin> set (show_int i)"
  using show_digits_all[of i] all_digits_not_in dot_slash_not_digit by (simp add: show_int_nonneg)

lemma ip_address_show_ip: "ip_address (show_ip a) = Some a"
proof -
  let ?n = "uint a" let ?m = "?n div 256" let ?l = "?m div 256" let ?k = "?l div 256"
  have n: "0 \<le> ?n" "?n < 4294967296" using uint_bounded[of a] by auto
  have m255: "j mod 256 \<le> 255" for j :: int using pos_mod_bound[of 256 j] by linarith
  have "?m < 16777216" using n by linarith
  then have "?l < 65536" by linarith
  then have "?k < 256" by linarith
  moreover have "0 \<le> ?k" using n by (simp add: pos_imp_zdiv_nonneg_iff)
  ultimately have o: "\<forall>i\<in>set [?k, ?l mod 256, ?m mod 256, ?n mod 256]. 0 \<le> i \<and> i \<le> 255"
    using m255 by simp
  have "split_on (CHR ''.'') (show_ip a) = map show_int [?k, ?l mod 256, ?m mod 256, ?n mod 256]"
    unfolding show_ip_def Let_def using o by (intro split_on_join) (auto simp: show_int_no_sep)
  moreover have "map octet (map show_int [?k, ?l mod 256, ?m mod 256, ?n mod 256]) =
      map Some [?k, ?l mod 256, ?m mod 256, ?n mod 256]"
    using o by (simp add: octet_show_int)
  moreover have "?k * 256 + ?l mod 256 = ?l" "?l * 256 + ?m mod 256 = ?m" "?m * 256 + ?n mod 256 = ?n"
    by simp_all
  ultimately show ?thesis by (simp add: ip_address_def)
qed

lemma set_join: "set (join sep xs) \<subseteq> set sep \<union> (\<Union>x\<in>set xs. set x)"
  by (induction sep xs rule: join.induct) auto

lemma show_ip_no_slash: "CHR ''/'' \<notin> set (show_ip a)"
proof -
  have k: "0 \<le> uint a div 256 div 256 div 256" by (simp add: pos_imp_zdiv_nonneg_iff)
  show ?thesis
    unfolding show_ip_def Let_def
    by (rule contra_subsetD[OF set_join]) (use k show_int_no_sep in \<open>auto\<close>)
qed

lemma ip_network_show_network:
  assumes "net_prefix n \<le> 32"
  shows "ip_network (show_network n) = Some (mk_network (net_addr n) (net_prefix n))"
proof -
  have p: "show_int (int (net_prefix n)) = show_digits (int (net_prefix n))"
    by (simp add: show_int_nonneg)
  have "split_on (CHR ''/'') (show_network n) = [show_ip (net_addr n), show_int (int (net_prefix n))]"
    using split_on_append[OF show_ip_no_slash] show_int_no_sep
    by (simp add: show_network_def split_on_plain)
  moreover have "make_prefix (show_int (int (net_prefix n))) = Some (net_prefix n)"
    using assms show_digits_all[of "int (net_prefix n)"] parse_show_digits[of "int (net_prefix n)"]
    by (simp add: make_prefix_def p)
  ultimately show ?thesis by (simp add: ip_network_def ip_address_show_ip)
qed

section \<open>Ranges\<close>

text \<open>\<open>summarize_address_range\<close>: the fewest aligned networks that make up a range, as pairs of
  first address and number of host bits.\<close>

fun low_zero_bits :: "nat \<Rightarrow> int \<Rightarrow> nat" where
  "low_zero_bits 0 n = 0"
| "low_zero_bits (Suc k) n = (if n mod 2 = 0 then Suc (low_zero_bits k (n div 2)) else 0)"

fun floor_log :: "nat \<Rightarrow> int \<Rightarrow> nat" where
  "floor_log 0 n = 0"
| "floor_log (Suc k) n = (if n \<le> 1 then 0 else Suc (floor_log k (n div 2)))"

definition block_bits :: "int \<Rightarrow> int \<Rightarrow> nat" where
  "block_bits a b = min (low_zero_bits 32 a) (floor_log 32 (b - a + 1))"

function range_blocks :: "int \<Rightarrow> int \<Rightarrow> (int \<times> nat) list" where
  "range_blocks a b =
     (if a \<le> b then (a, block_bits a b) # range_blocks (a + 2 ^ block_bits a b) b else [])"
  by pat_completeness auto
termination by (relation "measure (\<lambda>(a, b). nat (b + 1 - a))") auto

declare range_blocks.simps [simp del]

definition summarize_range :: "addr \<Rightarrow> addr \<Rightarrow> network list option" where
  "summarize_range lo hi =
     (if uint hi < uint lo then None
      else Some (map (\<lambda>(a, k). \<lparr>net_addr = of_int a, net_prefix = 32 - k\<rparr>)
                  (range_blocks (uint lo) (uint hi))))"

lemma low_zero_bits_dvd: "2 ^ low_zero_bits k n dvd n"
proof (induction k arbitrary: n)
  case (Suc k)
  show ?case
  proof (cases "n mod 2 = 0")
    case True
    then have "n = 2 * (n div 2)" by presburger
    with Suc[of "n div 2"] True show ?thesis
      by (metis low_zero_bits.simps(2) mult_dvd_mono dvd_refl power_Suc)
  qed simp
qed simp

lemma floor_log_le: "1 \<le> n \<Longrightarrow> 2 ^ floor_log k n \<le> n"
proof (induction k arbitrary: n)
  case (Suc k)
  show ?case
  proof (cases "n \<le> 1")
    case False
    then have "2 ^ floor_log k (n div 2) \<le> n div 2" using Suc by simp
    then show ?thesis using False by simp
  qed (use Suc in simp)
qed simp

text \<open>The blocks cover the range exactly, and each is aligned to its size.\<close>

lemma range_blocks_cover:
  "(\<exists>(c, k)\<in>set (range_blocks a b). c \<le> x \<and> x < c + 2 ^ k) \<longleftrightarrow> a \<le> x \<and> x \<le> b"
proof (induction a b rule: range_blocks.induct)
  case (1 a b)
  show ?case
  proof (cases "a \<le> b")
    case True
    let ?s = "(2::int) ^ block_bits a b"
    have "?s \<le> 2 ^ floor_log 32 (b - a + 1)"
      unfolding block_bits_def by (intro power_increasing) auto
    also have "\<dots> \<le> b - a + 1" using True by (intro floor_log_le) simp
    finally have s: "?s \<le> b - a + 1" .
    have "(\<exists>(c, k)\<in>set (range_blocks a b). c \<le> x \<and> x < c + 2 ^ k) \<longleftrightarrow>
        (a \<le> x \<and> x < a + ?s) \<or> (a + ?s \<le> x \<and> x \<le> b)"
      using True 1 by (subst range_blocks.simps) simp
    also have "\<dots> \<longleftrightarrow> a \<le> x \<and> x \<le> b" using s zero_less_power[of "2::int" "block_bits a b"] by linarith
    finally show ?thesis .
  qed (subst range_blocks.simps, auto)
qed

lemma range_blocks_aligned: "(c, k) \<in> set (range_blocks a b) \<Longrightarrow> a \<le> c \<and> c \<le> b \<and> 2 ^ k dvd c \<and> k \<le> 32"
proof (induction a b rule: range_blocks.induct)
  case (1 a b)
  have lz: "low_zero_bits j n \<le> j" for j n by (induction j arbitrary: n) auto
  show ?case
  proof (cases "a \<le> b")
    case True
    with "1.prems" consider "c = a" "k = block_bits a b"
      | "(c, k) \<in> set (range_blocks (a + 2 ^ block_bits a b) b)"
      by (subst (asm) range_blocks.simps) auto
    then show ?thesis
    proof cases
      case 1
      have "(2::int) ^ block_bits a b dvd 2 ^ low_zero_bits 32 a"
        unfolding block_bits_def by (intro le_imp_power_dvd) simp
      then have "2 ^ k dvd c" using 1 low_zero_bits_dvd dvd_trans by blast
      moreover have "k \<le> 32" using 1 lz[of 32 a] by (simp add: block_bits_def min.coboundedI1)
      ultimately show ?thesis using True 1 by simp
    next
      case 2
      then show ?thesis using "1.IH"[OF True] by (smt (verit) zero_less_power)
    qed
  qed (use "1.prems" in \<open>subst (asm) range_blocks.simps, auto\<close>)
qed

text \<open>So an address lies in one of the networks exactly when it lies in the range.\<close>

lemma uint_drop_bit: "uint (drop_bit k (x :: addr)) = uint x div 2 ^ k"
proof -
  have "uint (drop_bit k x) = drop_bit k (take_bit 32 (uint x))"
    using unsigned_drop_bit_eq[of k x, where 'a = int] by simp
  moreover have "take_bit 32 (uint x) = uint x"
    using uint_bounded[of x] by (simp add: take_bit_int_eq_self)
  ultimately show ?thesis by (simp add: drop_bit_eq_div)
qed

lemma div_eq_block: "(0::int) < d \<Longrightarrow> y div d = q \<longleftrightarrow> d * q \<le> y \<and> y < d * q + d"
proof
  assume d: "0 < d" and q: "y div d = q"
  have "d * (y div d) + y mod d = y" by simp
  moreover have "0 \<le> y mod d" "y mod d < d" using d by simp_all
  ultimately show "d * q \<le> y \<and> y < d * q + d" using q by auto
next
  assume d: "0 < d" and b: "d * q \<le> y \<and> y < d * q + d"
  then have "(y - d * q) div d = 0" by (simp add: div_pos_pos_trivial)
  moreover have "y div d = (y - d * q) div d + q"
    using d div_mult_self2[of d "y - d * q" q] by simp
  ultimately show "y div d = q" by simp
qed

lemma in_aligned_network:
  assumes "2 ^ k dvd c" "0 \<le> c" "c < 2 ^ 32" "k \<le> 32"
  shows "in_network x \<lparr>net_addr = of_int c, net_prefix = 32 - k\<rparr> \<longleftrightarrow> c \<le> uint x \<and> uint x < c + 2 ^ k"
proof -
  have uc: "uint (of_int c :: addr) = c" using assms by (simp add: uint_word_of_int)
  have sub: "of_int c AND netmask (32 - k) = (of_int c :: addr)"
  proof -
    have tb: "take_bit k c = 0" using assms(1) by (simp add: take_bit_eq_0_iff)
    have nb: "\<not> (bit c i \<and> i < k)" for i
    proof -
      have "\<not> bit (take_bit k c) i" by (simp add: tb)
      then show ?thesis by (auto simp: bit_take_bit_iff)
    qed
    show ?thesis
      by (rule bit_word_eqI) (use nb assms(4) in \<open>auto simp: netmask_def bit_simps\<close>)
  qed
  have "in_network x \<lparr>net_addr = of_int c, net_prefix = 32 - k\<rparr> \<longleftrightarrow>
      in_network x (mk_network (of_int c) (32 - k))"
    by (simp add: in_network_def mk_network_def sub)
  also have "\<dots> \<longleftrightarrow> drop_bit k x = drop_bit k (of_int c)"
    using assms(4) by (simp add: in_mk_network)
  also have "\<dots> \<longleftrightarrow> uint (drop_bit k x) = uint (drop_bit k (of_int c :: addr))"
    by (simp add: word_uint_eq_iff)
  also have "\<dots> \<longleftrightarrow> uint x div 2 ^ k = c div 2 ^ k"
    by (simp add: uint_drop_bit uc)
  also have "\<dots> \<longleftrightarrow> c \<le> uint x \<and> uint x < c + 2 ^ k"
  proof -
    obtain q where q: "c = 2 ^ k * q" using assms(1) by (auto elim: dvdE)
    have "uint x div 2 ^ k = q \<longleftrightarrow> 2 ^ k * q \<le> uint x \<and> uint x < 2 ^ k * q + 2 ^ k"
      by (rule div_eq_block) simp
    then show ?thesis using q by simp
  qed
  finally show ?thesis .
qed

lemma summarize_range_exact:
  assumes "summarize_range lo hi = Some ns"
  shows "(\<exists>n\<in>set ns. in_network x n) \<longleftrightarrow> uint lo \<le> uint x \<and> uint x \<le> uint hi"
proof -
  let ?f = "\<lambda>(a, k). \<lparr>net_addr = of_int a, net_prefix = 32 - k\<rparr> :: network"
  have ns: "ns = map ?f (range_blocks (uint lo) (uint hi))"
    using assms by (auto simp: summarize_range_def split: if_splits)
  have "in_network x (?f p) \<longleftrightarrow> (case p of (c, k) \<Rightarrow> c \<le> uint x \<and> uint x < c + 2 ^ k)"
    if "p \<in> set (range_blocks (uint lo) (uint hi))" for p
  proof -
    obtain c k where p: "p = (c, k)" by (cases p)
    have "c \<le> uint hi" "uint lo \<le> c" "2 ^ k dvd c" "k \<le> 32"
      using range_blocks_aligned that p by blast+
    moreover have "uint hi < 2 ^ 32" using uint_bounded[of hi] by simp
    moreover have "0 \<le> c" using calculation(2) uint_ge_0[of lo] by linarith
    ultimately show ?thesis using in_aligned_network[of k c x] p by simp
  qed
  then have "(\<exists>n\<in>set ns. in_network x n) \<longleftrightarrow>
      (\<exists>(c, k)\<in>set (range_blocks (uint lo) (uint hi)). c \<le> uint x \<and> uint x < c + 2 ^ k)"
    by (auto simp: ns)
  then show ?thesis by (simp add: range_blocks_cover)
qed

lemma summarize_range_aligned:
  assumes "summarize_range lo hi = Some ns" and "n \<in> set ns"
  shows "net_prefix n \<le> 32 \<and> mk_network (net_addr n) (net_prefix n) = n"
proof -
  obtain c k where n: "n = \<lparr>net_addr = of_int c, net_prefix = 32 - k\<rparr>"
    and ck: "(c, k) \<in> set (range_blocks (uint lo) (uint hi))"
    using assms by (auto simp: summarize_range_def split: if_splits)
  have b: "c \<le> uint hi" "uint lo \<le> c" "2 ^ k dvd c" "k \<le> 32"
    using range_blocks_aligned[OF ck] by blast+
  moreover have "uint hi < 2 ^ 32" using uint_bounded[of hi] by simp
  moreover have "0 \<le> c" using b(2) uint_ge_0[of lo] by linarith
  ultimately have "in_network (of_int c) n"
    using in_aligned_network[of k c "of_int c"]
    by (simp add: n uint_word_of_int_eq take_bit_int_eq_self)
  then show ?thesis by (simp add: n in_network_def mk_network_def)
qed

end
