(* ===== verification/Policy.thy ===== *)
theory Policy
  imports Regex Ipv4
begin

text \<open>
  \<open>app/firewall/policy.py\<close> and \<open>app/firewall/normalize.py\<close>: the rule model every backend
  produces, the parser of one ACL line, first-match evaluation, and the vendor wrappers.

  A rule object is a record; its identity, which \<open>verify_change\<close> compares with \<open>is\<close>, is its
  index in the list it is evaluated in.
\<close>

section \<open>Rules\<close>

record acl_rule =
  ar_line :: int
  ar_action :: string
  ar_proto :: string
  ar_src :: string
  ar_dst :: string
  ar_port :: "int option"
  ar_id :: string
  ar_hits :: int
  ar_acl :: string
  ar_raw :: string

definition port_aliases :: "(string \<times> int) list" where
  "port_aliases = [(''https'', 443), (''http'', 80), (''www'', 80), (''ssh'', 22),
     (''domain'', 53), (''telnet'', 23), (''smtp'', 25)]"

definition is_any :: "string \<Rightarrow> bool" where
  "is_any s = (s \<in> set [''any'', ''any4'', ''*''])"

definition as_network :: "string \<Rightarrow> network option" where
  "as_network spec =
     (if CHR ''/'' \<in> set spec then ip_network spec else ip_network (spec @ ''/32''))"

definition contains :: "string \<Rightarrow> string \<Rightarrow> bool" where
  "contains spec a =
     (if is_any spec then True
      else case (ip_address a, as_network spec) of
        (Some x, Some n) \<Rightarrow> in_network x n
      | _ \<Rightarrow> False)"

definition breadth :: "string \<Rightarrow> int" where
  "breadth spec =
     (if is_any spec then 2 ^ 32
      else case as_network spec of
        None \<Rightarrow> 2 ^ 32
      | Some n \<Rightarrow> if net_prefix n \<ge> 31 then num_addresses n else num_addresses n - 2)"

definition rule_matches :: "acl_rule \<Rightarrow> string \<Rightarrow> string \<Rightarrow> int \<Rightarrow> string \<Rightarrow> bool" where
  "rule_matches r src_ip dst_ip port proto =
     (if ar_action r \<notin> set [''permit'', ''deny''] then False
      else if ar_proto r \<notin> set [''ip'', ''any'', proto] then False
      else if ar_port r \<noteq> None \<and> ar_port r \<noteq> Some port then False
      else contains (ar_src r) src_ip \<and> contains (ar_dst r) dst_ip)"

section \<open>Parsing one ACL line\<close>

text \<open>\<open>LINE_RE\<close> and \<open>LEADING_SEQ_RE\<close>.\<close>

definition line_re :: rx where
  "line_re = rseq [RBound, r_lit_ci ''line'', RPlus r_space, RGrp 1 (RPlus r_digit), RBound]"

definition leading_seq_re :: rx where
  "leading_seq_re = rseq [RBol, RStar r_space, RGrp 1 (RPlus r_digit), RPlus r_space]"

text \<open>\<open>\d+\.\d+\.\d+\.\d+\<close>\<close>

definition dotted_re :: rx where
  "dotted_re = (let d = RPlus r_digit; p = r_lit ''.'' in rseq [d, p, d, p, d, p, d])"

definition parse_port :: "string list \<Rightarrow> nat \<Rightarrow> int option" where
  "parse_port tokens i =
     (if i < length tokens \<and> tokens ! i = ''eq'' \<and> i + 1 < length tokens
      then let raw = tokens ! (i + 1)
           in if all_digits raw then Some (parse_int raw) else map_of port_aliases raw
      else None)"

definition parse_endpoint :: "string list \<Rightarrow> nat \<Rightarrow> (string \<times> nat) res" where
  "parse_endpoint tokens i =
     res_bind (py_get tokens i) (\<lambda>token.
       if token = ''host'' \<and> i + 1 < length tokens then Inr (tokens ! (i + 1), i + 2)
       else if token \<in> set [''any'', ''any4''] then Inr (''any'', i + 1)
       else if i + 1 < length tokens \<and> rx_fullmatch dotted_re (tokens ! (i + 1)) \<noteq> None
       then Inr (token @ ''/'' @ tokens ! (i + 1), i + 2)
       else Inr (token, i + 1))"

text \<open>The tokens of a command and the line it states, if any.\<close>

definition stated_line :: "string \<Rightarrow> int option" where
  "stated_line text =
     (case rx_search line_re text of
        Some t \<Rightarrow> Some (parse_int (group_or [] 1 t))
      | None \<Rightarrow> (case rx_match leading_seq_re text of
            Some t \<Rightarrow> Some (parse_int (group_or [] 1 t))
          | None \<Rightarrow> None))"

definition command_tokens :: "string \<Rightarrow> string list" where
  "command_tokens text =
     map lower (split_ws (replace_char (CHR 0x09) (CHR '' '') (rx_sub line_re '' '' text)))"

text \<open>The five-tuple from the tokens: (action, proto, src, dst, port).\<close>

definition parse_rule_tokens ::
  "string list \<Rightarrow> (string \<times> string \<times> string \<times> string \<times> int option) option" where
  "parse_rule_tokens tokens =
     (case first_index (\<lambda>t. t \<in> set [''permit'', ''deny'']) tokens of
        None \<Rightarrow> None
      | Some ai \<Rightarrow>
          let i = ai + 1;
              has_proto = i < length tokens \<and> tokens ! i \<in> set [''tcp'', ''udp'', ''ip'', ''icmp''];
              proto = (if has_proto then tokens ! i else ''ip'');
              i = (if has_proto then i + 1 else i)
          in case parse_endpoint tokens i of
               Inl _ \<Rightarrow> None
             | Inr (src, i) \<Rightarrow>
                 let port = parse_port tokens i;
                     i = (if port \<noteq> None then i + 2 else i)
                 in case parse_endpoint tokens i of
                      Inl _ \<Rightarrow> None
                    | Inr (dst, i) \<Rightarrow>
                        let dst_port = parse_port tokens i
                        in Some (tokens ! ai, proto, src, dst,
                                 if dst_port \<noteq> None then dst_port else port))"

definition proposed_rule ::
  "int \<Rightarrow> string \<times> string \<times> string \<times> string \<times> int option \<Rightarrow> acl_rule" where
  "proposed_rule n t = (case t of (action, proto, src, dst, port) \<Rightarrow>
     \<lparr>ar_line = n, ar_action = action, ar_proto = proto, ar_src = src, ar_dst = dst,
      ar_port = port, ar_id = ''proposed'', ar_hits = 0, ar_acl = '''', ar_raw = ''''\<rparr>)"

definition parse_acl_command :: "string \<Rightarrow> acl_rule option" where
  "parse_acl_command command =
     (let text = strip command
      in if text = [] then None
         else map_option
                (proposed_rule (case stated_line text of None \<Rightarrow> -1 | Some n \<Rightarrow> n))
                (parse_rule_tokens (command_tokens text)))"

section \<open>First-match evaluation\<close>

text \<open>\<open>sorted(rules, key=line)\<close> is stable; every rule keeps its index as its identity.\<close>

definition in_order :: "acl_rule list \<Rightarrow> (nat \<times> acl_rule) list" where
  "in_order rules = sort_key (\<lambda>p. ar_line (snd p)) (enumerate 0 rules)"

definition evaluate_flow ::
  "acl_rule list \<Rightarrow> string \<Rightarrow> string \<Rightarrow> int \<Rightarrow> string \<Rightarrow> string \<times> (nat \<times> acl_rule) option" where
  "evaluate_flow rules src_ip dst_ip port proto =
     (case List.find (\<lambda>p. rule_matches (snd p) src_ip dst_ip port proto) (in_order rules) of
        Some p \<Rightarrow> (ar_action (snd p), Some p)
      | None \<Rightarrow> (''deny'', None))"

section \<open>Vendor wrappers\<close>

definition vendor_aliases :: "(string \<times> string) list" where
  "vendor_aliases = [(''cisco'', ''cisco_asa''), (''asa'', ''cisco_asa''), (''ios'', ''cisco_ios''),
     (''eos'', ''arista_eos''), (''arista'', ''arista_eos''), (''srl'', ''nokia_srl''),
     (''nokia'', ''nokia_srl''), (''nokia_srl'', ''nokia_srl''), (''cisco_asa'', ''cisco_asa''),
     (''cisco_ios'', ''cisco_ios''), (''arista_eos'', ''arista_eos'')]"

text \<open>\<open>IOS_ACL_RE\<close> and \<open>EOS_ACL_RE\<close>; group 1 is the name of the ACL (which \<open>normalize.py\<close> does
  not capture and \<open>render.py\<close> does), group 2 is \<open>body\<close>.\<close>

definition ios_acl_re :: rx where
  "ios_acl_re = rseq [RBol, r_lit_ci ''ip'', RPlus r_space, r_lit_ci ''access-list'', RPlus r_space,
     ralt [r_lit_ci ''extended'', r_lit_ci ''standard''], RPlus r_space,
     RGrp 1 (RPlus r_nonspace), RPlus r_space, RGrp 2 (RPlus r_dot), REol]"

definition eos_acl_re :: rx where
  "eos_acl_re = rseq [RBol, r_lit_ci ''ip'', RPlus r_space, r_lit_ci ''access-list'', RPlus r_space,
     ROpt (RSeq (ralt [r_lit_ci ''extended'', r_lit_ci ''standard'']) (RPlus r_space)),
     RGrp 1 (RPlus r_nonspace), RPlus r_space, RGrp 2 (RPlus r_dot), REol]"

definition normalise_vendor :: "string \<Rightarrow> string" where
  "normalise_vendor vendor =
     (let key = replace_char (CHR ''-'') (CHR ''_'') (lower (strip vendor))
      in case map_of vendor_aliases key of Some v \<Rightarrow> v | None \<Rightarrow> key)"

definition acl_command_body :: "string \<Rightarrow> string \<Rightarrow> string" where
  "acl_command_body vendor command =
     (let text = strip command; key = normalise_vendor vendor
      in if key = ''cisco_ios'' then
           (case rx_match ios_acl_re text of Some t \<Rightarrow> strip (group_or [] 2 t) | None \<Rightarrow> text)
         else if key = ''arista_eos'' then
           (case rx_match eos_acl_re text of Some t \<Rightarrow> strip (group_or [] 2 t) | None \<Rightarrow> text)
         else text)"

definition parse_vendor_acl :: "string \<Rightarrow> string \<Rightarrow> acl_rule res" where
  "parse_vendor_acl vendor command =
     (case parse_acl_command (acl_command_body vendor command) of
        Some r \<Rightarrow> Inr r
      | None \<Rightarrow> (case parse_acl_command command of
            Some r \<Rightarrow> Inr r
          | None \<Rightarrow> Inl ValueError))"

definition parse_proposed_acl :: "string \<Rightarrow> string \<Rightarrow> acl_rule option" where
  "parse_proposed_acl command vendor =
     (let text = strip command
      in if text = [] then None
         else if vendor \<noteq> [] then
           (case parse_vendor_acl vendor text of Inl _ \<Rightarrow> None | Inr r \<Rightarrow> Some r)
         else parse_acl_command text)"

section \<open>Facts: matching\<close>

lemma rule_matches_action: "rule_matches r s d p pr \<Longrightarrow> ar_action r = ''permit'' \<or> ar_action r = ''deny''"
  by (auto simp: rule_matches_def split: if_splits)

lemma contains_iff:
  "contains spec a \<longleftrightarrow> is_any spec \<or>
     (\<exists>x n. ip_address a = Some x \<and> as_network spec = Some n \<and> in_network x n)"
  by (auto simp: contains_def split: option.splits)

lemma as_network_prefix: "as_network spec = Some n \<Longrightarrow> net_prefix n \<le> 32"
  by (auto simp: as_network_def elim: ip_network_shape split: if_splits)

lemma as_network_member:
  assumes "as_network spec = Some n"
  shows "\<exists>b. \<forall>x. in_network x n \<longleftrightarrow> drop_bit (32 - net_prefix n) x = drop_bit (32 - net_prefix n) b"
proof -
  obtain t where "ip_network t = Some n" using assms by (auto simp: as_network_def split: if_splits)
  then obtain b where "n = mk_network b (net_prefix n)" "net_prefix n \<le> 32"
    by (rule ip_network_shape)
  then show ?thesis using in_mk_network by metis
qed

lemma card_as_network:
  assumes "as_network spec = Some n"
  shows "int (card {x. in_network x n}) = num_addresses n"
proof -
  obtain b where "{x. in_network x n} = {x. drop_bit (32 - net_prefix n) x = drop_bit (32 - net_prefix n) b}"
    using as_network_member[OF assms] by blast
  then show ?thesis by (simp add: card_drop_bit_fibre num_addresses_def)
qed

lemma breadth_pos: "1 \<le> breadth spec"
proof (cases "is_any spec")
  case False
  show ?thesis
  proof (cases "as_network spec")
    case (Some n)
    show ?thesis
    proof (cases "net_prefix n \<ge> 31")
      case True
      with False Some show ?thesis by (simp add: breadth_def num_addresses_def)
    next
      case False
      then have "(2::int) ^ 2 \<le> 2 ^ (32 - net_prefix n)" by (intro power_increasing) auto
      with \<open>\<not> is_any spec\<close> Some False show ?thesis by (simp add: breadth_def num_addresses_def)
    qed
  qed (simp add: breadth_def False)
qed (simp add: breadth_def)

section \<open>Facts: first match\<close>

definition before :: "nat \<times> acl_rule \<Rightarrow> nat \<times> acl_rule \<Rightarrow> bool" where
  "before p q = (ar_line (snd p) < ar_line (snd q) \<or>
                 ar_line (snd p) = ar_line (snd q) \<and> fst p < fst q)"

lemma insort_before:
  assumes "sorted_wrt before ys" and "\<forall>y\<in>set ys. n < fst y"
  shows "sorted_wrt before (insort_key (\<lambda>p. ar_line (snd p)) (n, x) ys)"
  using assms
proof (induction ys)
  case (Cons y ys)
  show ?case
  proof (cases "ar_line x \<le> ar_line (snd y)")
    case True
    have "before (n, x) z" if "z \<in> set (y # ys)" for z
    proof -
      have "z = y \<or> before y z" using Cons.prems(1) that by auto
      then show ?thesis using True Cons.prems(2) that by (auto simp: before_def)
    qed
    then show ?thesis using True Cons.prems(1) by auto
  next
    case False
    then have "before y (n, x)" by (auto simp: before_def)
    then show ?thesis using False Cons by (auto simp: set_insort_key)
  qed
qed simp

lemma sorted_in_order_aux:
  "sorted_wrt before (sort_key (\<lambda>p. ar_line (snd p)) (enumerate n rules))"
proof (induction rules arbitrary: n)
  case (Cons r rs)
  have "\<forall>y\<in>set (sort_key (\<lambda>p. ar_line (snd p)) (enumerate (Suc n) rs)). n < fst y"
    by (auto simp: in_set_enumerate_eq)
  then show ?case using Cons.IH[of "Suc n"] by (simp add: insort_before sort_key_simps)
qed simp

lemma sorted_in_order: "sorted_wrt before (in_order rules)"
  unfolding in_order_def by (rule sorted_in_order_aux)

lemma set_in_order: "p \<in> set (in_order rules) \<longleftrightarrow> fst p < length rules \<and> snd p = rules ! fst p"
  by (auto simp: in_order_def in_set_enumerate_eq)

lemma find_sorted_wrt:
  assumes "sorted_wrt R xs" and "List.find P xs = Some x"
  shows "x \<in> set xs \<and> P x \<and> (\<forall>y\<in>set xs. P y \<longrightarrow> y = x \<or> R x y)"
proof -
  obtain i where i: "i < length xs" "P (xs ! i)" "x = xs ! i" "\<forall>j<i. \<not> P (xs ! j)"
    using assms(2) by (auto simp: find_Some_iff)
  have "y = x \<or> R x y" if y: "y \<in> set xs" "P y" for y
  proof -
    obtain j where j: "j < length xs" "y = xs ! j" using y(1) by (metis in_set_conv_nth)
    then have "\<not> j < i" using i(4) y(2) by auto
    then show ?thesis using i j assms(1) by (metis linorder_neqE_nat sorted_wrt_nth_less)
  qed
  with i show ?thesis by auto
qed

lemma evaluate_flow_Some:
  "evaluate_flow rules s d p pr = (a, Some (i, r)) \<longleftrightarrow>
     i < length rules \<and> r = rules ! i \<and> a = ar_action r \<and> rule_matches r s d p pr \<and>
     (\<forall>j<length rules. rule_matches (rules ! j) s d p pr \<longrightarrow> j = i \<or> before (i, r) (j, rules ! j))"
  (is "?L \<longleftrightarrow> ?R")
proof
  let ?P = "\<lambda>p'. rule_matches (snd p') s d p pr"
  assume ?L
  then have f: "List.find ?P (in_order rules) = Some (i, r)" and a: "a = ar_action r"
    by (auto simp: evaluate_flow_def split: option.splits)
  from find_sorted_wrt[OF sorted_in_order f]
  have *: "(i, r) \<in> set (in_order rules)" "?P (i, r)"
    "\<forall>y\<in>set (in_order rules). ?P y \<longrightarrow> y = (i, r) \<or> before (i, r) y" by auto
  have "j = i \<or> before (i, r) (j, rules ! j)" if "j < length rules" "rule_matches (rules ! j) s d p pr" for j
    using *(3) that by (force simp: set_in_order)
  with * a show ?R by (auto simp: set_in_order)
next
  let ?P = "\<lambda>p'. rule_matches (snd p') s d p pr"
  assume R: ?R
  then have m: "(i, r) \<in> set (in_order rules)" "?P (i, r)" by (auto simp: set_in_order)
  then obtain q where f: "List.find ?P (in_order rules) = Some q"
    by (cases "List.find ?P (in_order rules)") (auto simp: find_None_iff)
  from find_sorted_wrt[OF sorted_in_order f]
  have q: "q \<in> set (in_order rules)" "?P q" "q = (i, r) \<or> before q (i, r)" using m by auto
  obtain j x where jx: "q = (j, x)" by (cases q)
  have j: "j < length rules" "x = rules ! j" "rule_matches x s d p pr"
    using q(1,2) by (simp_all add: jx set_in_order)
  have "q = (i, r)"
  proof (rule ccontr)
    assume "q \<noteq> (i, r)"
    then have b: "before (j, x) (i, r)" using q(3) jx by auto
    then have "j \<noteq> i" using j R by (auto simp: before_def)
    then have "before (i, r) (j, x)" using j R by blast
    with b show False by (auto simp: before_def)
  qed
  with f R show ?L by (simp add: evaluate_flow_def)
qed

lemma in_order_all: "(\<forall>p\<in>set (in_order rules). Q (snd p)) \<longleftrightarrow> (\<forall>r\<in>set rules. Q r)"
proof
  assume all: "\<forall>p\<in>set (in_order rules). Q (snd p)"
  show "\<forall>r\<in>set rules. Q r"
  proof
    fix r assume "r \<in> set rules"
    then obtain i where "i < length rules" "rules ! i = r" by (auto simp: in_set_conv_nth)
    then have "(i, r) \<in> set (in_order rules)" by (simp add: set_in_order)
    with all show "Q r" by fastforce
  qed
qed (auto simp: set_in_order)

lemma evaluate_flow_None:
  "evaluate_flow rules s d p pr = (a, None) \<longleftrightarrow>
     a = ''deny'' \<and> (\<forall>r\<in>set rules. \<not> rule_matches r s d p pr)"
proof (cases "List.find (\<lambda>x. rule_matches (snd x) s d p pr) (in_order rules)")
  case None
  then have "\<forall>x\<in>set (in_order rules). \<not> rule_matches (snd x) s d p pr"
    unfolding find_None_iff by blast
  then have "\<forall>r\<in>set rules. \<not> rule_matches r s d p pr" by (rule in_order_all[THEN iffD1])
  with None show ?thesis by (auto simp: evaluate_flow_def)
next
  case (Some q)
  then have "q \<in> set (in_order rules)" "rule_matches (snd q) s d p pr"
    using find_sorted_wrt[OF sorted_in_order] by blast+
  then have "\<not> (\<forall>r\<in>set rules. \<not> rule_matches r s d p pr)"
    by (metis in_order_all[of rules "\<lambda>r. \<not> rule_matches r s d p pr"])
  with Some show ?thesis by (auto simp: evaluate_flow_def)
qed

lemma evaluate_flow_cases:
  obtains (hit) i r where "evaluate_flow rules s d p pr = (ar_action r, Some (i, r))"
      "i < length rules" "r = rules ! i" "rule_matches r s d p pr"
  | (miss) "evaluate_flow rules s d p pr = (''deny'', None)"
      "\<forall>r\<in>set rules. \<not> rule_matches r s d p pr"
proof (cases "evaluate_flow rules s d p pr")
  case (Pair a h)
  then show thesis
    using evaluate_flow_Some[of rules s d p pr a] evaluate_flow_None[of rules s d p pr a] that
    by (cases h) (simp, metis surj_pair)
qed

lemma evaluate_flow_verdict: "fst (evaluate_flow rules s d p pr) \<in> {''permit'', ''deny''}"
  by (cases rule: evaluate_flow_cases[of rules s d p pr]) (auto dest: rule_matches_action)

text \<open>A rule that cannot match the flow does not change the verdict.\<close>

lemma evaluate_flow_snoc_nomatch:
  assumes "\<not> rule_matches r s d p pr"
  shows "evaluate_flow (rules @ [r]) s d p pr = evaluate_flow rules s d p pr"
proof (cases rule: evaluate_flow_cases[of rules s d p pr])
  case (hit i x)
  then have "evaluate_flow (rules @ [r]) s d p pr = (ar_action x, Some (i, x))"
    using assms hit(1)[unfolded evaluate_flow_Some]
    by (simp add: evaluate_flow_Some nth_append less_Suc_eq)
  with hit(1) show ?thesis by simp
next
  case miss
  then have "evaluate_flow (rules @ [r]) s d p pr = (''deny'', None)"
    using assms by (simp add: evaluate_flow_None)
  with miss(1) show ?thesis by simp
qed

text \<open>Where an added rule is placed before every matching rule, it decides the flow.\<close>

lemma evaluate_flow_snoc_first:
  assumes "rule_matches r s d p pr"
    and "\<forall>x\<in>set rules. rule_matches x s d p pr \<longrightarrow> ar_line r < ar_line x"
  shows "evaluate_flow (rules @ [r]) s d p pr = (ar_action r, Some (length rules, r))"
  using assms by (auto simp: evaluate_flow_Some nth_append before_def less_Suc_eq)

text \<open>Where a matching rule stands at or above the added rule's line, the added rule is shadowed.\<close>

lemma evaluate_flow_snoc_shadowed:
  assumes "evaluate_flow rules s d p pr = (a, Some (i, x))" and "ar_line x \<le> ar_line r"
  shows "evaluate_flow (rules @ [r]) s d p pr = (a, Some (i, x))"
  using assms by (auto simp: evaluate_flow_Some nth_append before_def less_Suc_eq)

lemmas evaluate_facts = evaluate_flow_Some evaluate_flow_None

lemma contains_show_network:
  assumes "net_prefix n \<le> 32" and "mk_network (net_addr n) (net_prefix n) = n"
  shows "contains (show_network n) (show_ip x) \<longleftrightarrow> in_network x n"
proof -
  have "CHR ''/'' \<in> set (show_network n)" by (simp add: show_network_def)
  moreover from this have "\<not> is_any (show_network n)" by (auto simp: is_any_def)
  ultimately show ?thesis
    using ip_network_show_network[OF assms(1)] assms(2)
    by (simp add: contains_def as_network_def ip_address_show_ip)
qed

section \<open>Properties\<close>

text \<open>First match decides: the verdict of a flow comes from the matching rule that is first by line and
  then by position in the list, and the implicit deny applies exactly when no rule matches.\<close>

theorem evaluate_flow_first_match:
  "(evaluate_flow rules s d p pr = (a, Some (i, r)) \<longleftrightarrow>
     i < length rules \<and> r = rules ! i \<and> a = ar_action r \<and> rule_matches r s d p pr \<and>
     (\<forall>j<length rules. rule_matches (rules ! j) s d p pr \<longrightarrow>
        j = i \<or> ar_line r < ar_line (rules ! j) \<or> ar_line r = ar_line (rules ! j) \<and> i < j)) \<and>
   (evaluate_flow rules s d p pr = (a, None) \<longleftrightarrow>
     a = ''deny'' \<and> (\<forall>r\<in>set rules. \<not> rule_matches r s d p pr))"
  using evaluate_flow_Some[of rules s d p pr a i r] evaluate_flow_None[of rules s d p pr a]
  by (simp add: before_def)

lemma evaluate_flow_first_match_witness:
  "evaluate_flow [] ''10.0.0.1'' ''10.0.0.2'' 80 ''tcp'' = (''deny'', None)"
  using evaluate_flow_first_match[of "[]" "''10.0.0.1''" "''10.0.0.2''" 80 "''tcp''" "''deny''"] by simp

text \<open>\<open>breadth\<close> counts what \<open>contains\<close> accepts: the addresses an endpoint matches number exactly its
  breadth, plus the network and broadcast addresses that \<open>breadth\<close> leaves out of prefixes up to 30.\<close>

theorem breadth_counts:
  assumes "is_any spec \<or> as_network spec \<noteq> None"
  shows "int (card {x. contains spec (show_ip x)}) =
    breadth spec + (if is_any spec then 0
                    else if net_prefix (the (as_network spec)) \<ge> 31 then 0 else 2)"
proof (cases "is_any spec")
  case True
  then have "{x. contains spec (show_ip x)} = (UNIV :: addr set)" by (simp add: contains_def)
  then show ?thesis using True by (simp add: breadth_def card_word)
next
  case False
  then obtain n where n: "as_network spec = Some n" using assms by auto
  then have "{x. contains spec (show_ip x)} = {x. in_network x n}"
    using False by (simp add: contains_def ip_address_show_ip)
  then show ?thesis using False n by (simp add: card_as_network breadth_def)
qed

lemma breadth_counts_witness:
  "int (card {x. contains ''10.1.0.0/24'' (show_ip x)}) = 256"
proof -
  have e: "is_any ''10.1.0.0/24'' \<or> as_network ''10.1.0.0/24'' \<noteq> None"
    "\<not> is_any ''10.1.0.0/24''" "net_prefix (the (as_network ''10.1.0.0/24'')) = 24"
    "breadth ''10.1.0.0/24'' = 254" by code_simp+
  show ?thesis using breadth_counts[OF e(1)] e(2-4) by simp
qed

end
