(* ===== verification/Objects.thy ===== *)
theory Objects
  imports Policy
begin

text \<open>
  \<open>app/firewall/objectgroup.py\<close>: the parsers of \<open>show object-group\<close> and
  \<open>show running-config object\<close>, and the expansion of groups and named objects. A dict keyed
  by lower-cased name is an association list; the object the Python code keeps in \<open>current\<close> is
  the entry of the dict under the key it was stored at last, so the parser state is the dict and
  that key.
\<close>

section \<open>Object groups\<close>

record object_group =
  og_name :: string
  og_kind :: string
  og_networks :: "string list"
  og_ports :: "int list"
  og_protocols :: "string list"
  og_members :: "string list"
  og_refs :: "string list"
  og_complete :: bool

type_synonym registry = "(string \<times> object_group) list"

definition max_port_range :: int where "max_port_range = 64"

definition new_group :: "string \<Rightarrow> string \<Rightarrow> object_group" where
  "new_group name kind = \<lparr>og_name = name, og_kind = kind, og_networks = [], og_ports = [],
     og_protocols = [], og_members = [], og_refs = [], og_complete = True\<rparr>"

definition port_value :: "string \<Rightarrow> int option" where
  "port_value token =
     (if all_digits token then Some (parse_int token) else map_of port_aliases token)"

definition expand_range :: "string \<Rightarrow> string \<Rightarrow> int list option" where
  "expand_range low high =
     (case (port_value low, port_value high) of
        (Some a, Some b) \<Rightarrow>
          if b < a then None
          else if b - a + 1 > max_port_range then None
          else Some [a..b]
      | _ \<Rightarrow> None)"

text \<open>\<open>^\d+\.\d+\.\d+\.\d+(/\d+)?$\<close>\<close>

definition address_re :: rx where
  "address_re = rseq [RBol, dotted_re, ROpt (RSeq (r_lit ''/'') (RPlus r_digit)), REol]"

definition network_member :: "string list \<Rightarrow> string option" where
  "network_member tokens =
     (case tokens of
        [] \<Rightarrow> None
      | t # rest \<Rightarrow>
          if t = ''host'' \<and> rest \<noteq> [] then Some (hd rest)
          else if t \<in> set [''any'', ''any4''] then Some ''any''
          else if rest \<noteq> [] \<and> rx_fullmatch dotted_re (hd rest) \<noteq> None
          then Some (t @ ''/'' @ hd rest)
          else if rx_match address_re t \<noteq> None then Some t
          else None)"

definition mark_incomplete :: "object_group \<Rightarrow> object_group" where
  "mark_incomplete g = g\<lparr>og_complete := False\<rparr>"

definition add_ports :: "int list option \<Rightarrow> object_group \<Rightarrow> object_group" where
  "add_ports ps g = (case ps of None \<Rightarrow> mark_incomplete g | Some xs \<Rightarrow> g\<lparr>og_ports := og_ports g @ xs\<rparr>)"

definition absorb_service_object :: "object_group \<Rightarrow> string list \<Rightarrow> object_group" where
  "absorb_service_object g rest =
     (case rest of
        [] \<Rightarrow> mark_incomplete g
      | k # quals \<Rightarrow>
          if k = ''object'' then
            (case quals of [] \<Rightarrow> mark_incomplete g | r # _ \<Rightarrow> g\<lparr>og_refs := og_refs g @ [r]\<rparr>)
          else
            let g = g\<lparr>og_protocols := og_protocols g @ [k]\<rparr>
            in case first_index (\<lambda>t. t = ''eq'') rest of
                 Some i \<Rightarrow>
                   add_ports (if i + 1 < length rest
                              then map_option (\<lambda>p. [p]) (port_value (rest ! (i + 1))) else None) g
               | None \<Rightarrow>
                   (case first_index (\<lambda>t. t = ''range'') rest of
                      Some i \<Rightarrow>
                        add_ports (if i + 2 < length rest
                                   then expand_range (rest ! (i + 1)) (rest ! (i + 2)) else None) g
                    | None \<Rightarrow> if quals \<noteq> [] then mark_incomplete g else g))"

section \<open>Parsing \<open>show object-group\<close>\<close>

definition group_header_re :: rx where
  "group_header_re = rseq [RBol, r_lit_ci ''object-group'', RPlus r_space,
     RGrp 1 (ralt [r_lit_ci ''network'', r_lit_ci ''service'', r_lit_ci ''protocol'', r_lit_ci ''icmp-type'']),
     RPlus r_space, RGrp 2 (RPlus r_nonspace),
     ROpt (RSeq (RPlus r_space) (RGrp 3 (ralt [r_lit_ci ''tcp'', r_lit_ci ''udp'', r_lit_ci ''tcp-udp'']))),
     RStar r_space, REol]"

type_synonym parse_state = "registry \<times> string option"

definition with_current :: "(object_group \<Rightarrow> object_group) \<Rightarrow> parse_state \<Rightarrow> parse_state" where
  "with_current f st =
     (case snd st of
        None \<Rightarrow> st
      | Some k \<Rightarrow> (case map_of (fst st) k of
            None \<Rightarrow> st
          | Some g \<Rightarrow> (al_put k (f g) (fst st), Some k)))"

text \<open>One member line of a group, already split into lower-case tokens.\<close>

definition group_member_line :: "string \<Rightarrow> string list \<Rightarrow> object_group \<Rightarrow> object_group" where
  "group_member_line keyword rest g =
     (if keyword = ''group-object'' \<and> rest \<noteq> [] then g\<lparr>og_members := og_members g @ [hd rest]\<rparr>
      else if keyword = ''network-object'' then
        (if take 1 rest = [''object''] \<and> length rest > 1
         then g\<lparr>og_refs := og_refs g @ [rest ! 1]\<rparr>
         else case network_member rest of
                None \<Rightarrow> mark_incomplete g
              | Some m \<Rightarrow> g\<lparr>og_networks := og_networks g @ [m]\<rparr>)
      else if keyword = ''port-object'' then
        (if take 1 rest = [''eq''] \<and> length rest > 1
         then add_ports (map_option (\<lambda>p. [p]) (port_value (rest ! 1))) g
         else if take 1 rest = [''range''] \<and> length rest > 2
         then add_ports (expand_range (rest ! 1) (rest ! 2)) g
         else mark_incomplete g)
      else if keyword = ''protocol-object'' \<and> rest \<noteq> []
      then g\<lparr>og_protocols := og_protocols g @ [hd rest]\<rparr>
      else if keyword = ''service-object'' then absorb_service_object g rest
      else if ends_with ''-object'' keyword then mark_incomplete g
      else g)"

definition object_group_line :: "parse_state \<Rightarrow> string \<Rightarrow> parse_state" where
  "object_group_line st raw =
     (let line = strip raw
      in if line = [] then st
         else case rx_match group_header_re line of
           Some m \<Rightarrow>
             let name = group_or [] 2 m;
                 g = new_group name (lower (group_or [] 1 m));
                 g = (case group 3 m of None \<Rightarrow> g | Some p \<Rightarrow> g\<lparr>og_protocols := [lower p]\<rparr>)
             in (al_put (lower name) g (fst st), Some (lower name))
         | None \<Rightarrow>
             if snd st = None \<or> starts_with ''description'' (lower line) then st
             else case split_ws (lower line) of
                    [] \<Rightarrow> st
                  | keyword # rest \<Rightarrow> with_current (group_member_line keyword rest) st)"

definition parse_show_object_groups :: "string \<Rightarrow> registry" where
  "parse_show_object_groups output =
     fst (foldl object_group_line ([], None) (split_lines output))"

section \<open>Parsing \<open>show running-config object\<close>\<close>

definition object_header_re :: rx where
  "object_header_re = rseq [RBol, r_lit_ci ''object'', RPlus r_space,
     RGrp 1 (ralt [r_lit_ci ''network'', r_lit_ci ''service'']), RPlus r_space,
     RGrp 2 (RPlus r_nonspace), RStar r_space, REol]"

definition summarise_range :: "string \<Rightarrow> string \<Rightarrow> string list option" where
  "summarise_range low high =
     (case (ip_address low, ip_address high) of
        (Some a, Some b) \<Rightarrow>
          (case summarize_range a b of
             None \<Rightarrow> None
           | Some ns \<Rightarrow> if length ns > 16 then None else Some (map show_network ns))
      | _ \<Rightarrow> None)"

definition object_member_line :: "string \<Rightarrow> string list \<Rightarrow> object_group \<Rightarrow> object_group" where
  "object_member_line keyword rest g =
     (if keyword = ''host'' \<and> rest \<noteq> [] then g\<lparr>og_networks := og_networks g @ [hd rest]\<rparr>
      else if keyword = ''subnet'' \<and> length rest > 1
      then g\<lparr>og_networks := og_networks g @ [rest ! 0 @ ''/'' @ rest ! 1]\<rparr>
      else if keyword = ''range'' \<and> length rest > 1 then
        (case summarise_range (rest ! 0) (rest ! 1) of
           None \<Rightarrow> mark_incomplete g
         | Some ns \<Rightarrow> g\<lparr>og_networks := og_networks g @ ns\<rparr>)
      else if keyword = ''service'' then absorb_service_object g rest
      else mark_incomplete g)"

definition object_line :: "parse_state \<Rightarrow> string \<Rightarrow> parse_state" where
  "object_line st raw =
     (let line = strip raw
      in if line = [] then st
         else case rx_match object_header_re line of
           Some m \<Rightarrow>
             let name = group_or [] 2 m
             in (al_put (lower name) (new_group name (lower (group_or [] 1 m))) (fst st),
                 Some (lower name))
         | None \<Rightarrow>
             if snd st = None \<or> starts_with ''description'' (lower line) then st
             else case split_ws (lower line) of
                    [] \<Rightarrow> st
                  | keyword # rest \<Rightarrow> with_current (object_member_line keyword rest) st)"

definition parse_show_objects :: "string \<Rightarrow> registry" where
  "parse_show_objects output = fst (foldl object_line ([], None) (split_lines output))"

section \<open>Expansion\<close>

record expansion =
  ex_networks :: "string list"
  ex_ports :: "int list"
  ex_protocols :: "string list"
  ex_complete :: bool

datatype ref_kind = KGroup | KObject

text \<open>The key \<open>f"{kind}:{name.lower()}"\<close> of the set \<open>seen\<close>.\<close>

type_synonym ref = "ref_kind \<times> string"

definition nothing :: expansion where
  "nothing = \<lparr>ex_networks = [], ex_ports = [], ex_protocols = [], ex_complete = False\<rparr>"

definition own_part :: "object_group \<Rightarrow> expansion" where
  "own_part g = \<lparr>ex_networks = og_networks g, ex_ports = og_ports g,
     ex_protocols = og_protocols g, ex_complete = og_complete g\<rparr>"

definition merge_part :: "expansion \<Rightarrow> expansion \<Rightarrow> expansion" where
  "merge_part r n = \<lparr>ex_networks = ex_networks r @ ex_networks n, ex_ports = ex_ports r @ ex_ports n,
     ex_protocols = ex_protocols r @ ex_protocols n,
     ex_complete = (ex_complete r \<and> ex_complete n)\<rparr>"

definition lookup_ref :: "registry \<Rightarrow> registry \<Rightarrow> ref \<Rightarrow> object_group option" where
  "lookup_ref groups objects k =
     (case k of (KGroup, n) \<Rightarrow> map_of groups n | (KObject, n) \<Rightarrow> map_of objects n)"

definition children :: "object_group \<Rightarrow> ref list" where
  "children g = map (\<lambda>n. (KGroup, lower n)) (og_members g) @ map (\<lambda>n. (KObject, lower n)) (og_refs g)"

fun absorb_children ::
  "(ref set \<Rightarrow> ref \<Rightarrow> (expansion \<times> ref set) option) \<Rightarrow> ref list \<Rightarrow> ref set \<Rightarrow> expansion
    \<Rightarrow> (expansion \<times> ref set) option" where
  "absorb_children f [] seen acc = Some (acc, seen)"
| "absorb_children f (k # ks) seen acc =
     (case f seen k of
        None \<Rightarrow> None
      | Some (nested, seen') \<Rightarrow> absorb_children f ks seen' (merge_part acc nested))"

text \<open>The recursion ends because every level adds a registered key to \<open>seen\<close>; the fuel is the
  depth, and \<open>None\<close> is running out of it, which \<open>expand_enough\<close> below excludes.\<close>

primrec expand_fuel ::
  "nat \<Rightarrow> registry \<Rightarrow> registry \<Rightarrow> ref set \<Rightarrow> ref \<Rightarrow> (expansion \<times> ref set) option" where
  "expand_fuel 0 groups objects = (\<lambda>seen k. None)"
| "expand_fuel (Suc fuel) groups objects = (\<lambda>seen k.
     if k \<in> seen then Some (nothing, seen)
     else case lookup_ref groups objects k of
            None \<Rightarrow> Some (nothing, insert k seen)
          | Some g \<Rightarrow> absorb_children (expand_fuel fuel groups objects) (children g)
                        (insert k seen) (own_part g))"

definition expand :: "registry \<Rightarrow> registry \<Rightarrow> ref \<Rightarrow> expansion" where
  "expand groups objects k =
     (case expand_fuel (length groups + length objects + 1) groups objects {} k of
        None \<Rightarrow> nothing | Some (e, _) \<Rightarrow> e)"

definition expand_group :: "string \<Rightarrow> registry \<Rightarrow> registry \<Rightarrow> expansion" where
  "expand_group name groups objects = expand groups objects (KGroup, lower name)"

definition expand_object :: "string \<Rightarrow> registry \<Rightarrow> expansion" where
  "expand_object name objects = expand [] objects (KObject, lower name)"

section \<open>Facts: the fuel is enough\<close>

definition registered :: "registry \<Rightarrow> registry \<Rightarrow> ref set" where
  "registered groups objects = {k. lookup_ref groups objects k \<noteq> None}"

lemma registered_subset:
  "registered groups objects \<subseteq> Pair KGroup ` fst ` set groups \<union> Pair KObject ` fst ` set objects"
proof
  fix k assume "k \<in> registered groups objects"
  then show "k \<in> Pair KGroup ` fst ` set groups \<union> Pair KObject ` fst ` set objects"
    by (cases k; cases "fst k")
      (auto simp: registered_def lookup_ref_def dest!: map_of_SomeD intro!: image_eqI)
qed

lemma finite_registered [simp]: "finite (registered groups objects)"
  by (rule finite_subset[OF registered_subset]) simp

lemma card_registered: "card (registered groups objects) \<le> length groups + length objects"
proof -
  have "card (registered groups objects) \<le>
      card (Pair KGroup ` fst ` set groups \<union> Pair KObject ` fst ` set objects)"
    by (intro card_mono registered_subset) simp
  also have "\<dots> \<le> card (Pair KGroup ` fst ` set groups) + card (Pair KObject ` fst ` set objects)"
    by (rule card_Un_le)
  also have "\<dots> \<le> length groups + length objects"
    by (intro add_mono order_trans[OF card_image_le] order_trans[OF card_image_le] card_length) simp_all
  finally show ?thesis .
qed

lemma absorb_children_returns:
  assumes "\<And>s k. S \<subseteq> s \<Longrightarrow> \<exists>e s'. f s k = Some (e, s') \<and> s \<subseteq> s'" and "S \<subseteq> s"
  shows "\<exists>e s'. absorb_children f ks s acc = Some (e, s') \<and> s \<subseteq> s'"
  using assms(2)
proof (induction ks arbitrary: s acc)
  case (Cons k ks)
  obtain e s' where f: "f s k = Some (e, s')" "s \<subseteq> s'" using assms(1) Cons.prems by blast
  then have "S \<subseteq> s'" using Cons.prems by blast
  from Cons.IH[OF this] f show ?case by (simp, meson order_trans)
qed simp

lemma expand_fuel_returns:
  "card (registered groups objects - seen) < fuel \<Longrightarrow>
     \<exists>e s'. expand_fuel fuel groups objects seen k = Some (e, s') \<and> seen \<subseteq> s'"
proof (induction fuel arbitrary: seen k)
  case (Suc fuel)
  show ?case
  proof (cases "k \<in> seen \<or> lookup_ref groups objects k = None")
    case True
    then show ?thesis by auto
  next
    case False
    then obtain g where g: "lookup_ref groups objects k = Some g" and "k \<notin> seen" by auto
    then have "k \<in> registered groups objects - seen" by (simp add: registered_def)
    then have "card (registered groups objects - insert k seen) < card (registered groups objects - seen)"
      by (intro psubset_card_mono) auto
    then have less: "card (registered groups objects - insert k seen) < fuel" using Suc.prems by simp
    have "\<exists>e s'. expand_fuel fuel groups objects s c = Some (e, s') \<and> s \<subseteq> s'"
      if "insert k seen \<subseteq> s" for s c
    proof (rule Suc.IH)
      have "card (registered groups objects - s) \<le> card (registered groups objects - insert k seen)"
        using that by (intro card_mono) auto
      then show "card (registered groups objects - s) < fuel" using less by simp
    qed
    note below = this
    have "\<exists>e s'. absorb_children (expand_fuel fuel groups objects) (children g)
        (insert k seen) (own_part g) = Some (e, s') \<and> insert k seen \<subseteq> s'"
      by (rule absorb_children_returns[OF _ order_refl]) (rule below)
    then obtain e s' where "absorb_children (expand_fuel fuel groups objects) (children g)
        (insert k seen) (own_part g) = Some (e, s')" and s': "insert k seen \<subseteq> s'"
      by (elim exE conjE)
    then have "expand_fuel (Suc fuel) groups objects seen k = Some (e, s')"
      using \<open>k \<notin> seen\<close> g by simp
    then show ?thesis using s' by blast
  qed
qed simp

lemma expand_returns:
  "\<exists>e s. expand_fuel (length groups + length objects + 1) groups objects {} k = Some (e, s)"
  using expand_fuel_returns[of groups objects "{}" "length groups + length objects + 1" k]
    card_registered[of groups objects] by auto

section \<open>Facts: a complete expansion is the whole closure\<close>

inductive child_of :: "registry \<Rightarrow> registry \<Rightarrow> ref \<Rightarrow> ref \<Rightarrow> bool" for groups objects where
  child: "lookup_ref groups objects k = Some g \<Longrightarrow> c \<in> set (children g) \<Longrightarrow> child_of groups objects k c"

inductive_simps child_of_iff: "child_of groups objects k c"

definition reach :: "registry \<Rightarrow> registry \<Rightarrow> ref \<Rightarrow> ref set" where
  "reach groups objects k = {v. (child_of groups objects)\<^sup>*\<^sup>* k v}"

text \<open>What an entry contributes itself: its networks, ports and protocols.\<close>

definition parts :: "registry \<Rightarrow> registry \<Rightarrow> ref \<Rightarrow> string set \<times> int set \<times> string set" where
  "parts groups objects v = (case lookup_ref groups objects v of
     None \<Rightarrow> ({}, {}, {})
   | Some g \<Rightarrow> (set (og_networks g), set (og_ports g), set (og_protocols g)))"

definition union_parts :: "registry \<Rightarrow> registry \<Rightarrow> ref set \<Rightarrow> string set \<times> int set \<times> string set" where
  "union_parts groups objects V =
     (\<Union>v\<in>V. fst (parts groups objects v), \<Union>v\<in>V. fst (snd (parts groups objects v)),
      \<Union>v\<in>V. snd (snd (parts groups objects v)))"

definition contents :: "expansion \<Rightarrow> string set \<times> int set \<times> string set" where
  "contents e = (set (ex_networks e), set (ex_ports e), set (ex_protocols e))"

definition join_parts :: "string set \<times> int set \<times> string set \<Rightarrow> string set \<times> int set \<times> string set
    \<Rightarrow> string set \<times> int set \<times> string set" where
  "join_parts a b = (fst a \<union> fst b, fst (snd a) \<union> fst (snd b), snd (snd a) \<union> snd (snd b))"

lemma contents_merge: "contents (merge_part a b) = join_parts (contents a) (contents b)"
  by (simp add: contents_def merge_part_def join_parts_def)

lemma union_parts_Un: "union_parts groups objects (V \<union> W) =
    join_parts (union_parts groups objects V) (union_parts groups objects W)"
  by (simp add: union_parts_def join_parts_def)

lemma join_parts_assoc: "join_parts (join_parts a b) c = join_parts a (join_parts b c)"
  by (simp add: join_parts_def Un_assoc)

definition well_expanded :: "registry \<Rightarrow> registry \<Rightarrow> ref set \<Rightarrow> bool" where
  "well_expanded groups objects V = (\<forall>v\<in>V. \<exists>g. lookup_ref groups objects v = Some g \<and>
     og_complete g \<and> set (children g) \<subseteq> V)"

lemma well_expanded_Un:
  "well_expanded groups objects V \<Longrightarrow> well_expanded groups objects W \<Longrightarrow>
   well_expanded groups objects (V \<union> W)"
  unfolding well_expanded_def by (simp add: ball_Un le_supI1 le_supI2) (meson le_supI1 le_supI2)

lemma absorb_children_exact:
  assumes f: "\<And>s k e s'. f s k = Some (e, s') \<Longrightarrow> ex_complete e \<Longrightarrow>
      \<exists>V. s' = s \<union> V \<and> k \<in> V \<and> V \<subseteq> reach groups objects k \<and> well_expanded groups objects V \<and>
        contents e = union_parts groups objects V"
    and "absorb_children f ks s acc = Some (e, s')" and "ex_complete e"
  shows "ex_complete acc \<and> (\<exists>V. s' = s \<union> V \<and> set ks \<subseteq> V \<and>
      V \<subseteq> (\<Union>k\<in>set ks. reach groups objects k) \<and> well_expanded groups objects V \<and>
      contents e = join_parts (contents acc) (union_parts groups objects V))"
  using assms(2)
proof (induction ks arbitrary: s acc)
  case Nil
  then show ?case using assms(3)
    by (auto simp: well_expanded_def union_parts_def join_parts_def intro!: exI[of _ "{}"])
next
  case (Cons k ks)
  then obtain n s1 where n: "f s k = Some (n, s1)"
    and rest: "absorb_children f ks s1 (merge_part acc n) = Some (e, s')"
    by (auto split: option.splits)
  from Cons.IH[OF rest] obtain W where W: "ex_complete (merge_part acc n)" "s' = s1 \<union> W"
    "set ks \<subseteq> W" "W \<subseteq> (\<Union>k\<in>set ks. reach groups objects k)" "well_expanded groups objects W"
    "contents e = join_parts (contents (merge_part acc n)) (union_parts groups objects W)" by blast
  then have c: "ex_complete acc" "ex_complete n" by (simp_all add: merge_part_def)
  from f[OF n c(2)] obtain V where V: "s1 = s \<union> V" "k \<in> V" "V \<subseteq> reach groups objects k"
    "well_expanded groups objects V" "contents n = union_parts groups objects V" by blast
  have "s' = s \<union> (V \<union> W)" "set (k # ks) \<subseteq> V \<union> W"
    "V \<union> W \<subseteq> (\<Union>k\<in>set (k # ks). reach groups objects k)" using V W by auto
  moreover have "contents e = join_parts (contents acc) (union_parts groups objects (V \<union> W))"
    using V W by (simp add: contents_merge union_parts_Un join_parts_assoc)
  moreover have "well_expanded groups objects (V \<union> W)" using V(4) W(5) by (rule well_expanded_Un)
  ultimately show ?case using c(1) by (intro conjI exI[of _ "V \<union> W"]) simp_all
qed

lemma expand_fuel_exact:
  "expand_fuel fuel groups objects seen k = Some (e, s') \<Longrightarrow> ex_complete e \<Longrightarrow>
     \<exists>V. s' = seen \<union> V \<and> k \<in> V \<and> V \<subseteq> reach groups objects k \<and> well_expanded groups objects V \<and>
       contents e = union_parts groups objects V"
proof (induction fuel arbitrary: seen k e s')
  case (Suc fuel)
  then obtain g where g: "lookup_ref groups objects k = Some g" and k: "k \<notin> seen"
    and ab: "absorb_children (expand_fuel fuel groups objects) (children g) (insert k seen) (own_part g) = Some (e, s')"
    by (auto simp: nothing_def split: if_splits option.splits)
  note x = absorb_children_exact[OF Suc.IH ab Suc.prems(2)]
  have og: "og_complete g" using conjunct1[OF x] by (simp add: own_part_def)
  have "\<exists>V. s' = insert k seen \<union> V \<and> set (children g) \<subseteq> V \<and>
      V \<subseteq> (\<Union>c\<in>set (children g). reach groups objects c) \<and> well_expanded groups objects V \<and>
      contents e = join_parts (contents (own_part g)) (union_parts groups objects V)"
    by (rule conjunct2[OF x])
  then obtain V where V: "s' = insert k seen \<union> V" "set (children g) \<subseteq> V"
    "V \<subseteq> (\<Union>c\<in>set (children g). reach groups objects c)" "well_expanded groups objects V"
    "contents e = join_parts (contents (own_part g)) (union_parts groups objects V)" by (elim exE conjE)
  have "insert k V \<subseteq> reach groups objects k"
  proof -
    have "child_of groups objects k c" if "c \<in> set (children g)" for c using g that by (rule child)
    then have "reach groups objects c \<subseteq> reach groups objects k" if "c \<in> set (children g)" for c
      using converse_rtranclp_into_rtranclp[of "child_of groups objects" k c] that
      by (simp add: reach_def subset_iff)
    moreover have "k \<in> reach groups objects k" by (simp add: reach_def)
    ultimately show ?thesis using V(3) by blast
  qed
  moreover have "well_expanded groups objects (insert k V)"
    using V(2,4) g og unfolding well_expanded_def by (simp add: subset_insertI2) (meson subset_insertI2)
  moreover have "contents e = union_parts groups objects (insert k V)"
    using V(5) g by (simp add: union_parts_def join_parts_def contents_def own_part_def parts_def)
  moreover have "s' = seen \<union> insert k V" using V(1) by simp
  ultimately show ?case by (intro exI[of _ "insert k V"]) simp
qed simp

lemma reach_subset:
  assumes "k \<in> V" and "well_expanded groups objects V"
  shows "reach groups objects k \<subseteq> V"
proof
  fix v assume "v \<in> reach groups objects k"
  then have "(child_of groups objects)\<^sup>*\<^sup>* k v" by (simp add: reach_def)
  then show "v \<in> V"
  proof (induction rule: rtranclp_induct)
    case (step y z)
    then obtain g where "lookup_ref groups objects y = Some g" "z \<in> set (children g)"
      by (auto simp: child_of_iff)
    with step.IH assms(2) show ?case unfolding well_expanded_def by fastforce
  qed (rule assms(1))
qed

lemma expand_exact:
  assumes "ex_complete (expand groups objects k)"
  shows "contents (expand groups objects k) = union_parts groups objects (reach groups objects k) \<and>
    (\<forall>v\<in>reach groups objects k. \<exists>g. lookup_ref groups objects v = Some g \<and> og_complete g)"
proof -
  obtain e s where x: "expand_fuel (length groups + length objects + 1) groups objects {} k = Some (e, s)"
    using expand_returns by blast
  then have e: "expand groups objects k = e" by (simp add: expand_def)
  from expand_fuel_exact[OF x] assms e obtain V where V: "k \<in> V" "V \<subseteq> reach groups objects k"
    "well_expanded groups objects V" "contents e = union_parts groups objects V" by auto
  then have "V = reach groups objects k" using reach_subset by blast
  with V e show ?thesis by (auto simp: well_expanded_def)
qed

section \<open>Properties\<close>

text \<open>C35. Expansion always returns: with one level of recursion for every registered name, and one more,
  the cycle guard has ended every path.\<close>

theorem expand_terminates:
  "\<exists>e s. expand_fuel (length groups + length objects + 1) groups objects {} k = Some (e, s)"
  by (rule expand_returns)

text \<open>C34. A complete expansion is exact: what it lists is the union of what every group and object reachable
  from the name contributes itself, no more and no less, and all of these were fully understood.\<close>

theorem group_expansion_exact:
  assumes "ex_complete (expand_group name groups objects)"
  shows "contents (expand_group name groups objects) =
      union_parts groups objects (reach groups objects (KGroup, lower name)) \<and>
    (\<forall>v\<in>reach groups objects (KGroup, lower name).
       \<exists>g. lookup_ref groups objects v = Some g \<and> og_complete g)"
  using assms unfolding expand_group_def by (rule expand_exact)

definition demo_listing :: string where
  "demo_listing = ''object-group network WEB\<newline> network-object host 10.0.0.1\<newline> group-object DB\<newline>object-group network DB\<newline> network-object host 10.0.0.2''"

lemma group_expansion_exact_witness:
  "contents (expand_group ''WEB'' (parse_show_object_groups demo_listing) []) =
    union_parts (parse_show_object_groups demo_listing) []
      (reach (parse_show_object_groups demo_listing) [] (KGroup, lower ''WEB''))"
  by (rule conjunct1[OF group_expansion_exact]) code_simp

text \<open>An address range of a named object is summarised exactly: the networks it is turned into match an
  address if and only if it lies in the range.\<close>

theorem object_range_exact:
  assumes "summarise_range low high = Some specs" and "ip_address low = Some a" and "ip_address high = Some b"
  shows "(\<exists>spec\<in>set specs. contains spec (show_ip x)) \<longleftrightarrow> uint a \<le> uint x \<and> uint x \<le> uint b"
proof -
  obtain ns where ns: "summarize_range a b = Some ns" "specs = map show_network ns"
    using assms by (auto simp: summarise_range_def split: option.splits if_splits)
  then have "(\<exists>spec\<in>set specs. contains spec (show_ip x)) \<longleftrightarrow> (\<exists>n\<in>set ns. in_network x n)"
    using summarize_range_aligned[OF ns(1)] contains_show_network by auto
  then show ?thesis using summarize_range_exact[OF ns(1)] by simp
qed

lemma object_range_exact_witness:
  "(\<exists>spec\<in>set [''10.0.0.1/32'', ''10.0.0.2/31'']. contains spec (show_ip 0x0A000003)) \<longleftrightarrow>
     uint (0x0A000001 :: addr) \<le> uint (0x0A000003 :: addr) \<and> uint (0x0A000003 :: addr) \<le> uint (0x0A000003 :: addr)"
  by (rule object_range_exact[where low = "''10.0.0.1''" and high = "''10.0.0.3''"]) code_simp+

end
