(* ===== verification/Nat_Detect.thy ===== *)
theory Nat_Detect
  imports Objects
begin

text \<open>
  \<open>app/firewall/nat.py\<close>: the parser of \<open>show nat\<close> and \<open>show running-config nat\<close>, and the test
  whether a translation could touch an address of the flow. The verdict of \<open>_covers\<close> is
  three-valued: \<open>Some True\<close>, \<open>Some False\<close>, or \<open>None\<close> where the operand cannot be resolved.
\<close>

record nat_rule =
  nr_raw :: string
  nr_from :: string
  nr_to :: string
  nr_kind :: string
  nr_identity :: bool
  nr_operands :: "string list"

record nat_assessment =
  na_translated :: "string list"
  na_unresolved :: "string list"

definition na_applies :: "nat_assessment \<Rightarrow> bool" where
  "na_applies a = (na_translated a \<noteq> [])"

definition no_assessment :: nat_assessment where
  "no_assessment = \<lparr>na_translated = [], na_unresolved = []\<rparr>"

section \<open>Parsing\<close>

definition r_zone :: "nat \<Rightarrow> rx" where
  "r_zone n = RGrp n (RPlus (RSet (\<lambda>c. c \<noteq> CHR '')'')))"

text \<open>\<open>NAT_LINE_RE\<close> and \<open>CONFIG_NAT_RE\<close>.\<close>

definition nat_line_re :: rx where
  "nat_line_re = rseq [RBol, RStar r_space, RPlus r_digit, RPlus r_space,
     r_lit ''('', r_zone 1, r_lit '')'', RPlus r_space, r_lit_ci ''to'', RPlus r_space,
     r_lit ''('', r_zone 2, r_lit '')'', RPlus r_space, r_lit_ci ''source'', RPlus r_space,
     RGrp 3 (RStar r_dot), REol]"

definition config_nat_re :: rx where
  "config_nat_re = rseq [RBol, RStar r_space, r_lit_ci ''nat'', RPlus r_space,
     r_lit ''('', r_zone 1 , r_lit '','', RStar r_space, r_zone 2, r_lit '')'', RPlus r_space,
     ROpt (RSeq (RPlus r_digit) (RPlus r_space)), r_lit_ci ''source'', RPlus r_space,
     RGrp 3 (RStar r_dot), REol]"

definition stop_words :: "string list" where
  "stop_words = [''destination'', ''service'', ''description'', ''inactive'',
     ''unidirectional'', ''no-proxy-arp'']"

text \<open>\<open>_operands(tokens, start)\<close>, on the tokens from \<open>start\<close> on.\<close>

definition operands :: "string list \<Rightarrow> string list" where
  "operands tokens = take 2 (takeWhile (\<lambda>t. lower t \<notin> set stop_words) tokens)"

text \<open>The loop of \<open>_rules_from_body\<close>, on the tokens from \<open>index\<close> on; \<open>dst\<close> says that the section
  is \<open>destination\<close>.\<close>

function body_rules :: "string \<Rightarrow> string \<Rightarrow> string \<Rightarrow> bool \<Rightarrow> string list \<Rightarrow> nat_rule list" where
  "body_rules raw from_zone to_zone dst [] = []"
| "body_rules raw from_zone to_zone dst (t # ts) =
     (let token = lower t in
      if token = ''destination'' then body_rules raw from_zone to_zone True ts
      else if token \<in> set [''static'', ''dynamic''] then
        (let ops = operands ts in
         if ops = [] then body_rules raw from_zone to_zone dst ts
         else \<lparr>nr_raw = strip raw, nr_from = from_zone, nr_to = to_zone, nr_kind = token,
                nr_identity = (token = ''static'' \<and> length ops \<ge> 2 \<and> ops ! 0 = ops ! 1),
                nr_operands = (if dst then rev ops else ops)\<rparr>
              # body_rules raw from_zone to_zone dst (drop (length ops) ts))
      else body_rules raw from_zone to_zone dst ts)"
  by pat_completeness auto
termination by (relation "measure (\<lambda>(_, _, _, _, ts). length ts)") auto

definition rules_from_body :: "string \<Rightarrow> string \<Rightarrow> string \<Rightarrow> string \<Rightarrow> nat_rule list" where
  "rules_from_body raw from_zone to_zone body =
     body_rules raw from_zone to_zone False (split_ws body)"

definition nat_rules_of_line :: "string \<Rightarrow> nat_rule list" where
  "nat_rules_of_line raw_line =
     (let line = rstrip raw_line in
      if strip line = [] \<or> starts_with ''translate_hits'' (lower (lstrip line)) then []
      else case rx_match nat_line_re line of
          Some m \<Rightarrow> rules_from_body line (strip (group_or [] 1 m)) (strip (group_or [] 2 m)) (group_or [] 3 m)
        | None \<Rightarrow> (case rx_match config_nat_re line of
              Some m \<Rightarrow> rules_from_body line (strip (group_or [] 1 m)) (strip (group_or [] 2 m)) (group_or [] 3 m)
            | None \<Rightarrow> []))"

definition parse_show_nat :: "string \<Rightarrow> nat_rule list" where
  "parse_show_nat output = concat (map nat_rules_of_line (split_lines output))"

section \<open>Assessment\<close>

definition covers :: "string \<Rightarrow> string \<Rightarrow> registry \<Rightarrow> bool option" where
  "covers operand address objects =
     (if lower operand \<in> set [''any'', ''any4'', ''any6'', ''interface'']
      then Some (lower operand \<noteq> ''interface'')
      else
        let candidates =
          (if map_of objects (lower operand) = None then Some [operand]
           else let e = expand_object operand objects
                in if \<not> ex_complete e \<and> ex_networks e = [] then None else Some (ex_networks e))
        in case candidates of
             None \<Rightarrow> None
           | Some cs \<Rightarrow> (case ip_address address of
                 None \<Rightarrow> None
               | Some target \<Rightarrow>
                   let nets = List.map_filter (\<lambda>c. as_network (strip c)) cs
                   in if list_ex (in_network target) nets then Some True
                      else if nets \<noteq> [] then Some False else None))"

definition add_once :: "string \<Rightarrow> string list \<Rightarrow> string list" where
  "add_once x xs = (if x \<in> set xs then xs else xs @ [x])"

text \<open>One round of the loop of \<open>assess_flow\<close>: the operands and addresses are tried until one is
  covered; only if none is, does an unresolvable one count.\<close>

definition assess_rule ::
  "string list \<Rightarrow> registry \<Rightarrow> nat_assessment \<Rightarrow> nat_rule \<Rightarrow> nat_assessment" where
  "assess_rule addresses objects a r =
     (if nr_identity r then a
      else let verdicts = concat (map (\<lambda>ope. map (\<lambda>address. covers ope address objects) addresses)
                                      (nr_operands r))
           in if Some True \<in> set verdicts then a\<lparr>na_translated := add_once (nr_raw r) (na_translated a)\<rparr>
              else if None \<in> set verdicts then a\<lparr>na_unresolved := add_once (nr_raw r) (na_unresolved a)\<rparr>
              else a)"

definition assess_flow :: "nat_rule list \<Rightarrow> string list \<Rightarrow> registry \<Rightarrow> nat_assessment" where
  "assess_flow rules addresses objects =
     foldl (assess_rule addresses objects) no_assessment rules"

section \<open>Facts\<close>

definition touches :: "nat_rule \<Rightarrow> string list \<Rightarrow> registry \<Rightarrow> bool" where
  "touches r addresses objects = (\<not> nr_identity r \<and>
     (\<exists>ope\<in>set (nr_operands r). \<exists>a\<in>set addresses. covers ope a objects = Some True))"

definition undecided :: "nat_rule \<Rightarrow> string list \<Rightarrow> registry \<Rightarrow> bool" where
  "undecided r addresses objects = (\<not> nr_identity r \<and> \<not> touches r addresses objects \<and>
     (\<exists>ope\<in>set (nr_operands r). \<exists>a\<in>set addresses. covers ope a objects = None))"

lemma set_add_once [simp]: "set (add_once x xs) = insert x (set xs)"
  by (auto simp: add_once_def)

lemma verdict_in: "v \<in> set (concat (map (\<lambda>ope. map (\<lambda>a. f ope a) as) os)) \<longleftrightarrow>
    (\<exists>ope\<in>set os. \<exists>a\<in>set as. f ope a = v)"
  by auto

lemma assess_rule_cases:
  "assess_rule addresses objects a r =
     (if touches r addresses objects then a\<lparr>na_translated := add_once (nr_raw r) (na_translated a)\<rparr>
      else if undecided r addresses objects
      then a\<lparr>na_unresolved := add_once (nr_raw r) (na_unresolved a)\<rparr> else a)"
  by (auto simp only: assess_rule_def touches_def undecided_def Let_def verdict_in split: if_splits)

lemma assess_rule_sets:
  "set (na_translated (assess_rule addresses objects a r)) =
     set (na_translated a) \<union> (if touches r addresses objects then {nr_raw r} else {})"
  "set (na_unresolved (assess_rule addresses objects a r)) =
     set (na_unresolved a) \<union> (if undecided r addresses objects then {nr_raw r} else {})"
proof -
  have "\<not> undecided r addresses objects" if "touches r addresses objects"
    using that by (simp add: undecided_def)
  then show
    "set (na_translated (assess_rule addresses objects a r)) =
       set (na_translated a) \<union> (if touches r addresses objects then {nr_raw r} else {})"
    "set (na_unresolved (assess_rule addresses objects a r)) =
       set (na_unresolved a) \<union> (if undecided r addresses objects then {nr_raw r} else {})"
    by (simp_all add: assess_rule_cases)
qed

lemma assess_fold_sets:
  "set (na_translated (foldl (assess_rule addresses objects) a rules)) =
     set (na_translated a) \<union> nr_raw ` {r \<in> set rules. touches r addresses objects}"
  "set (na_unresolved (foldl (assess_rule addresses objects) a rules)) =
     set (na_unresolved a) \<union> nr_raw ` {r \<in> set rules. undecided r addresses objects}"
  by (induction rules arbitrary: a) (auto simp: assess_rule_sets)

lemma assess_flow_sets:
  "set (na_translated (assess_flow rules addresses objects)) =
     nr_raw ` {r \<in> set rules. touches r addresses objects}"
  "set (na_unresolved (assess_flow rules addresses objects)) =
     nr_raw ` {r \<in> set rules. undecided r addresses objects}"
  by (simp_all add: assess_flow_def assess_fold_sets no_assessment_def)

lemma covers_plain:
  assumes "lower ope \<notin> {''any'', ''any4'', ''any6'', ''interface''}"
    and "map_of objects (lower ope) = None" and "ip_address a = Some x"
  shows "covers ope a objects = map_option (in_network x) (as_network (strip ope))"
  using assms by (auto simp: covers_def map_filter_def split: option.splits)

section \<open>Properties\<close>

text \<open>What an assessment reports is exactly the rules that could touch the flow: \<open>translated\<close> holds the
  text of every rule, other than identity NAT, one of whose operands covers one of the addresses, and
  \<open>unresolved\<close> that of every other rule with an operand that cannot be resolved.\<close>

theorem assessment_exact:
  "set (na_translated (assess_flow rules addresses objects)) =
     {nr_raw r |r. r \<in> set rules \<and> touches r addresses objects} \<and>
   set (na_unresolved (assess_flow rules addresses objects)) =
     {nr_raw r |r. r \<in> set rules \<and> undecided r addresses objects}"
  by (auto simp: assess_flow_sets)

end
