(* ===== verification/Verify.thy ===== *)
theory Verify
  imports Nat_Detect "HOL-Library.List_Lexorder"
begin

text \<open>
  \<open>app/verify.py\<close>: the simulation of a proposed change and of its rollback against a device's
  current policy. The backend is a record of what \<open>verify.py\<close> calls on it; an exception of
  \<open>acl_policy\<close> propagates as \<open>Inl\<close>, one of \<open>nat_assessment\<close> is swallowed, as in the code. The
  lines of a report and its remediation are values of data types with one constructor per text
  of the code, carrying what the text interpolates.
\<close>

section \<open>What goes in and what comes out\<close>

record action =
  act_device :: string
  act_command :: string
  act_vendor :: string
  act_position :: "int option"

record flow =
  fl_src :: string
  fl_dst :: string
  fl_port :: int
  fl_proto :: string

text \<open>A backend. \<open>fv_nat\<close> is \<open>None\<close> where the attribute \<open>nat_assessment\<close> is missing.\<close>

record firewall =
  fv_policy :: "string \<Rightarrow> acl_rule list res"
  fv_nat :: "(string \<Rightarrow> string list \<Rightarrow> nat_assessment res) option"

datatype line =
    No_action
  | No_flow
  | Unparsed_command string string
  | Inserting string int
  | Appending string int
  | Nat_unresolved string "string list"
  | Nat_translated string "string list"
  | Inconclusive string int "string list"
  | Pass_proposal flow
  | Pass_existing flow string
  | Fail_denied flow "(string \<times> int) option" int   \<comment> \<open>the blocker and its line; \<open>None\<close>: implicit deny\<close>
  | Scope_port
  | Scope_pairs int int "string list" "string list"
  | Rollback_unparsed_proposal string
  | Rollback_other_rule string string
  | Rollback_unparsed string string
  | Rollback_pass flow string
  | Rollback_fail flow string string

datatype remedy =
    No_remedy
  | Reissue
  | Confirm_real_addresses
  | Review_by_hand
  | Reposition string int int                         \<comment> \<open>blocker, its line, the position to use\<close>
  | Narrow string string "int option"
  | Use_rollback string

record report =
  rp_ok :: bool
  rp_lines :: "line list"
  rp_remediation :: remedy

record rollback_report =
  rb_ok :: bool
  rb_command :: string
  rb_source :: string
  rb_lines :: "line list"
  rb_remediation :: remedy

section \<open>Scope\<close>

text \<open>\<open>sorted({... if x})\<close>\<close>

definition evidence :: "string list \<Rightarrow> string list" where
  "evidence xs = sort (remdups (filter (\<lambda>x. x \<noteq> []) xs))"

definition scope_findings :: "acl_rule \<Rightarrow> flow list \<Rightarrow> line list \<times> remedy" where
  "scope_findings rule flows =
     (let srcs = evidence (map fl_src flows); dsts = evidence (map fl_dst flows)
      in if srcs = [] \<or> dsts = [] then ([], No_remedy)
         else
           let permitted = breadth (ar_src rule) * breadth (ar_dst rule);
               needed = int (length srcs) * int (length dsts);
               lines = (if ar_port rule = None then [Scope_port] else [])
                       @ (if permitted > needed then [Scope_pairs permitted needed srcs dsts] else [])
           in (lines,
               if lines = [] then No_remedy
               else Narrow (hd srcs) (hd dsts) (if ar_port rule = Some 0 then None else ar_port rule)))"

section \<open>Rollback\<close>

definition derive_rollback :: "string \<Rightarrow> string" where
  "derive_rollback command =
     (let text = strip command
      in if starts_with ''no '' (lower text) then text else ''no '' @ text)"

definition removal_target :: "string \<Rightarrow> string \<Rightarrow> acl_rule option" where
  "removal_target command vendor =
     (let text = strip command
      in if \<not> starts_with ''no '' (lower text) then None
         else parse_proposed_acl (drop 3 text) vendor)"

definition same_rule :: "acl_rule \<Rightarrow> acl_rule \<Rightarrow> bool" where
  "same_rule l r =
     ((ar_action l, ar_proto l, ar_src l, ar_dst l, ar_port l) =
      (ar_action r, ar_proto r, ar_src r, ar_dst r, ar_port r))"

definition verdict :: "acl_rule list \<Rightarrow> flow \<Rightarrow> string" where
  "verdict rules f = fst (evaluate_flow rules (fl_src f) (fl_dst f) (fl_port f) (fl_proto f))"

definition next_line :: "acl_rule list \<Rightarrow> int" where
  "next_line base = max_default 0 (map ar_line base) + 10"

definition rollback_line :: "acl_rule list \<Rightarrow> acl_rule list \<Rightarrow> flow \<Rightarrow> bool \<times> line" where
  "rollback_line base restored f =
     (if verdict base f = verdict restored f then (True, Rollback_pass f (verdict base f))
      else (False, Rollback_fail f (verdict restored f) (verdict base f)))"

definition verify_rollback ::
  "action \<Rightarrow> flow list \<Rightarrow> firewall \<Rightarrow> string \<Rightarrow> rollback_report res" where
  "verify_rollback a flows fw rollback =
     (let command = act_command a;
          source = (if strip rollback \<noteq> [] then ''model'' else ''derived'');
          reversal = (if strip rollback \<noteq> [] then strip rollback else derive_rollback command);
          failed = (\<lambda>ls rem. \<lparr>rb_ok = False, rb_command = reversal, rb_source = source,
                              rb_lines = ls, rb_remediation = rem\<rparr>)
      in case parse_proposed_acl command (act_vendor a) of
           None \<Rightarrow> Inr (failed [Rollback_unparsed_proposal (act_device a)] No_remedy)
         | Some p \<Rightarrow> res_bind (fv_policy fw (act_device a)) (\<lambda>base.
             let proposed = p\<lparr>ar_line := case act_position a of Some n \<Rightarrow> n | None \<Rightarrow> next_line base\<rparr>;
                 after_change = base @ [proposed];
                 judged = (\<lambda>restored.
                   let rs = map (rollback_line base restored) flows; ok = list_all fst rs
                   in \<lparr>rb_ok = ok, rb_command = reversal, rb_source = source, rb_lines = map snd rs,
                       rb_remediation = if ok then No_remedy else Use_rollback (derive_rollback command)\<rparr>)
             in case removal_target reversal (act_vendor a) of
                  Some removal \<Rightarrow>
                    if \<not> same_rule removal proposed
                    then Inr (failed [Rollback_other_rule (act_device a) reversal]
                                     (Use_rollback (derive_rollback command)))
                    else Inr (judged base)
                | None \<Rightarrow> (case parse_proposed_acl reversal (act_vendor a) of
                      None \<Rightarrow> Inr (failed [Rollback_unparsed (act_device a) reversal]
                                          (Use_rollback (derive_rollback command)))
                    | Some compensating \<Rightarrow> Inr (judged (after_change @
                        [compensating\<lparr>ar_line := if ar_line proposed > 1 then ar_line proposed - 1 else 1\<rparr>])))))"

section \<open>Address translation\<close>

definition flow_addresses :: "flow list \<Rightarrow> string list" where
  "flow_addresses flows = evidence (concat (map (\<lambda>f. [fl_src f, fl_dst f]) flows))"

definition nat_findings :: "firewall \<Rightarrow> string \<Rightarrow> flow list \<Rightarrow> line list \<times> bool \<times> remedy" where
  "nat_findings fw device flows =
     (case fv_nat fw of
        None \<Rightarrow> ([], False, No_remedy)
      | Some assess \<Rightarrow>
          let addresses = flow_addresses flows
          in if addresses = [] then ([], False, No_remedy)
             else case assess device addresses of
                Inl _ \<Rightarrow> ([], False, No_remedy)
              | Inr a \<Rightarrow>
                  let lines = (if na_unresolved a \<noteq> [] then [Nat_unresolved device (na_unresolved a)] else [])
                  in if \<not> na_applies a then (lines, False, No_remedy)
                     else (lines @ [Nat_translated device (na_translated a)], True, Confirm_real_addresses))"

section \<open>The simulation of a change\<close>

definition unmodelled_above :: "acl_rule list \<Rightarrow> int \<Rightarrow> acl_rule list" where
  "unmodelled_above policy n = filter (\<lambda>r. ar_action r = ''unparsed'' \<and> ar_line r \<le> n) policy"

text \<open>The loop state of \<open>verify_change\<close>: (ok, lines, remediation).\<close>

type_synonym progress = "bool \<times> line list \<times> remedy"

text \<open>One flow of one action; the first component of the result is \<open>matched_proposal\<close>. The
  proposed rule is the last of \<open>base + [rule]\<close>, and \<open>hit is rule\<close> is equality of indices.\<close>

definition judge_flow ::
  "acl_rule list \<Rightarrow> acl_rule \<Rightarrow> bool \<times> progress \<Rightarrow> flow \<Rightarrow> bool \<times> progress" where
  "judge_flow base rule st f = (case st of (matched, ok, lines, remediation) \<Rightarrow>
     (let (result, hit) = evaluate_flow (base @ [rule]) (fl_src f) (fl_dst f) (fl_port f) (fl_proto f)
      in if result = ''permit'' \<and> map_option fst hit = Some (length base)
         then (True, ok, lines @ [Pass_proposal f], remediation)
         else if result = ''permit''
         then (matched, ok,
               lines @ [Pass_existing f (case hit of Some (_, h) \<Rightarrow> ar_id h | None \<Rightarrow> ''unknown'')],
               remediation)
         else (matched, False,
               lines @ [Fail_denied f (map_option (\<lambda>(_, h). (ar_id h, ar_line h)) hit) (ar_line rule)],
               case hit of None \<Rightarrow> remediation
               | Some (_, h) \<Rightarrow> Reposition (ar_id h) (ar_line h) (max (ar_line h - 1) 1))))"

text \<open>Where the rule is placed, and what the report says of it.\<close>

definition place_rule :: "action \<Rightarrow> acl_rule list \<Rightarrow> acl_rule \<Rightarrow> acl_rule \<times> line list" where
  "place_rule a base rule =
     (if ar_line rule < 0
      then (case act_position a of
              Some n \<Rightarrow> (rule\<lparr>ar_line := n\<rparr>, [Inserting (act_device a) n])
            | None \<Rightarrow> (rule\<lparr>ar_line := next_line base\<rparr>, [Appending (act_device a) (next_line base)]))
      else (rule, []))"

text \<open>From the check for unmodelled rules to the end of the loop body, for a placed rule.\<close>

definition judge_rule ::
  "flow list \<Rightarrow> string \<Rightarrow> acl_rule list \<Rightarrow> acl_rule \<Rightarrow> progress \<Rightarrow> progress" where
  "judge_rule flows device base rule st =
     (let blind = unmodelled_above base (ar_line rule);
          st2 = (if blind = [] then st
                 else (False, fst (snd st) @ [Inconclusive device (ar_line rule) (map ar_raw blind)],
                       Review_by_hand));
          out = foldl (judge_flow base rule) (False, st2) flows;
          (scope_lines, scope_fix) = scope_findings rule flows
      in if fst out \<and> scope_lines \<noteq> []
         then (False, fst (snd (snd out)) @ scope_lines, scope_fix)
         else snd out)"

definition judge_action ::
  "flow list \<Rightarrow> firewall \<Rightarrow> action \<Rightarrow> progress \<Rightarrow> progress res" where
  "judge_action flows fw a st = (case st of (ok, lines, remediation) \<Rightarrow>
     (case parse_proposed_acl (act_command a) (act_vendor a) of
        None \<Rightarrow> Inr (False, lines @ [Unparsed_command (act_device a) (act_command a)], Reissue)
      | Some parsed \<Rightarrow> res_bind (fv_policy fw (act_device a)) (\<lambda>base.
          let (nat_lines, nat_blocks, nat_fix) = nat_findings fw (act_device a) flows;
              (rule, placed) = place_rule a base parsed
          in Inr (judge_rule flows (act_device a) base rule
               (ok \<and> \<not> nat_blocks, lines @ nat_lines @ placed,
                if nat_blocks then nat_fix else remediation)))))"

fun judge_actions :: "flow list \<Rightarrow> firewall \<Rightarrow> action list \<Rightarrow> progress \<Rightarrow> progress res" where
  "judge_actions flows fw [] st = Inr st"
| "judge_actions flows fw (a # as) st =
     res_bind (judge_action flows fw a st) (judge_actions flows fw as)"

definition verify_change :: "action list \<Rightarrow> flow list \<Rightarrow> firewall \<Rightarrow> report res" where
  "verify_change actions flows fw =
     (if actions = [] then Inr \<lparr>rp_ok = False, rp_lines = [No_action], rp_remediation = No_remedy\<rparr>
      else if flows = [] then Inr \<lparr>rp_ok = False, rp_lines = [No_flow], rp_remediation = No_remedy\<rparr>
      else res_bind (judge_actions flows fw actions (True, [], No_remedy)) (\<lambda>(ok, lines, remediation).
             Inr \<lparr>rp_ok = ok, rp_lines = lines, rp_remediation = remediation\<rparr>))"

section \<open>Facts: what an accepted change satisfies\<close>

definition carries :: "acl_rule list \<Rightarrow> acl_rule \<Rightarrow> flow \<Rightarrow> bool" where
  "carries base rule f =
     (evaluate_flow (base @ [rule]) (fl_src f) (fl_dst f) (fl_port f) (fl_proto f) =
        (''permit'', Some (length base, rule)))"

text \<open>The contract of one action: it parses, no translation is in play, nothing unmodelled stands at
  or above its line, every flow is permitted with the rule in place, and a rule that carries a flow
  is no wider than the evidence.\<close>

definition action_ok :: "firewall \<Rightarrow> flow list \<Rightarrow> action \<Rightarrow> bool" where
  "action_ok fw flows a =
     (case parse_proposed_acl (act_command a) (act_vendor a) of
        None \<Rightarrow> False
      | Some parsed \<Rightarrow> (case fv_policy fw (act_device a) of
          Inl _ \<Rightarrow> False
        | Inr base \<Rightarrow>
            let rule = fst (place_rule a base parsed)
            in \<not> fst (snd (nat_findings fw (act_device a) flows)) \<and>
               (\<forall>x\<in>set base. ar_action x = ''unparsed'' \<longrightarrow> ar_line rule < ar_line x) \<and>
               (\<forall>f\<in>set flows. verdict (base @ [rule]) f = ''permit'') \<and>
               ((\<exists>f\<in>set flows. carries base rule f) \<longrightarrow> fst (scope_findings rule flows) = [])))"

lemma evaluate_snoc_index:
  "evaluate_flow (base @ [rule]) s d p pr = (a, Some (length base, r)) \<Longrightarrow> r = rule"
  by (simp add: evaluate_flow_Some)

lemma judge_flow_facts:
  "fst (judge_flow base rule st f) \<longleftrightarrow> fst st \<or> carries base rule f"
  "fst (snd (judge_flow base rule st f)) \<longleftrightarrow> fst (snd st) \<and> verdict (base @ [rule]) f = ''permit''"
  by (auto simp: judge_flow_def carries_def verdict_def split: prod.splits dest: evaluate_snoc_index)

lemma judge_flows_facts:
  "fst (foldl (judge_flow base rule) st flows) \<longleftrightarrow> fst st \<or> (\<exists>f\<in>set flows. carries base rule f)"
  "fst (snd (foldl (judge_flow base rule) st flows)) \<longleftrightarrow>
     fst (snd st) \<and> (\<forall>f\<in>set flows. verdict (base @ [rule]) f = ''permit'')"
  by (induction flows arbitrary: st) (auto simp: judge_flow_facts)

lemma evaluate_flow_lowest:
  assumes "evaluate_flow rules s d p pr = (a, Some (i, x))" and "y \<in> set rules" and "rule_matches y s d p pr"
  shows "ar_line x \<le> ar_line y"
proof -
  obtain j where "j < length rules" "y = rules ! j" using assms(2) by (auto simp: in_set_conv_nth)
  moreover have "\<forall>j<length rules. rule_matches (rules ! j) s d p pr \<longrightarrow> j = i \<or> before (i, x) (j, rules ! j)"
    and "x = rules ! i"
    using assms(1) unfolding evaluate_flow_Some by blast+
  ultimately show ?thesis using assms(3) by (auto simp: before_def)
qed

lemma rule_matches_line [simp]: "rule_matches (r\<lparr>ar_line := n\<rparr>) s d p pr = rule_matches r s d p pr"
  by (cases r) (simp only: rule_matches_def acl_rule.select_convs acl_rule.update_convs)

lemma rollback_lines_ok:
  "list_all fst (map (rollback_line base restored) flows) \<longleftrightarrow>
     (\<forall>f\<in>set flows. verdict base f = verdict restored f)"
  by (induction flows) (auto simp: rollback_line_def)

lemma unmodelled_above_Nil:
  "unmodelled_above base n = [] \<longleftrightarrow> (\<forall>x\<in>set base. ar_action x = ''unparsed'' \<longrightarrow> n < ar_line x)"
  by (auto simp: unmodelled_above_def filter_empty_conv)

lemma if_cases_fst: "fst (if c then (False, x) else p) \<longleftrightarrow> \<not> c \<and> fst p"
  by simp

lemma judge_rule_ok:
  "fst (judge_rule flows device base rule st) \<longleftrightarrow> fst st \<and>
     (\<forall>x\<in>set base. ar_action x = ''unparsed'' \<longrightarrow> ar_line rule < ar_line x) \<and>
     (\<forall>f\<in>set flows. verdict (base @ [rule]) f = ''permit'') \<and>
     ((\<exists>f\<in>set flows. carries base rule f) \<longrightarrow> fst (scope_findings rule flows) = [])"
proof -
  define st2 where "st2 = (if unmodelled_above base (ar_line rule) = [] then st
      else (False, fst (snd st) @ [Inconclusive device (ar_line rule)
              (map ar_raw (unmodelled_above base (ar_line rule)))], Review_by_hand))"
  define out where "out = foldl (judge_flow base rule) (False, st2) flows"
  have eq: "judge_rule flows device base rule st =
      (if fst out \<and> fst (scope_findings rule flows) \<noteq> []
       then (False, fst (snd (snd out)) @ fst (scope_findings rule flows), snd (scope_findings rule flows))
       else snd out)"
    unfolding judge_rule_def Let_def case_prod_beta out_def st2_def by (rule refl)
  have m: "fst out \<longleftrightarrow> (\<exists>f\<in>set flows. carries base rule f)"
    and o1: "fst (snd out) \<longleftrightarrow> fst st2 \<and> (\<forall>f\<in>set flows. verdict (base @ [rule]) f = ''permit'')"
    unfolding out_def by (simp_all only: judge_flows_facts fst_conv simp_thms snd_conv)
  have o2: "fst st2 \<longleftrightarrow> fst st \<and>
      (\<forall>x\<in>set base. ar_action x = ''unparsed'' \<longrightarrow> ar_line rule < ar_line x)"
    unfolding unmodelled_above_Nil[symmetric] st2_def by simp
  have "fst (judge_rule flows device base rule st) \<longleftrightarrow>
      \<not> (fst out \<and> fst (scope_findings rule flows) \<noteq> []) \<and> fst (snd out)"
    unfolding eq by (rule if_cases_fst)
  then show ?thesis unfolding m o1 o2 by blast
qed

lemma judge_action_ok:
  assumes "judge_action flows fw a st = Inr st'"
  shows "fst st' \<longleftrightarrow> fst st \<and> action_ok fw flows a"
proof (cases "parse_proposed_acl (act_command a) (act_vendor a)")
  case None
  then show ?thesis using assms by (auto simp: judge_action_def action_ok_def split: prod.splits)
next
  case (Some parsed)
  then obtain base where base: "fv_policy fw (act_device a) = Inr base"
    using assms by (cases "fv_policy fw (act_device a)") (auto simp: judge_action_def split: prod.splits)
  show ?thesis using assms Some base
    by (auto simp: judge_action_def action_ok_def Let_def case_prod_beta judge_rule_ok)
qed

lemma judge_actions_ok:
  "judge_actions flows fw as st = Inr st' \<Longrightarrow>
     fst st' \<longleftrightarrow> fst st \<and> (\<forall>a\<in>set as. action_ok fw flows a)"
proof (induction as arbitrary: st)
  case (Cons a as)
  then obtain st1 where "judge_action flows fw a st = Inr st1" "judge_actions flows fw as st1 = Inr st'"
    by (auto simp: res_bind_Inr)
  from judge_action_ok[OF this(1)] Cons.IH[OF this(2)] show ?case by simp
qed simp

lemma verify_change_iff:
  assumes "verify_change actions flows fw = Inr rep"
  shows "rp_ok rep \<longleftrightarrow> actions \<noteq> [] \<and> flows \<noteq> [] \<and> (\<forall>a\<in>set actions. action_ok fw flows a)"
  using assms judge_actions_ok[of flows fw actions "(True, [], No_remedy)"]
  by (auto simp: verify_change_def res_bind_Inr split: if_splits)

section \<open>Facts: scope\<close>

lemma breadth_one:
  assumes "breadth spec \<le> 1" and "contains spec a"
  shows "ip_address a \<noteq> None"
    and "contains spec b \<Longrightarrow> ip_address a = ip_address b"
proof -
  have na: "\<not> is_any spec" using assms(1) by (auto simp: breadth_def)
  then obtain x n where x: "ip_address a = Some x" and n: "as_network spec = Some n"
    and xn: "in_network x n" using assms(2) by (auto simp: contains_iff)
  have "net_prefix n = 32"
  proof (rule ccontr)
    assume "net_prefix n \<noteq> 32"
    then have le: "net_prefix n < 32" using as_network_prefix[OF n] by simp
    show False
    proof (cases "net_prefix n = 31")
      case True
      then show False using assms(1) na n by (simp add: breadth_def num_addresses_def)
    next
      case False
      then have "(2::int) ^ 2 \<le> 2 ^ (32 - net_prefix n)" using le by (intro power_increasing) auto
      then show False using assms(1) na n le False by (simp add: breadth_def num_addresses_def)
    qed
  qed
  then have one: "int (card {y. in_network y n}) = 1"
    by (simp add: card_as_network[OF n] num_addresses_def)
  show "ip_address a \<noteq> None" using x by simp
  assume "contains spec b"
  then obtain y where y: "ip_address b = Some y" "in_network y n" using na n by (auto simp: contains_iff)
  from one obtain z where "{y. in_network y n} = {z}" by (auto simp: card_1_singleton_iff)
  then have "x = z" "y = z" using xn y(2) by auto
  then show "ip_address a = ip_address b" using x y by simp
qed

lemma evidence_single:
  assumes "xs \<noteq> []" and "\<forall>x\<in>set xs. x = s" and "s \<noteq> []"
  shows "evidence xs = [s]"
proof -
  have "filter (\<lambda>x. x \<noteq> []) xs = xs" using assms by (intro filter_True) auto
  moreover have "remdups xs = [s]" using assms(1,2)
  proof (induction xs)
    case (Cons x xs)
    then show ?case by (cases xs) auto
  qed simp
  ultimately show ?thesis by (simp add: evidence_def)
qed

lemma scope_clear:
  assumes "fst (scope_findings rule flows) = []" and "evidence (map fl_src flows) = [s]"
    and "evidence (map fl_dst flows) = [d]"
  shows "ar_port rule \<noteq> None \<and> breadth (ar_src rule) \<le> 1 \<and> breadth (ar_dst rule) \<le> 1"
proof -
  have port: "ar_port rule \<noteq> None" and le: "breadth (ar_src rule) * breadth (ar_dst rule) \<le> 1"
    using assms by (simp_all add: scope_findings_def Let_def split: if_splits)
  have "breadth (ar_src rule) * 1 \<le> breadth (ar_src rule) * breadth (ar_dst rule)"
    "1 * breadth (ar_dst rule) \<le> breadth (ar_src rule) * breadth (ar_dst rule)"
    using breadth_pos[of "ar_src rule"] breadth_pos[of "ar_dst rule"]
    by (intro mult_left_mono mult_right_mono; simp)+
  with port le show ?thesis by auto
qed

section \<open>Facts: strings of a rollback\<close>

lemma parse_proposed_strip [simp]: "parse_proposed_acl (strip c) v = parse_proposed_acl c v"
  by (simp add: parse_proposed_acl_def)

lemma parse_proposed_nonempty: "parse_proposed_acl c v = Some r \<Longrightarrow> strip c \<noteq> []"
  by (auto simp: parse_proposed_acl_def)

lemma lower_append: "lower (a @ b) = lower a @ lower b"
  by (simp add: lower_def)

lemma strip_no: "s \<noteq> [] \<Longrightarrow> strip s = s \<Longrightarrow> strip (''no '' @ s) = ''no '' @ s"
proof (rule strip_fixed)
  assume "s \<noteq> []" "strip s = s"
  then have "\<not> is_space (last s)" using strip_shape[of s] by simp
  then show "''no '' @ s = [] \<or> \<not> is_space (hd (''no '' @ s)) \<and> \<not> is_space (last (''no '' @ s))"
    using \<open>s \<noteq> []\<close> by (simp add: is_space_def)
qed

lemma removal_of_derived:
  assumes "parse_proposed_acl c v = Some p" and "\<not> starts_with ''no '' (lower (strip c))"
  shows "derive_rollback c = ''no '' @ strip c"
    and "removal_target (derive_rollback c) v = Some p"
proof -
  show d: "derive_rollback c = ''no '' @ strip c" using assms(2) by (simp add: derive_rollback_def)
  have "strip (''no '' @ strip c) = ''no '' @ strip c"
    using parse_proposed_nonempty[OF assms(1)] by (intro strip_no) simp_all
  moreover have "starts_with ''no '' (lower (''no '' @ strip c))"
    by (simp add: lower_def starts_with_def lower_char_def Let_def)
  ultimately show "removal_target (derive_rollback c) v = Some p"
    unfolding d removal_target_def using assms(1) by (simp add: Let_def)
qed

lemma action_ok_iff:
  "action_ok fw flows a \<longleftrightarrow> (\<exists>parsed base rule.
    parse_proposed_acl (act_command a) (act_vendor a) = Some parsed \<and>
    fv_policy fw (act_device a) = Inr base \<and> rule = fst (place_rule a base parsed) \<and>
    \<not> fst (snd (nat_findings fw (act_device a) flows)) \<and>
    (\<forall>x\<in>set base. ar_action x = ''unparsed'' \<longrightarrow> ar_line rule < ar_line x) \<and>
    (\<forall>f\<in>set flows. verdict (base @ [rule]) f = ''permit'') \<and>
    ((\<exists>f\<in>set flows. carries base rule f) \<longrightarrow> fst (scope_findings rule flows) = []))"
  by (cases "parse_proposed_acl (act_command a) (act_vendor a)"; cases "fv_policy fw (act_device a)")
    (simp_all add: action_ok_def Let_def)

section \<open>Properties\<close>

definition demo_rule :: "int \<Rightarrow> string \<Rightarrow> string \<Rightarrow> string \<Rightarrow> acl_rule" where
  "demo_rule n act src rid = \<lparr>ar_line = n, ar_action = act, ar_proto = ''tcp'', ar_src = src,
     ar_dst = ''any'', ar_port = None, ar_id = rid, ar_hits = 0, ar_acl = ''OUT'', ar_raw = rid\<rparr>"

definition demo_fw :: "int \<Rightarrow> firewall" where
  "demo_fw n = \<lparr>fv_policy = (\<lambda>d. if d = ''fw1'' then Inr [demo_rule n ''deny'' ''10.0.0.0/8'' ''r'']
     else Inl KeyError), fv_nat = None\<rparr>"

definition demo_flow :: flow where
  "demo_flow = \<lparr>fl_src = ''10.0.0.5'', fl_dst = ''10.1.0.9'', fl_port = 443, fl_proto = ''tcp''\<rparr>"

definition demo_action :: "int option \<Rightarrow> action" where
  "demo_action pos = \<lparr>act_device = ''fw1'',
     act_command = ''permit tcp host 10.0.0.5 host 10.1.0.9 eq 443'',
     act_vendor = [], act_position = pos\<rparr>"

lemma demo_change: "verify_change [demo_action (Some 10)] [demo_flow] (demo_fw 20) =
    Inr \<lparr>rp_ok = True, rp_lines = [Inserting ''fw1'' 10, Pass_proposal demo_flow], rp_remediation = No_remedy\<rparr>"
  by code_simp

text \<open>C2. The contract of \<open>verify_change\<close>: a report is positive exactly when there is an action and a
  flow, and every action parses, is free of address translation and of unmodelled rules at or above
  its line, lets every flow pass with the rule in place, and (where the rule carries a flow) raises no
  scope finding.\<close>

theorem verify_change_contract:
  assumes "verify_change actions flows fw = Inr rep"
  shows "rp_ok rep \<longleftrightarrow> actions \<noteq> [] \<and> flows \<noteq> [] \<and> (\<forall>a\<in>set actions. \<exists>parsed base rule.
    parse_proposed_acl (act_command a) (act_vendor a) = Some parsed \<and>
    fv_policy fw (act_device a) = Inr base \<and> rule = fst (place_rule a base parsed) \<and>
    \<not> fst (snd (nat_findings fw (act_device a) flows)) \<and>
    (\<forall>x\<in>set base. ar_action x = ''unparsed'' \<longrightarrow> ar_line rule < ar_line x) \<and>
    (\<forall>f\<in>set flows. verdict (base @ [rule]) f = ''permit'') \<and>
    ((\<exists>f\<in>set flows. carries base rule f) \<longrightarrow> fst (scope_findings rule flows) = []))"
  unfolding verify_change_iff[OF assms] action_ok_iff by (rule refl)

lemma verify_change_contract_witness:
  "\<exists>parsed base. parse_proposed_acl (act_command (demo_action (Some 10))) [] = Some parsed \<and>
     fv_policy (demo_fw 20) ''fw1'' = Inr base \<and>
     verdict (base @ [fst (place_rule (demo_action (Some 10)) base parsed)]) demo_flow = ''permit''"
  using verify_change_contract[OF demo_change] by (auto simp: demo_action_def)

text \<open>C10. Soundness of a positive report against the device's first-match semantics: for every action
  and every flow, the matching rule that comes first (by line, then by position) among the current
  policy and the proposed rule is a permit, and no rule the simulator could not model stands at or
  above the proposed rule's line.\<close>

theorem verified_flow_first_match:
  assumes "verify_change actions flows fw = Inr rep" and "rp_ok rep"
    and "a \<in> set actions" and "f \<in> set flows"
  shows "\<exists>parsed base rule i x. parse_proposed_acl (act_command a) (act_vendor a) = Some parsed \<and>
    fv_policy fw (act_device a) = Inr base \<and> rule = fst (place_rule a base parsed) \<and>
    i < length (base @ [rule]) \<and> x = (base @ [rule]) ! i \<and>
    ar_action x = ''permit'' \<and> rule_matches x (fl_src f) (fl_dst f) (fl_port f) (fl_proto f) \<and>
    (\<forall>j<length (base @ [rule]).
       rule_matches ((base @ [rule]) ! j) (fl_src f) (fl_dst f) (fl_port f) (fl_proto f) \<longrightarrow>
       j = i \<or> before (i, x) (j, (base @ [rule]) ! j)) \<and>
    (\<forall>y\<in>set base. ar_action y = ''unparsed'' \<longrightarrow> ar_line rule < ar_line y)"
proof -
  have "action_ok fw flows a" using verify_change_iff[OF assms(1)] assms(2,3) by blast
  then obtain parsed base where p: "parse_proposed_acl (act_command a) (act_vendor a) = Some parsed"
    and b: "fv_policy fw (act_device a) = Inr base"
    and ok: "\<forall>y\<in>set base. ar_action y = ''unparsed'' \<longrightarrow> ar_line (fst (place_rule a base parsed)) < ar_line y"
      "verdict (base @ [fst (place_rule a base parsed)]) f = ''permit''"
    using assms(4) unfolding action_ok_iff by blast
  define rule where "rule = fst (place_rule a base parsed)"
  obtain i x where "evaluate_flow (base @ [rule]) (fl_src f) (fl_dst f) (fl_port f) (fl_proto f) =
      (''permit'', Some (i, x))"
    by (rule evaluate_flow_cases[of "base @ [rule]" "fl_src f" "fl_dst f" "fl_port f" "fl_proto f"])
      (use ok(2) in \<open>auto simp: verdict_def rule_def\<close>)
  then show ?thesis using p b ok(1) unfolding evaluate_flow_Some rule_def by metis
qed

lemma verified_flow_first_match_witness:
  "\<exists>parsed base. parse_proposed_acl (act_command (demo_action (Some 10))) [] = Some parsed \<and>
     fv_policy (demo_fw 20) ''fw1'' = Inr base \<and>
     (\<exists>i x. x = (base @ [fst (place_rule (demo_action (Some 10)) base parsed)]) ! i \<and>
        ar_action x = ''permit'' \<and> rule_matches x ''10.0.0.5'' ''10.1.0.9'' 443 ''tcp'')"
  using verified_flow_first_match[OF demo_change, of "demo_action (Some 10)" demo_flow]
  by (auto simp: demo_action_def demo_flow_def)

text \<open>C11. Least privilege: where all the evidence is one source and one destination and a positive
  report rests on the proposed rule itself, the rule matches no other packet than between these two
  addresses on this port.\<close>

theorem verified_rule_least_privilege:
  assumes "verify_change actions flows fw = Inr rep" and "rp_ok rep" and "a \<in> set actions"
    and "parse_proposed_acl (act_command a) (act_vendor a) = Some parsed"
    and "fv_policy fw (act_device a) = Inr base"
    and "\<forall>f\<in>set flows. fl_src f = s \<and> fl_dst f = d" and "s \<noteq> []" and "d \<noteq> []"
    and "f \<in> set flows" and "carries base (fst (place_rule a base parsed)) f"
    and "rule_matches (fst (place_rule a base parsed)) s' d' port proto"
  shows "ip_address s' = ip_address s \<and> ip_address d' = ip_address d \<and> port = fl_port f"
proof -
  define rule where "rule = fst (place_rule a base parsed)"
  have "action_ok fw flows a" using verify_change_iff[OF assms(1)] assms(2,3) by blast
  then have scope: "fst (scope_findings rule flows) = []"
    using assms(4,5,9,10) unfolding action_ok_iff rule_def by auto
  have ne: "flows \<noteq> []" using assms(9) by auto
  have ev: "evidence (map fl_src flows) = [s]" "evidence (map fl_dst flows) = [d]"
    using assms(6-8) ne by (auto intro!: evidence_single)
  have clear: "ar_port rule \<noteq> None" "breadth (ar_src rule) \<le> 1" "breadth (ar_dst rule) \<le> 1"
    using scope_clear[OF scope ev] by auto
  have "rule_matches rule s d (fl_port f) (fl_proto f)"
    using assms(6,9,10) unfolding carries_def rule_def[symmetric] evaluate_flow_Some by simp
  then have m: "contains (ar_src rule) s" "contains (ar_dst rule) d" "ar_port rule = Some (fl_port f)"
    using clear(1) by (auto simp: rule_matches_def split: if_splits)
  have m': "contains (ar_src rule) s'" "contains (ar_dst rule) d'" "ar_port rule = Some port"
    using assms(11) clear(1) unfolding rule_def[symmetric] by (auto simp: rule_matches_def split: if_splits)
  show ?thesis
    using breadth_one(2)[OF clear(2) m'(1) m(1)] breadth_one(2)[OF clear(3) m'(2) m(2)] m(3) m'(3) by simp
qed

lemma verified_rule_least_privilege_witness:
  "ip_address ''10.0.0.5'' = ip_address ''10.0.0.5'' \<and> ip_address ''10.1.0.9'' = ip_address ''10.1.0.9'' \<and>
     (443 :: int) = fl_port demo_flow"
proof -
  let ?a = "demo_action (Some 10)" and ?base = "[demo_rule 20 ''deny'' ''10.0.0.0/8'' ''r'']"
  let ?p = "the (parse_proposed_acl (act_command ?a) (act_vendor ?a))"
  have p: "parse_proposed_acl (act_command ?a) (act_vendor ?a) = Some ?p" by code_simp
  have b: "fv_policy (demo_fw 20) (act_device ?a) = Inr ?base" by code_simp
  have e: "\<forall>f\<in>set [demo_flow]. fl_src f = ''10.0.0.5'' \<and> fl_dst f = ''10.1.0.9''" by code_simp
  have c: "carries ?base (fst (place_rule ?a ?base ?p)) demo_flow" by code_simp
  have m: "rule_matches (fst (place_rule ?a ?base ?p)) ''10.0.0.5'' ''10.1.0.9'' 443 ''tcp''" by code_simp
  show ?thesis
    by (rule verified_rule_least_privilege[OF demo_change _ _ p b e _ _ _ c m]) simp_all
qed

text \<open>A shadowed proposal is rejected: where the current policy already denies a flow by a rule at or
  above the line of the proposed rule, the report is negative.\<close>

theorem shadowed_change_rejected:
  assumes "verify_change actions flows fw = Inr rep" and "a \<in> set actions" and "f \<in> set flows"
    and "parse_proposed_acl (act_command a) (act_vendor a) = Some parsed"
    and "fv_policy fw (act_device a) = Inr base"
    and "evaluate_flow base (fl_src f) (fl_dst f) (fl_port f) (fl_proto f) = (''deny'', Some (i, x))"
    and "ar_line x \<le> ar_line (fst (place_rule a base parsed))"
  shows "\<not> rp_ok rep"
proof
  assume "rp_ok rep"
  then have "action_ok fw flows a" using verify_change_iff[OF assms(1)] assms(2) by blast
  then have "verdict (base @ [fst (place_rule a base parsed)]) f = ''permit''"
    using assms(3-5) unfolding action_ok_iff by auto
  then show False using evaluate_flow_snoc_shadowed[OF assms(6,7)] by (simp add: verdict_def)
qed

lemma demo_shadowed: "verify_change [demo_action None] [demo_flow] (demo_fw 20) =
    Inr \<lparr>rp_ok = False, rp_lines = [Appending ''fw1'' 30, Fail_denied demo_flow (Some (''r'', 20)) 30],
         rp_remediation = Reposition ''r'' 20 19\<rparr>"
  by code_simp

lemma shadowed_change_rejected_witness:
  "\<not> rp_ok \<lparr>rp_ok = False, rp_lines = [Appending ''fw1'' 30, Fail_denied demo_flow (Some (''r'', 20)) 30],
         rp_remediation = Reposition ''r'' 20 19\<rparr>"
proof -
  let ?a = "demo_action None" and ?base = "[demo_rule 20 ''deny'' ''10.0.0.0/8'' ''r'']"
  let ?p = "the (parse_proposed_acl (act_command ?a) (act_vendor ?a))"
  have p: "parse_proposed_acl (act_command ?a) (act_vendor ?a) = Some ?p" by code_simp
  have b: "fv_policy (demo_fw 20) (act_device ?a) = Inr ?base" by code_simp
  have e: "evaluate_flow ?base (fl_src demo_flow) (fl_dst demo_flow) (fl_port demo_flow) (fl_proto demo_flow) =
      (''deny'', Some (0, hd ?base))" by code_simp
  have l: "ar_line (hd ?base) \<le> ar_line (fst (place_rule ?a ?base ?p))" by code_simp
  show ?thesis by (rule shadowed_change_rejected[OF demo_shadowed _ _ p b e l]) simp_all
qed

text \<open>The remediation for a shadowed permit works when the blocker stands below line 1: proposing the
  same command, which states no line of its own, at the position the report names places the rule
  before every rule that matches the flow, and the flow is carried by the proposal.\<close>

theorem reposition_unblocks:
  assumes "evaluate_flow base (fl_src f) (fl_dst f) (fl_port f) (fl_proto f) = (''deny'', Some (i, x))"
    and "2 \<le> ar_line x" and "ar_line parsed < 0" and "ar_action parsed = ''permit''"
    and "rule_matches parsed (fl_src f) (fl_dst f) (fl_port f) (fl_proto f)"
    and "act_position a = Some (max (ar_line x - 1) 1)"
  shows "carries base (fst (place_rule a base parsed)) f"
proof -
  define rule where "rule = fst (place_rule a base parsed)"
  have rule: "rule = parsed\<lparr>ar_line := ar_line x - 1\<rparr>"
    using assms(2,3,6) by (simp add: rule_def place_rule_def)
  have "\<forall>y\<in>set base. rule_matches y (fl_src f) (fl_dst f) (fl_port f) (fl_proto f) \<longrightarrow>
      ar_line rule < ar_line y"
    using evaluate_flow_lowest[OF assms(1)] by (force simp: rule)
  moreover have "rule_matches rule (fl_src f) (fl_dst f) (fl_port f) (fl_proto f)"
    using assms(5) by (simp add: rule)
  ultimately have "evaluate_flow (base @ [rule]) (fl_src f) (fl_dst f) (fl_port f) (fl_proto f) =
      (ar_action rule, Some (length base, rule))" by (intro evaluate_flow_snoc_first)
  then show ?thesis using assms(4) unfolding carries_def rule_def[symmetric] by (simp add: rule)
qed

lemma reposition_unblocks_witness:
  "carries [demo_rule 20 ''deny'' ''10.0.0.0/8'' ''r'']
     (fst (place_rule (demo_action (Some 19)) [demo_rule 20 ''deny'' ''10.0.0.0/8'' ''r'']
        (the (parse_proposed_acl ''permit tcp host 10.0.0.5 host 10.1.0.9 eq 443'' [])))) demo_flow"
proof (rule reposition_unblocks)
  let ?base = "[demo_rule 20 ''deny'' ''10.0.0.0/8'' ''r'']"
  show "evaluate_flow ?base (fl_src demo_flow) (fl_dst demo_flow) (fl_port demo_flow) (fl_proto demo_flow) =
      (''deny'', Some (0, hd ?base))" by code_simp
qed code_simp+

text \<open>It does not work when the blocker stands at line 1: the position the report names is 1 again, and
  a rule at line 1 is evaluated after the blocker, so the flow stays denied.\<close>

theorem reposition_line_one_still_denied:
  assumes "evaluate_flow base (fl_src f) (fl_dst f) (fl_port f) (fl_proto f) = (''deny'', Some (i, x))"
    and "ar_line x \<le> 1" and "ar_line parsed < 0"
    and "act_position a = Some (max (ar_line x - 1) 1)"
  shows "verdict (base @ [fst (place_rule a base parsed)]) f = ''deny''"
proof -
  have "ar_line x \<le> ar_line (fst (place_rule a base parsed))"
    using assms(2-4) by (simp add: place_rule_def)
  from evaluate_flow_snoc_shadowed[OF assms(1) this] show ?thesis by (simp add: verdict_def)
qed

lemma reposition_line_one_still_denied_witness:
  "verdict ([demo_rule 1 ''deny'' ''10.0.0.0/8'' ''r''] @
     [fst (place_rule (demo_action (Some 1)) [demo_rule 1 ''deny'' ''10.0.0.0/8'' ''r'']
        (the (parse_proposed_acl ''permit tcp host 10.0.0.5 host 10.1.0.9 eq 443'' [])))]) demo_flow = ''deny''"
proof (rule reposition_line_one_still_denied)
  let ?base = "[demo_rule 1 ''deny'' ''10.0.0.0/8'' ''r'']"
  show "evaluate_flow ?base (fl_src demo_flow) (fl_dst demo_flow) (fl_port demo_flow) (fl_proto demo_flow) =
      (''deny'', Some (0, hd ?base))" by code_simp
qed code_simp+

text \<open>C12. A positive rollback report is sound: the proposal parses, and the reversal either removes exactly
  the rule being added or is a rule whose addition gives every flow the verdict it had before.\<close>

theorem verify_rollback_sound:
  assumes "verify_rollback a flows fw rollback = Inr rep" and "rb_ok rep"
  shows "\<exists>p base. parse_proposed_acl (act_command a) (act_vendor a) = Some p \<and>
    fv_policy fw (act_device a) = Inr base \<and>
    ((\<exists>removal. removal_target (rb_command rep) (act_vendor a) = Some removal \<and> same_rule removal p) \<or>
     (\<exists>comp q. removal_target (rb_command rep) (act_vendor a) = None \<and>
        parse_proposed_acl (rb_command rep) (act_vendor a) = Some q \<and> same_rule comp q \<and>
        (\<forall>f\<in>set flows. verdict (base @ [p\<lparr>ar_line := case act_position a of Some n \<Rightarrow> n
            | None \<Rightarrow> next_line base\<rparr>, comp]) f = verdict base f)))"
proof -
  define reversal where "reversal = (if strip rollback \<noteq> [] then strip rollback
      else derive_rollback (act_command a))"
  obtain p where p: "parse_proposed_acl (act_command a) (act_vendor a) = Some p"
    using assms by (cases "parse_proposed_acl (act_command a) (act_vendor a)")
      (auto simp: verify_rollback_def Let_def)
  obtain base where b: "fv_policy fw (act_device a) = Inr base"
    using assms(1) p by (cases "fv_policy fw (act_device a)") (auto simp: verify_rollback_def Let_def)
  note run = assms(1)[unfolded verify_rollback_def Let_def p b reversal_def[symmetric], simplified]
  have cmd: "rb_command rep = reversal"
    using run by (auto split: option.splits if_splits)
  show ?thesis
  proof (cases "removal_target reversal (act_vendor a)")
    case (Some removal)
    then have "same_rule removal p" using run assms(2) by (auto simp: same_rule_def split: if_splits)
    then show ?thesis using p b Some cmd by auto
  next
    case None
    then obtain q where q: "parse_proposed_acl reversal (act_vendor a) = Some q"
      using run assms(2) by (auto split: option.splits)
    define p' where "p' = p\<lparr>ar_line := case act_position a of Some n \<Rightarrow> n | None \<Rightarrow> next_line base\<rparr>"
    define comp where "comp = q\<lparr>ar_line := if ar_line p' > 1 then ar_line p' - 1 else 1\<rparr>"
    have "list_all fst (map (rollback_line base (base @ [p', comp])) flows)"
      using run None q assms(2) by (auto simp: p'_def comp_def)
    then have "\<forall>f\<in>set flows. verdict (base @ [p', comp]) f = verdict base f"
      by (simp add: rollback_lines_ok)
    moreover have "same_rule comp q" by (simp add: comp_def same_rule_def)
    ultimately show ?thesis using p b None q unfolding cmd p'_def by blast
  qed
qed

text \<open>The reversal the program derives itself is always good: where the proposal parses and is not
  itself a removal, and the policy can be read, an absent rollback is accepted, with the command
  \<open>no\<close> and the proposal, and every flow returns to its verdict.\<close>

theorem derived_rollback_verifies:
  assumes "parse_proposed_acl (act_command a) (act_vendor a) = Some p"
    and "\<not> starts_with ''no '' (lower (strip (act_command a)))"
    and "fv_policy fw (act_device a) = Inr base"
  shows "verify_rollback a flows fw [] = Inr \<lparr>rb_ok = True,
    rb_command = ''no '' @ strip (act_command a), rb_source = ''derived'',
    rb_lines = map (\<lambda>f. Rollback_pass f (verdict base f)) flows, rb_remediation = No_remedy\<rparr>"
proof -
  have "list_all fst (map (rollback_line base base) flows)" unfolding rollback_lines_ok by simp
  moreover have "map snd (map (rollback_line base base) flows) = map (\<lambda>f. Rollback_pass f (verdict base f)) flows"
    by (simp add: rollback_line_def)
  moreover have "strip [] = []" by (simp add: strip_def lstrip_def)
  ultimately show ?thesis
    using assms removal_of_derived[OF assms(1,2)]
    by (simp add: verify_rollback_def Let_def same_rule_def)
qed

lemma derived_rollback_verifies_witness:
  "verify_rollback (demo_action (Some 10)) [demo_flow] (demo_fw 20) [] = Inr \<lparr>rb_ok = True,
    rb_command = ''no permit tcp host 10.0.0.5 host 10.1.0.9 eq 443'', rb_source = ''derived'',
    rb_lines = [Rollback_pass demo_flow ''deny''], rb_remediation = No_remedy\<rparr>"
proof -
  let ?a = "demo_action (Some 10)" and ?base = "[demo_rule 20 ''deny'' ''10.0.0.0/8'' ''r'']"
  let ?p = "the (parse_proposed_acl (act_command ?a) (act_vendor ?a))"
  have p: "parse_proposed_acl (act_command ?a) (act_vendor ?a) = Some ?p" by code_simp
  have n: "\<not> starts_with ''no '' (lower (strip (act_command ?a)))" by code_simp
  have b: "fv_policy (demo_fw 20) (act_device ?a) = Inr ?base" by code_simp
  have v: "verdict ?base demo_flow = ''deny''"
    "strip (act_command ?a) = ''permit tcp host 10.0.0.5 host 10.1.0.9 eq 443''" by code_simp+
  show ?thesis using derived_rollback_verifies[OF p n b, of "[demo_flow]"] by (simp add: v)
qed

lemma demo_compensated: "verify_rollback (demo_action (Some 10)) [demo_flow] (demo_fw 20)
    ''deny tcp any any'' = Inr \<lparr>rb_ok = True, rb_command = ''deny tcp any any'', rb_source = ''model'',
    rb_lines = [Rollback_pass demo_flow ''deny''], rb_remediation = No_remedy\<rparr>"
  by code_simp

lemma verify_rollback_sound_witness:
  "\<exists>p base. parse_proposed_acl (act_command (demo_action (Some 10))) [] = Some p \<and>
     fv_policy (demo_fw 20) ''fw1'' = Inr base"
  using verify_rollback_sound[OF demo_compensated] by (auto simp: demo_action_def)

end
