(* ===== verification/Transport.thy ===== *)
theory Transport
  imports Policy
begin

text \<open>
  \<open>app/firewall/ssh.py\<close>: the read-only SSH transport. The library that talks to the device
  (netmiko) is a parameter: a record of what the code calls on it, each a function on the world
  \<open>'w\<close> behind the wire. A failure of any of them is an exception value.
\<close>

section \<open>The wire and the session\<close>

record 'w wire =
  wi_connect :: "'w \<Rightarrow> unit res \<times> 'w"               \<comment> \<open>\<open>_connect()\<close>\<close>
  wi_command :: "string \<Rightarrow> 'w \<Rightarrow> string res \<times> 'w"    \<comment> \<open>\<open>conn.send_command\<close>\<close>
  wi_disconnect :: "'w \<Rightarrow> 'w"                        \<comment> \<open>\<open>conn.disconnect()\<close>, its exceptions swallowed\<close>

record session =
  se_device :: string
  se_conn :: bool                                     \<comment> \<open>\<open>self._conn is not None\<close>\<close>

definition ssh_close :: "'w wire \<Rightarrow> 'a session_scheme \<times> 'w \<Rightarrow> 'a session_scheme \<times> 'w" where
  "ssh_close wi st = (case st of (s, w) \<Rightarrow>
     if se_conn s then (s\<lparr>se_conn := False\<rparr>, wi_disconnect wi w) else (s, w))"

text \<open>One round of the loop of \<open>_send\<close>: the body of the \<open>try\<close>.\<close>

definition ssh_attempt ::
  "'w wire \<Rightarrow> string \<Rightarrow> 'a session_scheme \<times> 'w \<Rightarrow> string res \<times> 'a session_scheme \<times> 'w" where
  "ssh_attempt wi command st = (case st of (s, w) \<Rightarrow>
     (case (if se_conn s then (Inr (), w) else wi_connect wi w) of
        (Inl e, w') \<Rightarrow> (Inl e, s, w')
      | (Inr _, w') \<Rightarrow> (case wi_command wi command w' of
            (r, w'') \<Rightarrow> (r, s\<lparr>se_conn := True\<rparr>, w''))))"

definition is_show :: "string \<Rightarrow> bool" where
  "is_show command = starts_with ''show '' (lower (strip command))"

fun ssh_retry ::
  "nat \<Rightarrow> 'w wire \<Rightarrow> string \<Rightarrow> 'a session_scheme \<times> 'w \<Rightarrow> string res \<times> 'a session_scheme \<times> 'w" where
  "ssh_retry 0 wi command st =
     (Inl (RuntimeError (se_device (fst st) @ '': failed '' @ command)), st)"
| "ssh_retry (Suc n) wi command st =
     (case ssh_attempt wi command st of
        (Inr out, st') \<Rightarrow> (Inr out, st')
      | (Inl (ReadOnlyViolation m), st') \<Rightarrow> (Inl (ReadOnlyViolation m), st')
      | (Inl _, st') \<Rightarrow> ssh_retry n wi command (ssh_close wi st'))"

definition ssh_send ::
  "'w wire \<Rightarrow> string \<Rightarrow> 'a session_scheme \<times> 'w \<Rightarrow> string res \<times> 'a session_scheme \<times> 'w" where
  "ssh_send wi command st =
     (if is_show command then ssh_retry 2 wi command st
      else (Inl (ReadOnlyViolation command), st))"

text \<open>The part of a backend object that every vendor shares: the ACL it is restricted to, if any, and
  the cache of parsed policies by device.\<close>

record cached = session +
  cb_host :: string
  cb_acl :: "string option"
  cb_cache :: "(string \<times> acl_rule list) list"

definition al_drop :: "'k \<Rightarrow> ('k \<times> 'v) list \<Rightarrow> ('k \<times> 'v) list" where
  "al_drop k xs = filter (\<lambda>(k', _). k' \<noteq> k) xs"

lemma map_of_al_drop: "map_of (al_drop k xs) = (map_of xs)(k := None)"
  by (induction xs) (auto simp: al_drop_def fun_eq_iff)

section \<open>Facts\<close>

text \<open>A predicate on the world that every read-only exchange keeps.\<close>

definition wire_keeps :: "'w wire \<Rightarrow> ('w \<Rightarrow> bool) \<Rightarrow> bool" where
  "wire_keeps wi P = ((\<forall>w. P w \<longrightarrow> P (snd (wi_connect wi w)) \<and> P (wi_disconnect wi w)) \<and>
     (\<forall>c w. is_show c \<longrightarrow> P w \<longrightarrow> P (snd (wi_command wi c w))))"

lemma ssh_close_keeps: "wire_keeps wi P \<Longrightarrow> P (snd st) \<Longrightarrow> P (snd (ssh_close wi st))"
  by (auto simp: ssh_close_def wire_keeps_def split: prod.splits)

lemma ssh_attempt_keeps:
  assumes "wire_keeps wi P" and "is_show c" and "P (snd st)"
  shows "P (snd (snd (ssh_attempt wi c st)))"
proof -
  obtain s w where st: "st = (s, w)" by (cases st)
  show ?thesis
  proof (cases "se_conn s")
    case True
    then show ?thesis using assms
      by (auto simp: ssh_attempt_def st wire_keeps_def split: prod.splits) (metis snd_conv)
  next
    case False
    obtain r w' where c: "wi_connect wi w = (r, w')" by (cases "wi_connect wi w")
    then have "P w'" using assms by (metis wire_keeps_def st snd_conv)
    then have "P (snd (wi_command wi c w'))" using assms by (simp add: wire_keeps_def)
    then show ?thesis using False c \<open>P w'\<close>
      by (auto simp: ssh_attempt_def st split: sum.splits prod.splits)
  qed
qed

lemma ssh_retry_keeps:
  "wire_keeps wi P \<Longrightarrow> is_show c \<Longrightarrow> P (snd st) \<Longrightarrow> P (snd (snd (ssh_retry n wi c st)))"
proof (induction n arbitrary: st)
  case (Suc n)
  obtain r st' where a: "ssh_attempt wi c st = (r, st')" by (cases "ssh_attempt wi c st")
  have "P (snd st')" using ssh_attempt_keeps[OF Suc.prems(1,2,3)] a by simp
  moreover from this have "P (snd (ssh_close wi st'))" by (rule ssh_close_keeps[OF Suc.prems(1)])
  ultimately show ?case using a Suc.IH[OF Suc.prems(1,2)]
    by (auto split: sum.splits py_exn.splits)
qed simp

lemma ssh_send_keeps: "wire_keeps wi P \<Longrightarrow> P (snd st) \<Longrightarrow> P (snd (snd (ssh_send wi c st)))"
  by (simp add: ssh_send_def ssh_retry_keeps)

section \<open>Properties\<close>

text \<open>The same wire with a record of the commands that go over it.\<close>

definition logged :: "'w wire \<Rightarrow> ('w \<times> string list) wire" where
  "logged wi = \<lparr>
     wi_connect = (\<lambda>(w, l). let (r, w') = wi_connect wi w in (r, w', l)),
     wi_command = (\<lambda>c (w, l). let (r, w') = wi_command wi c w in (r, w', l @ [c])),
     wi_disconnect = (\<lambda>(w, l). (wi_disconnect wi w, l))\<rparr>"

abbreviation sent :: "'r \<times> 's \<times> 'w \<times> string list \<Rightarrow> string list" where
  "sent out \<equiv> snd (snd (snd out))"

lemma logged_attempt:
  "\<exists>k\<le>1. sent (ssh_attempt (logged wi) c (s, (w, l))) = l @ replicate k c"
  by (cases "se_conn s"; cases "wi_connect wi w"; cases "fst (wi_connect wi w)")
    (auto simp: ssh_attempt_def logged_def split: prod.splits sum.splits
       intro: exI[of _ "0 :: nat"] exI[of _ "1 :: nat"])

lemma logged_close: "snd (snd (ssh_close (logged wi) (s, (w, l)))) = l"
  by (auto simp: ssh_close_def logged_def)

lemma logged_retry:
  "\<exists>k\<le>n. sent (ssh_retry n (logged wi) c (s, (w, l))) = l @ replicate k c"
proof (induction n arbitrary: s w l)
  case (Suc n)
  obtain r s' w' l' where a: "ssh_attempt (logged wi) c (s, (w, l)) = (r, s', w', l')"
    by (cases "ssh_attempt (logged wi) c (s, (w, l))") auto
  obtain k where k: "k \<le> 1" "l' = l @ replicate k c" using logged_attempt[of wi c s w l] a by auto
  obtain s2 w2 where cl: "ssh_close (logged wi) (s', w', l') = (s2, w2, l')"
    using logged_close[of wi s' w' l'] by (cases "ssh_close (logged wi) (s', w', l')") auto
  obtain j where "j \<le> n" "sent (ssh_retry n (logged wi) c (s2, w2, l')) = l' @ replicate j c"
    using Suc.IH by blast
  then have "\<exists>k\<le>Suc n. sent (ssh_retry n (logged wi) c (s2, w2, l')) = l @ replicate k c"
    using k by (intro exI[of _ "k + j"]) (auto simp: replicate_add)
  moreover have "\<exists>k\<le>Suc n. l' = l @ replicate k c" using k by (intro exI[of _ k]) auto
  ultimately show ?case using a cl by (auto split: sum.splits py_exn.splits)
qed simp

text \<open>C33. The read-only guard: whatever command is asked for, and whatever the wire answers, what goes over
  the wire is that command at most twice, and nothing at all unless it is a \<open>show\<close> command.\<close>

theorem ssh_send_read_only:
  "sent (ssh_send (logged wi) c (s, (w, []))) \<in> (if is_show c then {[], [c], [c, c]} else {[]})"
proof -
  obtain k where "k \<le> 2" "sent (ssh_retry 2 (logged wi) c (s, (w, []))) = replicate k c"
    using logged_retry[of 2 wi c s w "[]"] by auto
  then show ?thesis by (auto simp: ssh_send_def le_Suc_eq numeral_2_eq_2)
qed

end
