(* ===== verification/Asa.thy ===== *)
theory Asa
  imports Nat_Detect Transport
begin

text \<open>
  \<open>app/firewall/asa.py\<close>: the parser of \<open>show access-list\<close>, which turns a rule with object
  groups into plain five-tuples and keeps what it cannot understand as an \<open>unparsed\<close> rule, and
  the caching backend over the read-only transport.
\<close>

section \<open>Tokens\<close>

definition acl_line_re :: rx where
  "acl_line_re = rseq [RBol, r_lit_ci ''access-list'', RPlus r_space, RGrp 1 (RPlus r_nonspace),
     RPlus r_space, r_lit_ci ''line'', RPlus r_space, RGrp 2 (RPlus r_digit), RPlus r_space,
     RGrp 3 (RStar r_dot), REol]"

definition hitcnt_re :: rx where
  "hitcnt_re = rseq [r_lit ''('', r_lit_ci ''hitcnt='', RGrp 1 (RPlus r_digit), r_lit '')'']"

definition acl_header_re :: rx where
  "acl_header_re = rseq [RBol, r_lit_ci ''access-list'', RPlus r_space, RPlus r_nonspace, r_lit '';'']"

definition is_hex :: "char \<Rightarrow> bool" where
  "is_hex c = (is_digit c \<or> lower_char c \<in> set ''abcdef'')"

definition hex_re :: rx where
  "hex_re = RSeq (r_lit_ci ''0x'') (RPlus (RSet is_hex))"

definition max_expansion :: nat where "max_expansion = 2048"

record acl_entry =
  en_acl :: string
  en_line :: int
  en_body :: string
  en_raw :: string
  en_expanded :: bool

definition clean_body :: "string \<Rightarrow> string list" where
  "clean_body body = map lower (split_ws (rx_sub hex_re '' '' (rx_sub hitcnt_re '' '' body)))"

section \<open>Endpoints, ports and rules\<close>

definition group_kind :: "string \<Rightarrow> registry \<Rightarrow> registry \<Rightarrow> string option" where
  "group_kind name groups objects =
     (case map_of groups (lower name) of
        Some g \<Rightarrow> Some (og_kind g)
      | None \<Rightarrow> map_option og_kind (map_of objects (lower name)))"

definition expand_named :: "string \<Rightarrow> string \<Rightarrow> registry \<Rightarrow> registry \<Rightarrow> expansion" where
  "expand_named keyword name groups objects =
     (if keyword = ''object-group'' then expand_group name groups objects
      else expand_object name objects)"

definition resolve_endpoint ::
  "string list \<Rightarrow> nat \<Rightarrow> registry \<Rightarrow> registry \<Rightarrow> (string list \<times> nat \<times> bool) res" where
  "resolve_endpoint tokens i groups objects =
     res_bind (py_get tokens i) (\<lambda>keyword.
       if keyword \<in> set [''object-group'', ''object''] then
         (if i + 1 \<ge> length tokens then Inr ([], i + 1, False)
          else let e = expand_named keyword (tokens ! (i + 1)) groups objects
               in if \<not> ex_complete e \<or> ex_networks e = [] then Inr ([], i + 2, False)
                  else Inr (ex_networks e, i + 2, True))
       else if keyword = ''interface'' then Inr ([], i + 1, False)
       else res_bind (parse_endpoint tokens i) (\<lambda>(spec, j). Inr ([spec], j, True)))"

definition resolve_ports ::
  "string list \<Rightarrow> nat \<Rightarrow> registry \<Rightarrow> registry \<Rightarrow> int option list \<times> nat \<times> bool" where
  "resolve_ports tokens i groups objects =
     (if i \<ge> length tokens then ([None], i, True)
      else
        let token = tokens ! i
        in if token = ''eq'' \<and> i + 1 < length tokens then
             (let port = port_value (tokens ! (i + 1)) in ([port], i + 2, port \<noteq> None))
           else if token = ''range'' \<and> i + 2 < length tokens then
             (case expand_range (tokens ! (i + 1)) (tokens ! (i + 2)) of
                None \<Rightarrow> ([None], i + 3, False)
              | Some ps \<Rightarrow> (map Some ps, i + 3, True))
           else if token \<in> set [''object-group'', ''object''] \<and> i + 1 < length tokens then
             (if group_kind (tokens ! (i + 1)) groups objects \<in> set [Some ''service'', Some ''protocol'']
              then let e = expand_named token (tokens ! (i + 1)) groups objects
                   in if \<not> ex_complete e then ([None], i + 2, False)
                      else if ex_ports e \<noteq> [] then (map Some (ex_ports e), i + 2, True)
                      else ([None], i + 2, True)
              else ([None], i, True))
           else ([None], i, True))"

text \<open>The protocols and group ports that follow the action, and the index after them.\<close>

definition resolve_protocols ::
  "string list \<Rightarrow> nat \<Rightarrow> registry \<Rightarrow> registry \<Rightarrow> (string list \<times> int option list \<times> nat) option" where
  "resolve_protocols tokens i groups objects =
     (if tokens ! i \<in> set [''tcp'', ''udp'', ''ip'', ''icmp''] then Some ([tokens ! i], [None], i + 1)
      else if tokens ! i \<in> set [''object-group'', ''object''] \<and> i + 1 < length tokens then
        (if group_kind (tokens ! (i + 1)) groups objects \<notin> set [Some ''service'', Some ''protocol'']
         then None
         else let e = expand_named (tokens ! i) (tokens ! (i + 1)) groups objects
              in if \<not> ex_complete e \<or> ex_protocols e = [] then None
                 else Some (dedup (ex_protocols e),
                            if ex_ports e = [] then [None] else map Some (ex_ports e), i + 2))
      else Some ([''ip''], [None], i))"

text \<open>The \<open>try\<close> block: sources, source ports, destinations, and the index after them.\<close>

definition resolve_pair ::
  "string list \<Rightarrow> nat \<Rightarrow> registry \<Rightarrow> registry
    \<Rightarrow> (string list \<times> int option list \<times> string list \<times> nat) option" where
  "resolve_pair tokens i groups objects =
     (case resolve_endpoint tokens i groups objects of
        Inr (sources, j, True) \<Rightarrow>
          (case resolve_ports tokens j groups objects of
             (source_ports, k, True) \<Rightarrow>
               (case resolve_endpoint tokens k groups objects of
                  Inr (destinations, l, True) \<Rightarrow> Some (sources, source_ports, destinations, l)
                | _ \<Rightarrow> None)
           | _ \<Rightarrow> None)
      | _ \<Rightarrow> None)"

definition known_ports :: "int option list \<Rightarrow> int option list" where
  "known_ports ps = filter (\<lambda>p. p \<noteq> None) ps"

definition choose_ports ::
  "int option list \<Rightarrow> int option list \<Rightarrow> int option list \<Rightarrow> int option list" where
  "choose_ports dest source grp =
     (if known_ports dest \<noteq> [] then known_ports dest
      else if known_ports source \<noteq> [] then known_ports source
      else if known_ports grp \<noteq> [] then known_ports grp
      else [None])"

definition rules_from_tokens ::
  "string list \<Rightarrow> acl_entry \<Rightarrow> string \<Rightarrow> int \<Rightarrow> registry \<Rightarrow> registry \<Rightarrow> acl_rule list option" where
  "rules_from_tokens tokens entry rule_id hits groups objects =
     (case first_index (\<lambda>t. t \<in> set [''permit'', ''deny'']) tokens of
        None \<Rightarrow> None
      | Some ai \<Rightarrow>
          if ai + 1 \<ge> length tokens then None
          else case resolve_protocols tokens (ai + 1) groups objects of
            None \<Rightarrow> None
          | Some (protocols, group_ports, i) \<Rightarrow>
              (case resolve_pair tokens i groups objects of
                 None \<Rightarrow> None
               | Some (sources, source_ports, destinations, j) \<Rightarrow>
                   (case resolve_ports tokens j groups objects of
                      (dest_ports, _, ok) \<Rightarrow>
                        if \<not> ok then None
                        else
                          let ports = choose_ports dest_ports source_ports group_ports
                          in if length protocols * length sources * length destinations * length ports
                                > max_expansion then None
                             else Some [\<lparr>ar_line = en_line entry, ar_action = tokens ! ai, ar_proto = proto,
                                         ar_src = src, ar_dst = dst, ar_port = port, ar_id = rule_id,
                                         ar_hits = hits, ar_acl = en_acl entry,
                                         ar_raw = if en_expanded entry then [] else en_raw entry\<rparr>.
                                        proto \<leftarrow> protocols, src \<leftarrow> sources, dst \<leftarrow> destinations,
                                        port \<leftarrow> ports])))"

section \<open>Parsing \<open>show access-list\<close>\<close>

definition entry_of_line :: "string \<Rightarrow> acl_entry option" where
  "entry_of_line raw_line =
     (let line = strip raw_line
      in if line = [] \<or> rx_match acl_header_re line \<noteq> None
            \<or> starts_with ''access-list cached'' (lower line) then None
         else case rx_match acl_line_re line of
           None \<Rightarrow> None
         | Some m \<Rightarrow>
             if is_substring '' remark '' ('' '' @ lower line @ '' '') then None
             else Some \<lparr>en_acl = group_or [] 1 m, en_line = parse_int (group_or [] 2 m),
                        en_body = group_or [] 3 m, en_raw = line,
                        en_expanded = (raw_line \<noteq> [] \<and> is_space (hd raw_line))\<rparr>)"

definition collect_entries :: "string \<Rightarrow> acl_entry list" where
  "collect_entries output = List.map_filter entry_of_line (split_lines output)"

definition group_entries :: "acl_entry list \<Rightarrow> ((string \<times> int) \<times> acl_entry list) list" where
  "group_entries entries = foldl (\<lambda>g e. al_append (en_acl e, en_line e) e g) [] entries"

definition unparsed_rule :: "string \<Rightarrow> int \<Rightarrow> int \<Rightarrow> string \<Rightarrow> acl_rule" where
  "unparsed_rule acl n hits raw =
     \<lparr>ar_line = n, ar_action = ''unparsed'', ar_proto = ''ip'', ar_src = ''any'', ar_dst = ''any'',
      ar_port = None, ar_id = acl @ ''-'' @ show_int n, ar_hits = hits, ar_acl = acl, ar_raw = raw\<rparr>"

definition rules_of_entry ::
  "registry \<Rightarrow> registry \<Rightarrow> string \<Rightarrow> int \<Rightarrow> acl_entry \<Rightarrow> acl_rule list" where
  "rules_of_entry groups objects acl n entry =
     (let hits = (case rx_search hitcnt_re (en_body entry) of
                    None \<Rightarrow> 0 | Some m \<Rightarrow> parse_int (group_or [] 1 m))
      in case rules_from_tokens (clean_body (en_body entry)) entry (acl @ ''-'' @ show_int n)
                hits groups objects of
           None \<Rightarrow> [unparsed_rule acl n hits (en_raw entry)]
         | Some rs \<Rightarrow> rs)"

definition chosen_entries :: "acl_entry list \<Rightarrow> acl_entry list" where
  "chosen_entries entries =
     (if filter en_expanded entries \<noteq> [] then filter en_expanded entries else entries)"

definition parse_show_access_list :: "string \<Rightarrow> registry \<Rightarrow> registry \<Rightarrow> acl_rule list" where
  "parse_show_access_list output groups objects =
     sort_key ar_line
       (concat (map (\<lambda>((acl, n), entries).
                       concat (map (rules_of_entry groups objects acl n) (chosen_entries entries)))
                    (group_entries (collect_entries output))))"

definition unparsed :: "acl_rule list \<Rightarrow> acl_rule list" where
  "unparsed rules = filter (\<lambda>r. ar_action r = ''unparsed'') rules"

section \<open>Facts: no line is lost\<close>

lemma resolve_endpoint_nonempty:
  "resolve_endpoint tokens i groups objects = Inr (specs, j, True) \<Longrightarrow> specs \<noteq> []"
  by (auto simp: resolve_endpoint_def res_bind_Inr Let_def split: if_splits)

lemma resolve_pair_nonempty:
  assumes "resolve_pair tokens i groups objects = Some (sources, sp, destinations, j)"
  shows "sources \<noteq> [] \<and> destinations \<noteq> []"
  using assms resolve_endpoint_nonempty
  by (auto simp: resolve_pair_def split: sum.splits prod.splits bool.splits)

lemma resolve_protocols_nonempty:
  "resolve_protocols tokens i groups objects = Some (protocols, ps, j) \<Longrightarrow> protocols \<noteq> []"
  by (auto simp: resolve_protocols_def Let_def dedup_def split: if_splits)

lemma choose_ports_nonempty: "choose_ports dest source grp \<noteq> []"
  by (simp add: choose_ports_def)

lemma rules_from_tokens_shape:
  assumes "rules_from_tokens tokens entry rid hits groups objects = Some rs"
  shows "rs \<noteq> [] \<and> (\<forall>r\<in>set rs. ar_acl r = en_acl entry \<and> ar_line r = en_line entry \<and>
           (ar_action r = ''permit'' \<or> ar_action r = ''deny''))"
proof -
  obtain ai where ai: "first_index (\<lambda>t. t \<in> set [''permit'', ''deny'']) tokens = Some ai"
    using assms by (auto simp: rules_from_tokens_def split: option.splits)
  then have act: "tokens ! ai = ''permit'' \<or> tokens ! ai = ''deny''" by (simp add: first_index_Some)
  obtain protocols gp i sources sp destinations j ports where
    p: "resolve_protocols tokens (ai + 1) groups objects = Some (protocols, gp, i)"
    and q: "resolve_pair tokens i groups objects = Some (sources, sp, destinations, j)"
    and ports: "ports = choose_ports (fst (resolve_ports tokens j groups objects)) sp gp"
    and rs: "rs = [\<lparr>ar_line = en_line entry, ar_action = tokens ! ai, ar_proto = proto,
                     ar_src = src, ar_dst = dst, ar_port = port, ar_id = rid,
                     ar_hits = hits, ar_acl = en_acl entry,
                     ar_raw = if en_expanded entry then [] else en_raw entry\<rparr>.
                    proto \<leftarrow> protocols, src \<leftarrow> sources, dst \<leftarrow> destinations, port \<leftarrow> ports]"
    using assms ai
    by (simp add: rules_from_tokens_def Let_def split: option.splits prod.splits if_splits)
  have "protocols \<noteq> []" "sources \<noteq> []" "destinations \<noteq> []" "ports \<noteq> []"
    using resolve_protocols_nonempty[OF p] resolve_pair_nonempty[OF q]
    by (simp_all add: ports choose_ports_nonempty)
  then show ?thesis using act
    by (cases protocols; cases sources; cases destinations; cases ports) (auto simp: rs)
qed

lemma rules_of_entry_shape:
  assumes "en_acl entry = acl" and "en_line entry = n"
  shows "rules_of_entry groups objects acl n entry \<noteq> [] \<and>
     (\<forall>r\<in>set (rules_of_entry groups objects acl n entry). ar_acl r = acl \<and> ar_line r = n)"
  using assms rules_from_tokens_shape[of "clean_body (en_body entry)" entry "acl @ ''-'' @ show_int n"]
  by (auto simp: rules_of_entry_def Let_def unparsed_rule_def split: option.splits)

lemma al_append_keyed:
  "\<forall>(k, vs)\<in>set xs. vs \<noteq> [] \<and> (\<forall>v\<in>set vs. f v = k) \<Longrightarrow> f v = k \<Longrightarrow>
     \<forall>(k, vs)\<in>set (al_append k v xs). vs \<noteq> [] \<and> (\<forall>v\<in>set vs. f v = k)"
  by (induction k v xs rule: al_append.induct) auto

lemma al_append_member:
  "(\<exists>vs. (k', vs) \<in> set (al_append k v xs)) \<longleftrightarrow> k' = k \<or> (\<exists>vs. (k', vs) \<in> set xs)"
  by (induction k v xs rule: al_append.induct) auto

lemma group_fold_keyed:
  "\<forall>(k, vs)\<in>set g. vs \<noteq> [] \<and> (\<forall>v\<in>set vs. (en_acl v, en_line v) = k) \<Longrightarrow>
   \<forall>(k, vs)\<in>set (foldl (\<lambda>g e. al_append (en_acl e, en_line e) e g) g entries).
      vs \<noteq> [] \<and> (\<forall>v\<in>set vs. (en_acl v, en_line v) = k)"
proof (induction entries arbitrary: g)
  case (Cons e es)
  show ?case
    using Cons.IH[OF al_append_keyed[of g "\<lambda>v. (en_acl v, en_line v)" e "(en_acl e, en_line e)"]]
      Cons.prems by simp
qed simp

lemma group_fold_member:
  "(\<exists>vs. (k, vs) \<in> set (foldl (\<lambda>g e. al_append (en_acl e, en_line e) e g) g entries)) \<longleftrightarrow>
     k \<in> (\<lambda>e. (en_acl e, en_line e)) ` set entries \<or> (\<exists>vs. (k, vs) \<in> set g)"
  by (induction entries arbitrary: g) (auto simp: al_append_member)

lemma group_entries_keyed:
  "(k, vs) \<in> set (group_entries entries) \<Longrightarrow> vs \<noteq> [] \<and> (\<forall>v\<in>set vs. (en_acl v, en_line v) = k)"
  unfolding group_entries_def using group_fold_keyed[of "[]" entries] by fastforce

lemma group_entries_member:
  "e \<in> set entries \<Longrightarrow> \<exists>vs. ((en_acl e, en_line e), vs) \<in> set (group_entries entries)"
  unfolding group_entries_def group_fold_member by blast

lemma chosen_subset: "entries \<noteq> [] \<Longrightarrow> chosen_entries entries \<noteq> [] \<and> set (chosen_entries entries) \<subseteq> set entries"
  by (auto simp: chosen_entries_def)

lemma parse_keeps_entry:
  assumes "e \<in> set (collect_entries output)"
  shows "\<exists>r\<in>set (parse_show_access_list output groups objects).
    ar_acl r = en_acl e \<and> ar_line r = en_line e"
proof -
  obtain vs where vs: "((en_acl e, en_line e), vs) \<in> set (group_entries (collect_entries output))"
    using group_entries_member[OF assms] by blast
  note k = group_entries_keyed[OF vs]
  then obtain x where x: "x \<in> set (chosen_entries vs)" "en_acl x = en_acl e" "en_line x = en_line e"
    using chosen_subset[of vs] by (cases "chosen_entries vs") auto
  from rules_of_entry_shape[OF x(2,3), of groups objects]
  obtain r where "r \<in> set (rules_of_entry groups objects (en_acl e) (en_line e) x)"
    "ar_acl r = en_acl e" "ar_line r = en_line e"
    by (cases "rules_of_entry groups objects (en_acl e) (en_line e) x") auto
  then show ?thesis using vs x(1) unfolding parse_show_access_list_def by fastforce
qed

section \<open>The backend\<close>

record asa = cached +
  asa_nat :: "nat_rule list option"
  asa_defs :: "(registry \<times> registry) option"

definition parsed_or_empty :: "(string \<Rightarrow> registry) \<Rightarrow> string res \<Rightarrow> registry" where
  "parsed_or_empty f r = (case r of Inl _ \<Rightarrow> [] | Inr out \<Rightarrow> f out)"

definition asa_definitions :: "'w wire \<Rightarrow> asa \<times> 'w \<Rightarrow> (registry \<times> registry) \<times> asa \<times> 'w" where
  "asa_definitions wi st =
     (case asa_defs (fst st) of
        Some d \<Rightarrow> (d, st)
      | None \<Rightarrow>
          let (r1, st1) = ssh_send wi ''show object-group'' st;
              (r2, s2, w2) = ssh_send wi ''show running-config object'' st1;
              d = (parsed_or_empty parse_show_object_groups r1, parsed_or_empty parse_show_objects r2)
          in (d, s2\<lparr>asa_defs := Some d\<rparr>, w2))"

definition asa_refresh :: "string \<Rightarrow> asa \<times> 'w \<Rightarrow> asa \<times> 'w" where
  "asa_refresh d st = ((fst st)\<lparr>cb_cache := al_drop d (cb_cache (fst st)), asa_defs := None\<rparr>, snd st)"

definition acl_command :: "string \<Rightarrow> string option \<Rightarrow> string" where
  "acl_command base acl =
     (case acl of None \<Rightarrow> base | Some n \<Rightarrow> if n = [] then base else base @ '' '' @ n)"

text \<open>The reading part of \<open>_policy_result\<close>: the object definitions are only read if some line does
  not parse without them.\<close>

definition asa_fetch :: "'w wire \<Rightarrow> asa \<times> 'w \<Rightarrow> acl_rule list res \<times> asa \<times> 'w" where
  "asa_fetch wi st =
     (case ssh_send wi (acl_command ''show access-list'' (cb_acl (fst st))) st of
        (Inl e, st1) \<Rightarrow> (Inl e, st1)
      | (Inr out, st1) \<Rightarrow>
          let first = parse_show_access_list out [] []
          in if unparsed first = [] then (Inr first, st1)
             else let ((groups, objects), st2) = asa_definitions wi st1
                  in (Inr (if groups \<noteq> [] \<or> objects \<noteq> []
                           then parse_show_access_list out groups objects else first), st2))"

text \<open>\<open>_policy_result(device_id)\<close>, whose argument \<open>refresh\<close> no caller sets, and \<open>acl_policy\<close>.\<close>

definition asa_policy :: "'w wire \<Rightarrow> string \<Rightarrow> asa \<times> 'w \<Rightarrow> acl_rule list res \<times> asa \<times> 'w" where
  "asa_policy wi d st =
     (case map_of (cb_cache (fst st)) d of
        Some rules \<Rightarrow> (Inr rules, st)
      | None \<Rightarrow>
          (case asa_fetch wi st of
             (Inl e, st1) \<Rightarrow> (Inl e, st1)
           | (Inr rules, s1, w1) \<Rightarrow>
               (Inr rules, s1\<lparr>cb_cache := al_put d rules (cb_cache s1)\<rparr>, w1)))"

definition nat_unread :: nat_assessment where
  "nat_unread = \<lparr>na_translated = [], na_unresolved = [''NAT policy could not be read from the device'']\<rparr>"

definition asa_nat_assessment ::
  "'w wire \<Rightarrow> string list \<Rightarrow> asa \<times> 'w \<Rightarrow> nat_assessment \<times> asa \<times> 'w" where
  "asa_nat_assessment wi addresses st =
     (let assess = (\<lambda>rules st1.
            let ((_, objects), st2) = (if rules \<noteq> [] then asa_definitions wi st1 else (([], []), st1))
            in (assess_flow rules addresses objects, st2))
      in case asa_nat (fst st) of
           Some rules \<Rightarrow> assess rules st
         | None \<Rightarrow>
             (case ssh_send wi ''show nat'' st of
                (Inl _, s1, w1) \<Rightarrow> (nat_unread, s1\<lparr>asa_nat := Some []\<rparr>, w1)
              | (Inr out, s1, w1) \<Rightarrow>
                  assess (parse_show_nat out) (s1\<lparr>asa_nat := Some (parse_show_nat out)\<rparr>, w1)))"

text \<open>\<open>denied_flows\<close> and \<open>acl_hits\<close>, on the policy.\<close>

record flow_query =
  q_source_device :: string
  q_source_ip :: string
  q_target_device :: string
  q_target_ip :: string
  q_port :: int
  q_proto :: string

definition asa_describe :: "asa \<Rightarrow> string" where
  "asa_describe s = ''cisco-asa '' @ cb_host s @ '' (read-only)''"

definition denied_row :: "string \<Rightarrow> flow_query \<Rightarrow> (nat \<times> acl_rule) option \<Rightarrow> json" where
  "denied_row source q hit = JObj
     [(''src'', JStr (q_source_ip q)), (''src_device'', JStr (q_source_device q)),
      (''dst'', JStr (q_target_ip q)), (''dst_device'', JStr (q_target_device q)),
      (''port'', JInt (q_port q)), (''proto'', JStr (q_proto q)), (''action'', JStr ''deny''),
      (''rule_id'', JStr (case hit of Some (_, r) \<Rightarrow> ar_id r | None \<Rightarrow> ''implicit-deny'')),
      (''hits'', JInt (case hit of Some (_, r) \<Rightarrow> ar_hits r | None \<Rightarrow> 0)),
      (''source'', JStr source)]"

definition asa_denied_rows :: "string \<Rightarrow> acl_rule list \<Rightarrow> flow_query \<Rightarrow> json list" where
  "asa_denied_rows source rules q =
     (case evaluate_flow rules (q_source_ip q) (q_target_ip q) (q_port q) (q_proto q) of
        (result, hit) \<Rightarrow> if result \<noteq> ''deny'' then [] else [denied_row source q hit])"

definition asa_denied_flows :: "'w wire \<Rightarrow> flow_query \<Rightarrow> asa \<times> 'w \<Rightarrow> json list res \<times> asa \<times> 'w" where
  "asa_denied_flows wi q st =
     (case asa_policy wi (se_device (fst st)) st of
        (Inl e, st1) \<Rightarrow> (Inl e, st1)
      | (Inr rules, st1) \<Rightarrow> (Inr (asa_denied_rows (asa_describe (fst st1)) rules q), st1))"

definition hit_row :: "string \<Rightarrow> string \<times> acl_rule list \<Rightarrow> int \<times> string \<times> json" where
  "hit_row device entry = (case entry of (rid, rules) \<Rightarrow>
     (let head = hd rules; many = length rules > 1;
          count = (\<lambda>xs. show_int (int (length (remdups xs))) @ '' networks'')
      in (ar_line head, rid, JObj
           [(''device'', JStr device), (''rule_id'', JStr rid), (''acl'', JStr (ar_acl head)),
            (''line'', JInt (ar_line head)), (''action'', JStr (ar_action head)),
            (''proto'', JStr (ar_proto head)),
            (''src'', JStr (if many then count (map ar_src rules) else ar_src head)),
            (''dst'', JStr (if many then count (map ar_dst rules) else ar_dst head)),
            (''port'', j_opt_int (ar_port head)),
            (''hits'', JInt (max_default 0 (map ar_hits rules)))])))"

definition asa_hit_rows :: "string \<Rightarrow> string option \<Rightarrow> acl_rule list \<Rightarrow> json list" where
  "asa_hit_rows device rule_id rules =
     (let by_rule = foldl (\<lambda>g r. if ar_action r \<in> set [''permit'', ''deny'']
                                 then al_append (ar_id r) r g else g) [] rules;
          rows = map (hit_row device) by_rule;
          rows = (case rule_id of
                    None \<Rightarrow> rows
                  | Some rid \<Rightarrow> if rid = [] then rows else filter (\<lambda>row. fst (snd row) = rid) rows)
      in map (\<lambda>row. snd (snd row)) (sort_key fst rows))"

definition asa_acl_hits ::
  "'w wire \<Rightarrow> string \<Rightarrow> string option \<Rightarrow> asa \<times> 'w \<Rightarrow> json list res \<times> asa \<times> 'w" where
  "asa_acl_hits wi device rule_id st =
     (case asa_policy wi device st of
        (Inl e, st1) \<Rightarrow> (Inl e, st1)
      | (Inr rules, st1) \<Rightarrow> (Inr (asa_hit_rows device rule_id rules), st1))"

section \<open>Properties\<close>

text \<open>No line is lost: every entry of the device's listing, understood or not, yields at least one rule
  of the parsed policy with its list and its line, so a policy that is only partly understood is
  never shorter than the device's.\<close>

theorem asa_no_line_lost:
  assumes "raw \<in> set (split_lines output)" and "entry_of_line raw = Some e"
  shows "\<exists>r\<in>set (parse_show_access_list output groups objects).
    ar_acl r = en_acl e \<and> ar_line r = en_line e"
proof -
  have "e \<in> set (collect_entries output)"
    using assms by (force simp: collect_entries_def map_filter_def)
  then show ?thesis by (rule parse_keeps_entry)
qed

lemma asa_no_line_lost_witness:
  "\<exists>r\<in>set (parse_show_access_list ''access-list OUT line 7 extended permit gre any any'' [] []).
     ar_acl r = ''OUT'' \<and> ar_line r = 7"
proof -
  let ?raw = "''access-list OUT line 7 extended permit gre any any''"
  let ?e = "\<lparr>en_acl = ''OUT'', en_line = 7, en_body = ''extended permit gre any any'', en_raw = ?raw,
      en_expanded = False\<rparr>"
  have m: "?raw \<in> set (split_lines ?raw)" by code_simp
  have e: "entry_of_line ?raw = Some ?e" by code_simp
  show ?thesis using asa_no_line_lost[OF m e] by simp
qed

text \<open>A failed NAT read is reported once and then forgotten: the first assessment says that the NAT
  policy could not be read, and the next one on the same backend says nothing is translated, without
  asking the device again.\<close>

theorem asa_nat_failure_forgotten:
  assumes "asa_nat s = None" and "fst (ssh_send wi ''show nat'' (s, w)) = Inl e"
    and "asa_nat_assessment wi addresses (s, w) = (first, st)"
  shows "first = nat_unread \<and> asa_nat_assessment wi addresses st = (no_assessment, st)"
proof -
  obtain s1 w1 where "ssh_send wi ''show nat'' (s, w) = (Inl e, s1, w1)"
    using assms(2) by (cases "ssh_send wi ''show nat'' (s, w)") auto
  then have "first = nat_unread" "st = (s1\<lparr>asa_nat := Some []\<rparr>, w1)"
    using assms(1,3) by (simp_all add: asa_nat_assessment_def)
  then show ?thesis by (simp add: asa_nat_assessment_def assess_flow_def no_assessment_def)
qed

definition dead_wire :: "unit wire" where
  "dead_wire = \<lparr>wi_connect = (\<lambda>w. (Inl (RuntimeError ''timeout''), w)),
     wi_command = (\<lambda>c w. (Inl (RuntimeError ''closed''), w)), wi_disconnect = (\<lambda>w. w)\<rparr>"

definition fresh_asa :: asa where
  "fresh_asa = \<lparr>se_device = ''FW_Edge'', se_conn = False, cb_host = ''192.0.2.1'', cb_acl = None,
     cb_cache = [], asa_nat = None, asa_defs = None\<rparr>"

lemma asa_nat_failure_forgotten_witness:
  "asa_nat_assessment dead_wire [''10.0.0.5''] (fresh_asa\<lparr>asa_nat := Some []\<rparr>, ()) =
     (no_assessment, fresh_asa\<lparr>asa_nat := Some []\<rparr>, ())"
proof -
  have n: "asa_nat fresh_asa = None" by (simp add: fresh_asa_def)
  have f: "fst (ssh_send dead_wire ''show nat'' (fresh_asa, ())) =
      Inl (RuntimeError ''FW_Edge: failed show nat'')" by code_simp
  have a: "asa_nat_assessment dead_wire [''10.0.0.5''] (fresh_asa, ()) =
      (nat_unread, fresh_asa\<lparr>asa_nat := Some []\<rparr>, ())" by code_simp
  show ?thesis using asa_nat_failure_forgotten[OF n f a] by simp
qed

end
