(* ===== verification/Vendors.thy ===== *)
theory Vendors
  imports Asa
begin

unbundle bit_operations_syntax

text \<open>
  \<open>app/firewall/ios.py\<close>, \<open>eos.py\<close> and \<open>srlinux.py\<close>: the parsers of the other three vendors and
  their caching backends, which share the transport and the rule model with the ASA.
\<close>

section \<open>Cisco IOS\<close>

definition ios_header_re :: rx where
  "ios_header_re = rseq [RBol, RAlt
     (rseq [RGrp 1 (ralt [r_lit_ci ''standard'', r_lit_ci ''extended'']), RPlus r_space, r_lit_ci ''ip'',
            RPlus r_space, r_lit_ci ''access'', RPlus r_space, r_lit_ci ''list'', RPlus r_space,
            RGrp 2 (RPlus r_nonspace)])
     (rseq [r_lit_ci ''ip'', RPlus r_space, r_lit_ci ''access'', RPlus r_space, r_lit_ci ''list'',
            RPlus r_space, RGrp 3 (ralt [r_lit_ci ''standard'', r_lit_ci ''extended'']), RPlus r_space,
            RGrp 4 (RPlus r_nonspace)]), RStar r_space, REol]"

definition ios_matches_re :: rx where
  "ios_matches_re = rseq [r_lit ''('', RGrp 1 (RPlus r_digit), RPlus r_space, r_lit_ci ''match'',
     ROpt (r_lit_ci ''es''), r_lit '')'']"

definition ios_seq_re :: rx where
  "ios_seq_re = rseq [RBol, RGrp 1 (RPlus r_digit), RPlus r_space, RGrp 2 (RStar r_dot), REol]"

definition port_ops :: "string list" where
  "port_ops = [''eq'', ''range'', ''gt'', ''lt'', ''neq'']"

definition wildcard_to_prefix :: "string \<Rightarrow> string \<Rightarrow> string option" where
  "wildcard_to_prefix address wildcard =
     (case (ip_address address, ip_address wildcard) of
        (Some host, Some bits) \<Rightarrow>
          if (uint bits + 1) AND uint bits \<noteq> 0 then None
          else Some (show_ip host @ ''/'' @ show_ip (NOT bits))
      | _ \<Rightarrow> None)"

definition ios_endpoint :: "string list \<Rightarrow> nat \<Rightarrow> (string option \<times> nat) res" where
  "ios_endpoint tokens i =
     res_bind (py_get tokens i) (\<lambda>token.
       if token = ''any'' then Inr (Some ''any'', i + 1)
       else if token = ''host'' then res_bind (py_get tokens (i + 1)) (\<lambda>h. Inr (Some h, i + 2))
       else if token \<in> set [''object-group'', ''addrgroup''] then Inr (None, i + 2)
       else case (if i + 1 < length tokens then wildcard_to_prefix token (tokens ! (i + 1)) else None) of
              Some spec \<Rightarrow> Inr (Some spec, i + 2)
            | None \<Rightarrow> if ip_address token = None then Inr (None, i + 1) else Inr (Some token, i + 1))"

text \<open>\<open>_port\<close>: (port, next index, modelled).\<close>

definition ios_port :: "string list \<Rightarrow> nat \<Rightarrow> int option \<times> nat \<times> bool" where
  "ios_port tokens i =
     (if i \<ge> length tokens \<or> tokens ! i \<notin> set port_ops then (None, i, True)
      else if tokens ! i = ''eq'' \<and> i + 1 < length tokens
      then (port_value (tokens ! (i + 1)), i + 2, True)
      else (None, i + 2, False))"

definition strip_trailing :: "string list \<Rightarrow> string list" where
  "strip_trailing tokens = takeWhile (\<lambda>t. t \<notin>
     set [''log'', ''log-input'', ''established'', ''fragments'', ''time-range'']) tokens"

definition ios_unparsed :: "string \<Rightarrow> int \<Rightarrow> string \<Rightarrow> acl_rule" where
  "ios_unparsed acl n raw = \<lparr>ar_line = n, ar_action = ''unparsed'', ar_proto = [], ar_src = [], ar_dst = [],
     ar_port = None, ar_id = acl @ ''-'' @ show_int n, ar_hits = 0, ar_acl = acl, ar_raw = raw\<rparr>"

text \<open>The five-tuple of an extended entry: (proto, src, dst, port), \<open>None\<close> where it is not modelled.\<close>

definition ios_extended :: "string list \<Rightarrow> (string \<times> string \<times> string \<times> int option) option" where
  "ios_extended tokens =
     (case ios_endpoint tokens 2 of
        Inr (Some src, i) \<Rightarrow> (case ios_port tokens i of (_, j, src_ok) \<Rightarrow>
          (case ios_endpoint tokens j of
             Inr (Some dst, k) \<Rightarrow> (case ios_port tokens k of (port, _, dst_ok) \<Rightarrow>
               if \<not> src_ok \<or> \<not> dst_ok then None else Some (tokens ! 1, src, dst, port))
           | _ \<Rightarrow> None))
      | _ \<Rightarrow> None)"

definition ios_rule_from_entry :: "string \<Rightarrow> string \<Rightarrow> int \<Rightarrow> int \<Rightarrow> bool \<Rightarrow> acl_rule res" where
  "ios_rule_from_entry body acl n hits extended =
     (let tokens = strip_trailing (split_ws (replace_char (CHR '','') (CHR '' '') body));
          rule = (\<lambda>proto src dst port. \<lparr>ar_line = n, ar_action = hd tokens, ar_proto = proto,
             ar_src = src, ar_dst = dst, ar_port = port, ar_id = acl @ ''-'' @ show_int n,
             ar_hits = hits, ar_acl = acl, ar_raw = body\<rparr>)
      in if tokens = [] \<or> hd tokens \<notin> set [''permit'', ''deny''] then Inr (ios_unparsed acl n body)
         else if \<not> extended then
           (let cleaned = filter (\<lambda>t. t \<notin> set [''wildcard'', ''bits'']) (tl tokens)
            in if cleaned = [] then Inr (ios_unparsed acl n body)
               else res_bind (ios_endpoint cleaned 0) (\<lambda>(source, _). Inr (case source of
                      None \<Rightarrow> ios_unparsed acl n body
                    | Some src \<Rightarrow> rule ''ip'' src ''any'' None)))
         else if length tokens < 4 then Inr (ios_unparsed acl n body)
         else Inr (case ios_extended tokens of
                None \<Rightarrow> ios_unparsed acl n body
              | Some (proto, src, dst, port) \<Rightarrow> rule proto src dst port))"

text \<open>The loop state: (acl, extended, fallback line, rules).\<close>

definition ios_line :: "string \<times> bool \<times> int \<times> acl_rule list \<Rightarrow> string
    \<Rightarrow> (string \<times> bool \<times> int \<times> acl_rule list) res" where
  "ios_line st raw_line = (case st of (acl, extended, fallback, rules) \<Rightarrow>
     (let line = strip raw_line
      in if line = [] then Inr st
         else case rx_match ios_header_re line of
           Some m \<Rightarrow>
             (let kind = (case group 1 m of Some k \<Rightarrow> k | None \<Rightarrow> group_or ''extended'' 3 m)
              in Inr (case group 2 m of Some n \<Rightarrow> n | None \<Rightarrow> group_or [] 4 m,
                      lower kind = ''extended'', 0, rules))
         | None \<Rightarrow>
             if acl = [] \<or> starts_with ''remark'' (lower line) then Inr st
             else
               let hits = (case rx_search ios_matches_re line of
                             None \<Rightarrow> 0 | Some m \<Rightarrow> parse_int (group_or [] 1 m));
                   body = strip (rx_sub ios_matches_re [] line);
                   (number, body, fallback) = (case rx_match ios_seq_re body of
                       Some m \<Rightarrow> (parse_int (group_or [] 1 m), strip (group_or [] 2 m), fallback)
                     | None \<Rightarrow> (fallback + 10, body, fallback + 10))
               in res_bind (ios_rule_from_entry body acl number hits extended) (\<lambda>r.
                    Inr (acl, extended, fallback, rules @ [r]))))"

definition ios_parse_access_lists :: "string \<Rightarrow> acl_rule list res" where
  "ios_parse_access_lists output =
     res_bind (fold_res ios_line ([], True, 0, []) (split_lines output)) (\<lambda>(_, _, _, rules).
       Inr (sort_key ar_line rules))"

definition nat_translation_re :: rx where
  "nat_translation_re = rseq [RBol, RPlus r_nonspace, RPlus r_space, RGrp 1 (RPlus r_nonspace),
     RPlus r_space, RGrp 2 (RPlus r_nonspace), RPlus r_space]"

definition nat_pair :: "string \<Rightarrow> (string \<times> string) option" where
  "nat_pair raw_line =
     (let line = strip raw_line
      in if line = [] \<or> starts_with ''pro '' (lower line) then None
         else case rx_match nat_translation_re line of
           None \<Rightarrow> None
         | Some m \<Rightarrow>
             let globally = hd (split_on (CHR '':'') (group_or [] 1 m));
                 locally = hd (split_on (CHR '':'') (group_or [] 2 m))
             in if globally = ''---'' \<or> locally = ''---'' then None
                else if globally \<noteq> locally then Some (globally, locally) else None)"

definition parse_nat_translations :: "string \<Rightarrow> (string \<times> string) list" where
  "parse_nat_translations output = List.map_filter nat_pair (split_lines output)"

section \<open>Arista EOS\<close>

definition eos_header_re :: rx where
  "eos_header_re = rseq [RBol, ROpt (r_lit_ci ''ipv6 ''), r_lit_ci ''ip access list '',
     RGrp 1 (RPlus r_nonspace)]"

definition eos_entry_re :: rx where
  "eos_entry_re = rseq [RBol, RStar r_space, RGrp 1 (RPlus r_digit), RPlus r_space,
     RGrp 2 (ralt [r_lit_ci ''permit'', r_lit_ci ''deny'']), RPlus r_space, RGrp 3 (RPlusLazy r_dot),
     ROpt (rseq [RStar r_space, r_lit_ci ''[match'', ROpt (r_lit_ci ''es''), RPlus r_space,
                 RGrp 4 (RPlus r_digit), RLazy r_dot, r_lit '']'']),
     RStar r_space, REol]"

definition eos_counter_re :: rx where
  "eos_counter_re = rseq [RStar r_space, r_lit ''['', RLazy r_dot, r_lit '']'', RStar r_space, REol]"

definition eos_endpoint :: "string list \<Rightarrow> nat \<Rightarrow> (string option \<times> nat) res" where
  "eos_endpoint tokens i =
     res_bind (py_get tokens i) (\<lambda>token.
       if CHR ''/'' \<in> set token
       then Inr (if ip_network token = None then None else Some token, i + 1)
       else ios_endpoint tokens i)"

definition unmodelled :: "int \<Rightarrow> string \<Rightarrow> string \<Rightarrow> acl_rule" where
  "unmodelled n proto raw = \<lparr>ar_line = n, ar_action = ''unparsed'', ar_proto = proto, ar_src = [],
     ar_dst = [], ar_port = None, ar_id = ''proposed'', ar_hits = 0, ar_acl = [], ar_raw = raw\<rparr>"

text \<open>The \<open>try\<close> block of \<open>_rule\<close>: source, source port, destination, destination port, whether the
  ports are modelled, and the index after them.\<close>

definition eos_tuple :: "string list \<Rightarrow>
    (string option \<times> int option \<times> string option \<times> int option \<times> bool \<times> nat) res" where
  "eos_tuple tokens =
     res_bind (eos_endpoint tokens 1) (\<lambda>(src, i).
       let (src_port, j, src_ok) = ios_port tokens i
       in res_bind (eos_endpoint tokens j) (\<lambda>(dst, k).
            let (dst_port, l, dst_ok) = ios_port tokens k
            in Inr (src, src_port, dst, dst_port, src_ok \<and> dst_ok, l)))"

definition eos_rule :: "string \<Rightarrow> int \<Rightarrow> string \<Rightarrow> string \<Rightarrow> int \<Rightarrow> string \<Rightarrow> acl_rule" where
  "eos_rule acl n act body hits raw =
     (let tokens = strip_trailing (split_ws (rx_sub eos_counter_re [] body))
      in if tokens = [] then unmodelled n [] raw
         else case eos_tuple tokens of
           Inr (Some src, src_port, Some dst, dst_port, True, i) \<Rightarrow>
             if drop i tokens \<noteq> [] then unmodelled n (lower (hd tokens)) raw
             else \<lparr>ar_line = n, ar_action = lower act, ar_proto = lower (hd tokens), ar_src = src,
                   ar_dst = dst, ar_port = (if dst_port \<noteq> None then dst_port else src_port),
                   ar_id = acl @ ''-'' @ show_int n, ar_hits = hits, ar_acl = acl, ar_raw = raw\<rparr>
         | _ \<Rightarrow> unmodelled n (lower (hd tokens)) raw)"

definition eos_line :: "string \<times> acl_rule list \<Rightarrow> string \<Rightarrow> string \<times> acl_rule list" where
  "eos_line st raw_line = (case st of (acl, rules) \<Rightarrow>
     (let line = rstrip raw_line
      in if strip line = [] then st
         else case rx_match eos_header_re (strip line) of
           Some m \<Rightarrow> (group_or [] 1 m, rules)
         | None \<Rightarrow> (case rx_match eos_entry_re line of
               None \<Rightarrow> st
             | Some m \<Rightarrow>
                 if acl = [] then st
                 else (acl, rules @ [eos_rule acl (parse_int (group_or [] 1 m)) (group_or [] 2 m)
                         (group_or [] 3 m)
                         (case group 4 m of None \<Rightarrow> 0 | Some h \<Rightarrow> parse_int h) (strip line)]))))"

definition eos_parse_access_lists :: "string \<Rightarrow> acl_rule list" where
  "eos_parse_access_lists output = snd (foldl eos_line ([], []) (split_lines output))"

section \<open>Nokia SR Linux\<close>

definition srl_entry_re :: rx where
  "srl_entry_re = rseq [RBol, RStar r_space, r_lit_ci ''entry'', RPlus r_space, RGrp 1 (RPlus r_digit),
     RStar r_space, REol]"

definition r_until_paren :: rx where
  "r_until_paren = RStar (RSet (\<lambda>c. \<not> is_space c \<and> c \<noteq> CHR ''(''))"

definition r_paren :: "nat \<Rightarrow> rx" where
  "r_paren n = ROpt (rseq [r_lit ''('', RGrp n (RStar (RSet (\<lambda>c. c \<noteq> CHR '')''))), r_lit '')''])"

definition srl_match_re :: rx where
  "srl_match_re = rseq [r_lit_ci ''protocol='', RGrp 1 (RPlus (RSet (\<lambda>c. c \<noteq> CHR '','' \<and> \<not> is_space c))),
     RStar r_space, r_lit '','', RStar r_space, RGrp 2 r_until_paren, r_paren 3, RStar r_space,
     r_lit ''->'', RStar r_space, RGrp 4 r_until_paren, r_paren 5]"

definition srl_action_re :: rx where
  "srl_action_re = rseq [RBol, RStar r_space, r_lit_ci ''action'', RStar r_space, r_lit '':'',
     RStar r_space, RGrp 1 (RPlus r_nonspace)]"

definition srl_hits_re :: rx where
  "srl_hits_re = rseq [RBol, RStar r_space, ROpt (r_lit_ci ''input ''), r_lit_ci ''match packets'',
     RStar r_space, r_lit '':'', RStar r_space, RGrp 1 (RPlus r_digit)]"

text \<open>\<open>re.findall(r"\d+", text)\<close>\<close>

fun digit_runs :: "string \<Rightarrow> string list" where
  "digit_runs [] = []"
| "digit_runs (c # s) =
     (if \<not> is_digit c then digit_runs s
      else if s \<noteq> [] \<and> is_digit (hd s)
      then (case digit_runs s of [] \<Rightarrow> [[c]] | r # rs \<Rightarrow> (c # r) # rs)
      else [c] # digit_runs s)"

definition exact_port :: "string option \<Rightarrow> int option" where
  "exact_port text =
     (case text of
        None \<Rightarrow> None
      | Some t \<Rightarrow> (case map parse_int (digit_runs t) of
            [] \<Rightarrow> None
          | [v] \<Rightarrow> Some v
          | v # v' # _ \<Rightarrow> if v = v' then Some v else None))"

record srl_entry =
  sl_line :: int
  sl_raw :: "string list"
  sl_match :: "rpos option"
  sl_action :: string
  sl_hits :: int

definition srl_finish :: "string \<Rightarrow> srl_entry option \<Rightarrow> acl_rule list \<Rightarrow> acl_rule list" where
  "srl_finish acl_name current rules =
     (case current of
        None \<Rightarrow> rules
      | Some e \<Rightarrow> rules @
          [case sl_match e of
             Some m \<Rightarrow>
               if sl_action e \<notin> set [''accept'', ''drop'']
               then (unmodelled (sl_line e) [] (join [CHR 0x0A] (sl_raw e)))\<lparr>ar_acl := acl_name\<rparr>
               else \<lparr>ar_line = sl_line e,
                     ar_action = (if sl_action e = ''accept'' then ''permit'' else ''deny''),
                     ar_proto = (if lower (group_or [] 1 m) = ''<undefined>'' then ''ip''
                                 else lower (group_or [] 1 m)),
                     ar_src = (if group_or [] 2 m = [] then ''any'' else group_or [] 2 m),
                     ar_dst = (if group_or [] 4 m = [] then ''any'' else group_or [] 4 m),
                     ar_port = exact_port (group 5 m),
                     ar_id = acl_name @ ''-'' @ show_int (sl_line e), ar_hits = sl_hits e,
                     ar_acl = acl_name, ar_raw = join [CHR 0x0A] (sl_raw e)\<rparr>
           | None \<Rightarrow> (unmodelled (sl_line e) [] (join [CHR 0x0A] (sl_raw e)))\<lparr>ar_acl := acl_name\<rparr>])"

definition srl_line :: "string \<Rightarrow> srl_entry option \<times> acl_rule list \<Rightarrow> string
    \<Rightarrow> srl_entry option \<times> acl_rule list" where
  "srl_line acl_name st raw = (case st of (current, rules) \<Rightarrow>
     (case rx_match srl_entry_re raw of
        Some m \<Rightarrow> (Some \<lparr>sl_line = parse_int (group_or [] 1 m), sl_raw = [strip raw], sl_match = None,
                         sl_action = [], sl_hits = 0\<rparr>, srl_finish acl_name current rules)
      | None \<Rightarrow> (case current of
            None \<Rightarrow> st
          | Some e \<Rightarrow>
              let e = e\<lparr>sl_raw := sl_raw e @ [strip raw]\<rparr>;
                  e = (case rx_search srl_match_re raw of None \<Rightarrow> e | Some m \<Rightarrow> e\<lparr>sl_match := Some m\<rparr>);
                  e = (case rx_match srl_action_re raw of
                         None \<Rightarrow> e | Some m \<Rightarrow> e\<lparr>sl_action := lower (group_or [] 1 m)\<rparr>);
                  e = (case rx_match srl_hits_re raw of
                         None \<Rightarrow> e | Some m \<Rightarrow> e\<lparr>sl_hits := parse_int (group_or [] 1 m)\<rparr>)
              in (Some e, rules))))"

definition srl_parse_acl :: "string \<Rightarrow> string \<Rightarrow> acl_rule list" where
  "srl_parse_acl output acl_name =
     (let (current, rules) = foldl (srl_line acl_name) (None, []) (split_lines output)
      in srl_finish acl_name current rules)"

section \<open>Facts: wildcard masks\<close>

lemma low_ones: "0 \<le> (x :: int) \<Longrightarrow> (x + 1) AND x = 0 \<Longrightarrow> \<exists>k. x = mask k"
proof (induction "nat x" arbitrary: x rule: less_induct)
  case less
  show ?case
  proof (cases "even x")
    case True
    then obtain y where y: "x = 2 * y" by blast
    have "(2 * y + 1) AND (2 * y) = 2 * (y AND y)"
      by (subst and_int_rec) simp
    then have "x = 0" using less.prems(2) y by simp
    then show ?thesis by (intro exI[of _ 0]) simp
  next
    case False
    then obtain y where y: "x = 2 * y + 1" by (auto elim: oddE)
    have "(2 * (y + 1)) AND (2 * y + 1) = 2 * ((y + 1) AND y)"
      by (subst and_int_rec) simp
    then have "(y + 1) AND y = 0" using less.prems(2) y by (simp add: algebra_simps)
    moreover have "nat y < nat x" "0 \<le> y" using y less.prems(1) by auto
    ultimately obtain k where "y = mask k" using less.hyps by blast
    then have "x = mask (Suc k)" by (simp add: y mask_eq_exp_minus_1)
    then show ?thesis by blast
  qed
qed

lemma contiguous_wildcard:
  assumes "(uint (w :: addr) + 1) AND uint w = 0"
  obtains n where "n \<le> 32" "NOT w = netmask n"
proof -
  obtain k where k: "uint w = mask k" using low_ones[of "uint w"] assms by auto
  have "bit w i \<longleftrightarrow> i < min k 32" for i
    using k bit_uint_iff[of w i] bit_imp_le_length[of w i] by (auto simp: bit_mask_iff)
  then have "w = mask (32 - (32 - min k 32))"
    by (intro bit_word_eqI) (auto simp: bit_mask_iff)
  then have "NOT w = netmask (32 - min k 32)" by (simp add: netmask_def)
  then show thesis by (rule that[rotated]) simp
qed

lemma prefix_of_netmask:
  assumes "n \<le> 32"
  obtains k where "prefix_of_mask (netmask n) = Some k" "netmask k = netmask n"
proof (cases "prefix_of_mask (netmask n)")
  case None
  then have "\<forall>x<33. netmask x \<noteq> netmask n"
    by (auto simp: prefix_of_mask_def find_None_iff simp del: upt.simps)
  from spec[OF this, of n] show thesis using assms by simp
next
  case (Some k)
  then have "netmask k = netmask n" by (auto simp: prefix_of_mask_def find_Some_iff)
  with Some show thesis by (rule that)
qed

lemma show_ip_not_digits: "\<not> all_digits (show_ip a)"
proof
  assume "all_digits (show_ip a)"
  then have "CHR ''.'' \<notin> set (show_ip a)" using dot_slash_not_digit by (intro all_digits_not_in)
  then have "split_on (CHR ''.'') (show_ip a) = [show_ip a]" by (rule split_on_plain)
  then show False using ip_address_show_ip[of a] by (simp add: ip_address_def split: option.splits)
qed

section \<open>Properties\<close>

text \<open>A wildcard mask is translated exactly: where \<open>wildcard_to_prefix\<close> accepts a pair of IOS address
  and wildcard, the resulting specification contains precisely the addresses that agree with the
  address on every bit the wildcard leaves at zero.\<close>

theorem wildcard_exact:
  assumes "wildcard_to_prefix a w = Some spec" and "ip_address a = Some h" and "ip_address w = Some b"
    and "ip_address xs = Some x"
  shows "contains spec xs \<longleftrightarrow> x AND NOT b = h AND NOT b"
proof -
  have c: "(uint b + 1) AND uint b = 0" and spec: "spec = show_ip h @ ''/'' @ show_ip (NOT b)"
    using assms(1-3) by (auto simp: wildcard_to_prefix_def split: if_splits)
  obtain n where n: "n \<le> 32" "NOT b = netmask n" using contiguous_wildcard[OF c] by blast
  obtain k where k: "prefix_of_mask (NOT b) = Some k" "netmask k = NOT b"
    using prefix_of_netmask[OF n(1)] n(2) by metis
  have "split_on (CHR ''/'') spec = [show_ip h, show_ip (NOT b)]"
    unfolding spec using split_on_append[OF show_ip_no_slash] show_ip_no_slash by (simp add: split_on_plain)
  moreover have "make_prefix (show_ip (NOT b)) = Some k"
    using k(1) by (simp add: make_prefix_def show_ip_not_digits ip_address_show_ip)
  ultimately have "ip_network spec = Some (mk_network h k)"
    by (simp add: ip_network_def ip_address_show_ip)
  moreover have "CHR ''/'' \<in> set spec" by (simp add: spec)
  moreover have "\<not> is_any spec" using \<open>CHR ''/'' \<in> set spec\<close> by (auto simp: is_any_def)
  ultimately show ?thesis using assms(4) k(2)
    by (simp add: contains_def as_network_def in_network_def mk_network_def)
qed
lemma wildcard_exact_witness:
  "contains ''10.10.1.0/255.255.255.0'' ''10.10.1.77'' \<longleftrightarrow>
     (0x0A0A014D :: addr) AND NOT 0xFF = 0x0A0A0100 AND NOT 0xFF"
proof (rule wildcard_exact)
  show "wildcard_to_prefix ''10.10.1.0'' ''0.0.0.255'' = Some ''10.10.1.0/255.255.255.0''" by code_simp
  show "ip_address ''10.10.1.0'' = Some 0x0A0A0100" by code_simp
  show "ip_address ''0.0.0.255'' = Some 0xFF" by code_simp
  show "ip_address ''10.10.1.77'' = Some 0x0A0A014D" by code_simp
qed

text \<open>A port the IOS reader does not know is dropped rather than left unmodelled: an extended entry
  from any to any on such a port is read as a rule for every port.\<close>

theorem ios_unknown_port_widens:
  assumes "port_value name = None"
  shows "ios_extended [act, proto, ''any'', ''any'', ''eq'', name] = Some (proto, ''any'', ''any'', None)"
  using assms
  by (simp add: ios_extended_def ios_endpoint_def ios_port_def port_ops_def py_get_def)

lemma ios_unknown_port_widens_witness:
  "ios_extended [''permit'', ''udp'', ''any'', ''any'', ''eq'', ''ntp''] = Some (''udp'', ''any'', ''any'', None)"
  by (rule ios_unknown_port_widens) code_simp

end
