(* ===== verification/Minify.thy ===== *)
theory Minify
  imports Prelude
begin

text \<open>
  \<open>app/minify.py\<close>: empty fields dropped and lists capped before a tool result reaches the model.
\<close>

definition j_empty :: "json \<Rightarrow> bool" where
  "j_empty v = (v = JNull \<or> v = JStr [] \<or> v = JArr [] \<or> v = JObj [])"

definition omitted_note :: "int \<Rightarrow> json" where
  "omitted_note n = JObj [(''_truncated'', JBool True), (''omitted'', JInt n)]"

text \<open>A field and an item are smaller than the value that holds them.\<close>

lemma size_field: "(k, v) \<in> set fs \<Longrightarrow> size v < Suc (size_list (size_prod (\<lambda>_. 0) size) fs)"
  by (induction fs) auto

lemma size_item: "v \<in> set xs \<Longrightarrow> size v < Suc (size_list size xs)"
  by (induction xs) auto

function minify_payload :: "nat \<Rightarrow> json \<Rightarrow> json" where
  "minify_payload n (JObj fs) =
     JObj (map (\<lambda>(k, v). (k, minify_payload n v)) (filter (\<lambda>(k, v). \<not> j_empty v) fs))"
| "minify_payload n (JArr xs) =
     JArr (map (minify_payload n) (take n xs) @
           (if length xs > n then [omitted_note (int (length xs) - int n)] else []))"
| "minify_payload n JNull = JNull"
| "minify_payload n (JBool b) = JBool b"
| "minify_payload n (JInt i) = JInt i"
| "minify_payload n (JStr s) = JStr s"
  by pat_completeness auto

termination
  by (relation "measure (\<lambda>(_, v). size v)")
    (auto dest!: in_set_takeD simp: size_field size_item)

section \<open>Facts\<close>

lemma j_empty_scalar [simp]: "j_empty (JBool b) = False" "j_empty (JInt i) = False"
  by (simp_all add: j_empty_def)

text \<open>Every array of a minified value has at most one more element than the cap.\<close>

fun arrays_capped :: "nat \<Rightarrow> json \<Rightarrow> bool" where
  "arrays_capped n (JArr xs) = (length xs \<le> n \<and> list_all (arrays_capped n) xs)"
| "arrays_capped n (JObj fs) = list_all (\<lambda>(k, v). arrays_capped n v) fs"
| "arrays_capped n _ = True"

lemma minify_capped: "arrays_capped (Suc n) (minify_payload n v)"
proof (induction n v rule: minify_payload.induct)
  case (1 n fs)
  then show ?case by (auto simp: list_all_iff)
next
  case (2 n xs)
  then show ?case by (auto simp: list_all_iff omitted_note_def min_def)
qed simp_all

end
