(* ===== verification/Stores.thy ===== *)
theory Stores
  imports Vendors Minify Verify
begin

text \<open>
  The firewall backends as the rest of the program sees them (\<open>app/firewall/base.py\<close>): the
  caching classes of \<open>ios.py\<close>, \<open>eos.py\<close> and \<open>srlinux.py\<close>, the fixtures of \<open>mock.py\<close>, and the
  contract they share with the ASA backend as a locale: what was read stays readable, and a
  forgotten policy is read again from the device.
\<close>

section \<open>The caching backends of IOS, EOS and SR Linux\<close>

definition cached_refresh :: "string \<Rightarrow> cached \<times> 'w \<Rightarrow> cached \<times> 'w" where
  "cached_refresh d st = ((fst st)\<lparr>cb_cache := al_drop d (cb_cache (fst st))\<rparr>, snd st)"

definition cached_fetch ::
  "'w wire \<Rightarrow> string \<Rightarrow> (string \<Rightarrow> acl_rule list res) \<Rightarrow> cached \<times> 'w
    \<Rightarrow> acl_rule list res \<times> cached \<times> 'w" where
  "cached_fetch wi command parse st =
     (case ssh_send wi command st of
        (Inl e, st1) \<Rightarrow> (Inl e, st1)
      | (Inr out, st1) \<Rightarrow> (parse out, st1))"

definition cached_policy ::
  "'w wire \<Rightarrow> string \<Rightarrow> (string \<Rightarrow> acl_rule list res) \<Rightarrow> string \<Rightarrow> cached \<times> 'w
    \<Rightarrow> acl_rule list res \<times> cached \<times> 'w" where
  "cached_policy wi command parse d st =
     (case map_of (cb_cache (fst st)) d of
        Some rules \<Rightarrow> (Inr rules, st)
      | None \<Rightarrow>
          (case cached_fetch wi command parse st of
             (Inl e, st1) \<Rightarrow> (Inl e, st1)
           | (Inr rules, s1, w1) \<Rightarrow>
               (Inr rules, s1\<lparr>cb_cache := al_put d rules (cb_cache s1)\<rparr>, w1)))"

definition ios_policy :: "'w wire \<Rightarrow> string \<Rightarrow> cached \<times> 'w \<Rightarrow> acl_rule list res \<times> cached \<times> 'w" where
  "ios_policy wi d st =
     cached_policy wi (acl_command ''show ip access-lists'' (cb_acl (fst st))) ios_parse_access_lists d st"

definition eos_policy :: "'w wire \<Rightarrow> string \<Rightarrow> cached \<times> 'w \<Rightarrow> acl_rule list res \<times> cached \<times> 'w" where
  "eos_policy wi d st =
     cached_policy wi (acl_command ''show ip access-lists'' (cb_acl (fst st)))
       (\<lambda>out. Inr (eos_parse_access_lists out)) d st"

text \<open>\<open>self.acl_name = acl_name or "DMZ_TO_TRUST"\<close>\<close>

definition srl_acl_name :: "cached \<Rightarrow> string" where
  "srl_acl_name s = (case cb_acl s of None \<Rightarrow> ''DMZ_TO_TRUST''
     | Some n \<Rightarrow> if n = [] then ''DMZ_TO_TRUST'' else n)"

definition srl_policy :: "'w wire \<Rightarrow> string \<Rightarrow> cached \<times> 'w \<Rightarrow> acl_rule list res \<times> cached \<times> 'w" where
  "srl_policy wi d st =
     cached_policy wi (''show acl acl-filter '' @ srl_acl_name (fst st) @ '' type ipv4'')
       (\<lambda>out. Inr (srl_parse_acl out (srl_acl_name (fst st)))) d st"

definition ios_describe :: "cached \<Rightarrow> string" where
  "ios_describe s = ''cisco-ios '' @ cb_host s @ '' (read-only)''"

definition ios_denied_flows :: "'w wire \<Rightarrow> flow_query \<Rightarrow> cached \<times> 'w \<Rightarrow> json list res \<times> cached \<times> 'w" where
  "ios_denied_flows wi q st =
     (case ios_policy wi (se_device (fst st)) st of
        (Inl e, st1) \<Rightarrow> (Inl e, st1)
      | (Inr rules, st1) \<Rightarrow> (Inr (asa_denied_rows (ios_describe (fst st1)) rules q), st1))"

definition ios_hit_row :: "string \<Rightarrow> acl_rule \<Rightarrow> json" where
  "ios_hit_row device r = JObj
     [(''device'', JStr device), (''rule_id'', JStr (ar_id r)), (''acl'', JStr (ar_acl r)),
      (''line'', JInt (ar_line r)), (''action'', JStr (ar_action r)), (''proto'', JStr (ar_proto r)),
      (''src'', JStr (ar_src r)), (''dst'', JStr (ar_dst r)), (''port'', j_opt_int (ar_port r)),
      (''hits'', JInt (ar_hits r))]"

definition with_rule_id :: "string option \<Rightarrow> acl_rule list \<Rightarrow> acl_rule list" where
  "with_rule_id rule_id rules =
     (case rule_id of None \<Rightarrow> rules
      | Some rid \<Rightarrow> if rid = [] then rules else filter (\<lambda>r. ar_id r = rid) rules)"

definition ios_hit_rows :: "string \<Rightarrow> string option \<Rightarrow> acl_rule list \<Rightarrow> json list" where
  "ios_hit_rows device rule_id rules =
     map (ios_hit_row device) (sort_key ar_line
       (with_rule_id rule_id (filter (\<lambda>r. ar_action r \<in> set [''permit'', ''deny'']) rules)))"

definition ios_nat_assessment ::
  "'w wire \<Rightarrow> string list \<Rightarrow> cached \<times> 'w \<Rightarrow> nat_assessment \<times> cached \<times> 'w" where
  "ios_nat_assessment wi addresses st =
     (case ssh_send wi ''show ip nat translations'' st of
        (Inl _, st1) \<Rightarrow> (\<lparr>na_translated = [], na_unresolved = [''NAT table could not be read from the device'']\<rparr>, st1)
      | (Inr out, st1) \<Rightarrow>
          (\<lparr>na_translated = map (\<lambda>(g, l). g @ '' <-> '' @ l)
              (filter (\<lambda>(g, l). g \<in> set addresses \<or> l \<in> set addresses) (parse_nat_translations out)),
            na_unresolved = []\<rparr>, st1))"

text \<open>The rows of EOS and SR Linux, which have other keys and no row for the implicit deny.\<close>

definition lab_denied_rows :: "string \<Rightarrow> acl_rule list \<Rightarrow> flow_query \<Rightarrow> json list" where
  "lab_denied_rows device rules q =
     (case evaluate_flow rules (q_source_ip q) (q_target_ip q) (q_port q) (q_proto q) of
        (_, None) \<Rightarrow> []
      | (result, Some (_, hit)) \<Rightarrow>
          if result \<noteq> ''deny'' then []
          else [JObj [(''src'', JStr (q_source_ip q)), (''dst'', JStr (q_target_ip q)),
             (''port'', JInt (q_port q)), (''proto'', JStr (q_proto q)), (''action'', JStr ''deny''),
             (''rule_id'', JStr (ar_id hit)), (''device'', JStr device),
             (''source_device'', JStr (q_source_device q)),
             (''target_device'', JStr (q_target_device q))]])"

definition lab_hit_rows :: "string option \<Rightarrow> acl_rule list \<Rightarrow> json list" where
  "lab_hit_rows rule_id rules =
     map (\<lambda>r. JObj [(''rule_id'', JStr (ar_id r)), (''line'', JInt (ar_line r)),
        (''action'', JStr (ar_action r)), (''hits'', JInt (ar_hits r)), (''acl'', JStr (ar_acl r))])
       (with_rule_id rule_id rules)"

text \<open>Both \<open>nat_assessment\<close> methods construct \<open>NatAssessment\<close> with a field \<open>notes\<close> that the class does
  not have, which raises.\<close>

definition lab_nat_assessment :: "string list \<Rightarrow> nat_assessment res" where
  "lab_nat_assessment addresses = Inl TypeError"

section \<open>Fixtures\<close>

text \<open>A row of \<open>ACL_HITS\<close>. The dicts are typed here; \<open>port\<close> is \<open>None\<close> where the key is absent.\<close>

record mock_row =
  mk_device :: string
  mk_rule_id :: string
  mk_acl :: string
  mk_line :: int
  mk_action :: string
  mk_proto :: string
  mk_src :: string
  mk_dst :: string
  mk_port :: "int option"
  mk_hits :: int

definition mock_rule :: "mock_row \<Rightarrow> acl_rule" where
  "mock_rule row = \<lparr>ar_line = mk_line row, ar_action = mk_action row, ar_proto = mk_proto row,
     ar_src = mk_src row, ar_dst = mk_dst row, ar_port = mk_port row, ar_id = mk_rule_id row,
     ar_hits = mk_hits row, ar_acl = mk_acl row, ar_raw = []\<rparr>"

definition mock_policy :: "mock_row list \<Rightarrow> string \<Rightarrow> acl_rule list" where
  "mock_policy rows device =
     sort_key ar_line (map mock_rule (filter (\<lambda>row. mk_device row = device) rows))"

definition mock_nat_assessment :: "string list \<Rightarrow> nat_assessment" where
  "mock_nat_assessment addresses = no_assessment"

definition lab_acl :: "mock_row list" where
  "lab_acl =
     [\<lparr>mk_device = ''FW_Edge'', mk_rule_id = ''ACL-DMZ-10'', mk_acl = ''DMZ_TO_TRUST'', mk_line = 10,
       mk_action = ''permit'', mk_proto = ''tcp'', mk_src = ''10.10.1.0/24'', mk_dst = ''10.20.1.0/24'',
       mk_port = Some 80, mk_hits = 42\<rparr>,
      \<lparr>mk_device = ''FW_Edge'', mk_rule_id = ''ACL-DMZ-47'', mk_acl = ''DMZ_TO_TRUST'', mk_line = 40,
       mk_action = ''deny'', mk_proto = ''tcp'', mk_src = ''10.10.1.0/24'', mk_dst = ''10.20.1.50'',
       mk_port = Some 443, mk_hits = 1284\<rparr>]"

definition mock_firewall :: "mock_row list \<Rightarrow> firewall" where
  "mock_firewall rows = \<lparr>fv_policy = (\<lambda>d. Inr (mock_policy rows d)),
     fv_nat = Some (\<lambda>d addresses. Inr (mock_nat_assessment addresses))\<rparr>"

text \<open>The view \<open>verify.py\<close> has of a backend in a given state.\<close>

definition view_of ::
  "(string \<Rightarrow> 's \<Rightarrow> acl_rule list res \<times> 's) \<Rightarrow> (string list \<Rightarrow> 's \<Rightarrow> nat_assessment res) \<Rightarrow> 's \<Rightarrow> firewall" where
  "view_of read assess s = \<lparr>fv_policy = (\<lambda>d. fst (read d s)), fv_nat = Some (\<lambda>d as. assess as s)\<rparr>"

section \<open>The contract of a backend\<close>

locale policy_store =
  fixes read :: "string \<Rightarrow> 's \<Rightarrow> acl_rule list res \<times> 's"
    and forget :: "string \<Rightarrow> 's \<Rightarrow> 's"
    and live :: "string \<Rightarrow> 's \<Rightarrow> acl_rule list res"
  assumes repeatable: "read d s = (Inr p, s') \<Longrightarrow> read d s' = (Inr p, s')"
    and forgotten: "fst (read d (forget d s)) = live d (forget d s)"
begin

text \<open>\<open>_refresh\<close> of \<open>live.py\<close>: what is read after forgetting is what the device says now, and the
  simulator then sees exactly that.\<close>

lemma reread_live:
  assumes "read d (forget d s) = (r, s')"
  shows "r = live d (forget d s)"
  using forgotten[of d s] assms by simp

lemma view_after_reread:
  assumes "read d (forget d s) = (Inr p, s')"
  shows "fv_policy (view_of read assess s') d = Inr p"
    and "Inr p = live d (forget d s)"
  using repeatable[OF assms] reread_live[OF assms] by (simp_all add: view_of_def)

text \<open>A report on one action after a refresh is a report about the device itself.\<close>

lemma verified_against_device:
  assumes "read (act_device a) (forget (act_device a) s) = (Inr p, s')"
    and "verify_change [a] flows (view_of read assess s') = Inr rep" and "rp_ok rep" and "f \<in> set flows"
  shows "\<exists>parsed. parse_proposed_acl (act_command a) (act_vendor a) = Some parsed \<and>
    live (act_device a) (forget (act_device a) s) = Inr p \<and>
    verdict (p @ [fst (place_rule a p parsed)]) f = ''permit''"
proof -
  have "action_ok (view_of read assess s') flows a"
    using verify_change_iff[OF assms(2)] assms(3) by simp
  then obtain parsed base where x: "parse_proposed_acl (act_command a) (act_vendor a) = Some parsed"
    "fv_policy (view_of read assess s') (act_device a) = Inr base"
    "\<forall>f\<in>set flows. verdict (base @ [fst (place_rule a base parsed)]) f = ''permit''"
    unfolding action_ok_iff by blast
  moreover from x(2) have "base = p" using view_after_reread(1)[OF assms(1), of assess] by simp
  ultimately show ?thesis using view_after_reread(2)[OF assms(1)] assms(4) by auto
qed

end

lemma cached_repeatable:
  "cached_policy wi c parse d s = (Inr p, s') \<Longrightarrow> map_of (cb_cache (fst s')) d = Some p"
  by (auto simp: cached_policy_def split: option.splits sum.splits prod.splits)

lemma cached_forgotten:
  "fst (cached_policy wi c parse d (cached_refresh d s)) = fst (cached_fetch wi c parse (cached_refresh d s))"
  by (auto simp: cached_policy_def cached_refresh_def map_of_al_drop split: sum.splits prod.splits)

lemma cached_acl: "cb_acl (fst (cached_refresh d s)) = cb_acl (fst s)"
  by (simp add: cached_refresh_def)

interpretation ios: policy_store "ios_policy wi" cached_refresh
  "\<lambda>d st. fst (cached_fetch wi (acl_command ''show ip access-lists'' (cb_acl (fst st))) ios_parse_access_lists st)"
  for wi
proof
  fix d s p s' assume "ios_policy wi d s = (Inr p, s')"
  then have "map_of (cb_cache (fst s')) d = Some p" unfolding ios_policy_def by (rule cached_repeatable)
  then show "ios_policy wi d s' = (Inr p, s')" by (simp add: ios_policy_def cached_policy_def)
qed (simp add: ios_policy_def cached_forgotten)

interpretation eos: policy_store "eos_policy wi" cached_refresh
  "\<lambda>d st. fst (cached_fetch wi (acl_command ''show ip access-lists'' (cb_acl (fst st)))
            (\<lambda>out. Inr (eos_parse_access_lists out)) st)"
  for wi
proof
  fix d s p s' assume "eos_policy wi d s = (Inr p, s')"
  then have "map_of (cb_cache (fst s')) d = Some p" unfolding eos_policy_def by (rule cached_repeatable)
  then show "eos_policy wi d s' = (Inr p, s')" by (simp add: eos_policy_def cached_policy_def)
qed (simp add: eos_policy_def cached_forgotten)

interpretation srl: policy_store "srl_policy wi" cached_refresh
  "\<lambda>d st. fst (cached_fetch wi (''show acl acl-filter '' @ srl_acl_name (fst st) @ '' type ipv4'')
            (\<lambda>out. Inr (srl_parse_acl out (srl_acl_name (fst st)))) st)"
  for wi
proof
  fix d s p s' assume "srl_policy wi d s = (Inr p, s')"
  then have "map_of (cb_cache (fst s')) d = Some p" unfolding srl_policy_def by (rule cached_repeatable)
  then show "srl_policy wi d s' = (Inr p, s')" by (simp add: srl_policy_def cached_policy_def)
qed (simp add: srl_policy_def cached_forgotten)

lemma asa_repeatable:
  "asa_policy wi d s = (Inr p, s') \<Longrightarrow> map_of (cb_cache (fst s')) d = Some p"
  by (auto simp: asa_policy_def split: option.splits sum.splits prod.splits)

interpretation asa: policy_store "asa_policy wi" asa_refresh "\<lambda>d st. fst (asa_fetch wi st)" for wi
proof
  fix d s p s' assume "asa_policy wi d s = (Inr p, s')"
  then have "map_of (cb_cache (fst s')) d = Some p" by (rule asa_repeatable)
  then show "asa_policy wi d s' = (Inr p, s')" by (simp add: asa_policy_def)
qed (auto simp: asa_policy_def asa_refresh_def map_of_al_drop split: sum.splits prod.splits)

interpretation mock: policy_store "\<lambda>d rows. (Inr (mock_policy rows d), rows)" "\<lambda>d rows. rows"
  "\<lambda>d rows. Inr (mock_policy rows d)"
  by unfold_locales auto

section \<open>Properties\<close>

text \<open>Reading back after a change is reading the device: after \<open>refresh\<close> the ASA backend answers
  \<open>acl_policy\<close> from a new \<open>show access-list\<close>, whatever it had cached before, and then keeps to that
  answer, so everything that follows is judged against it.\<close>

theorem asa_reread_is_live:
  assumes "asa_policy wi d (asa_refresh d st) = (r, st')"
  shows "r = fst (asa_fetch wi (asa_refresh d st)) \<and>
    (case r of Inl _ \<Rightarrow> True | Inr p \<Rightarrow> asa_policy wi d st' = (Inr p, st'))"
  using asa.reread_live[OF assms] assms by (auto split: sum.splits intro: asa.repeatable)

definition canned_wire :: "string \<Rightarrow> unit wire" where
  "canned_wire out = \<lparr>wi_connect = (\<lambda>w. (Inr (), w)), wi_command = (\<lambda>c w. (Inr out, w)),
     wi_disconnect = (\<lambda>w. w)\<rparr>"

lemma asa_reread_is_live_witness:
  "fst (asa_policy (canned_wire ''access-list OUT line 1 extended permit ip any any'') ''FW_Edge''
      (fresh_asa\<lparr>se_conn := True, cb_cache := []\<rparr>, ())) =
   fst (asa_fetch (canned_wire ''access-list OUT line 1 extended permit ip any any'')
      (asa_refresh ''FW_Edge'' (fresh_asa\<lparr>se_conn := True, cb_cache := [(''FW_Edge'', [])]\<rparr>, ())))"
proof -
  let ?wi = "canned_wire ''access-list OUT line 1 extended permit ip any any''"
  let ?st = "(fresh_asa\<lparr>se_conn := True, cb_cache := [(''FW_Edge'', [])]\<rparr>, ())"
  have r: "asa_refresh ''FW_Edge'' ?st = (fresh_asa\<lparr>se_conn := True, cb_cache := []\<rparr>, ())"
    by (simp add: asa_refresh_def fresh_asa_def al_drop_def)
  show ?thesis
    using asa_reread_is_live[of ?wi "''FW_Edge''" ?st, OF surjective_pairing] by (simp add: r)
qed

text \<open>The note that NAT is not read on the EOS and SR Linux backends never reaches a report: the
  assessment raises, and the simulation treats it as no finding.\<close>

theorem lab_nat_never_reported:
  "nat_findings (view_of read (\<lambda>addresses s. lab_nat_assessment addresses) st) device flows =
     ([], False, No_remedy)"
  by (simp add: nat_findings_def view_of_def lab_nat_assessment_def)

end
