(* ===== verification/Throttle.thy ===== *)
theory Throttle
  imports Prelude
begin

text \<open>
  \<open>app/auth/ratelimit.py\<close>: the sliding window in front of the login and the webhooks. Times are
  integers in one unit.
\<close>

record limiter =
  lm_limit :: int
  lm_window :: int
  lm_hits :: "(string \<times> int list) list"

definition hits_of :: "string \<Rightarrow> limiter \<Rightarrow> int list" where
  "hits_of key lm = (case map_of (lm_hits lm) key of None \<Rightarrow> [] | Some hs \<Rightarrow> hs)"

text \<open>\<open>check\<close>: the stale hits go, and the attempt is recorded unless the window is full. A limit of zero
  looks at the first of no hits.\<close>

definition limiter_check :: "string \<Rightarrow> int \<Rightarrow> limiter \<Rightarrow> (bool \<times> int) res \<times> limiter" where
  "limiter_check key now lm =
     (let hits = dropWhile (\<lambda>t. now - t > lm_window lm) (hits_of key lm)
      in if int (length hits) \<ge> lm_limit lm
         then (case hits of
                 [] \<Rightarrow> (Inl IndexError, lm\<lparr>lm_hits := al_put key [] (lm_hits lm)\<rparr>)
               | t # _ \<Rightarrow> (Inr (False, max 1 (lm_window lm - (now - t))),
                           lm\<lparr>lm_hits := al_put key hits (lm_hits lm)\<rparr>))
         else (Inr (True, 0), lm\<lparr>lm_hits := al_put key (hits @ [now]) (lm_hits lm)\<rparr>))"

text \<open>A history of attempts, oldest first, with the answer to each.\<close>

definition admitted :: "(bool \<times> int) res \<Rightarrow> bool" where
  "admitted r = (case r of Inr (True, _) \<Rightarrow> True | _ \<Rightarrow> False)"

fun attempts :: "limiter \<Rightarrow> (string \<times> int) list \<Rightarrow> (string \<times> int \<times> bool) list \<times> limiter" where
  "attempts lm [] = ([], lm)"
| "attempts lm ((key, now) # calls) =
     (let (r, lm1) = limiter_check key now lm; (log, lm2) = attempts lm1 calls
      in ((key, now, admitted r) # log, lm2))"

definition allowed :: "string \<Rightarrow> (string \<times> int \<times> bool) list \<Rightarrow> int list" where
  "allowed key log = map (\<lambda>(_, t, _). t) (filter (\<lambda>(k, _, ok). k = key \<and> ok) log)"

section \<open>Facts\<close>

lemma allowed_simps [simp]: "allowed key [] = []" "allowed key (xs @ ys) = allowed key xs @ allowed key ys"
  "allowed key ((k, t, ok) # log) = (if k = key \<and> ok then t # allowed key log else allowed key log)"
  by (simp_all add: allowed_def)

lemma check_keeps [simp]: "lm_limit (snd (limiter_check k now lm)) = lm_limit lm"
  "lm_window (snd (limiter_check k now lm)) = lm_window lm"
  by (auto simp: limiter_check_def Let_def split: list.splits)

lemma hits_of_put: "hits_of k (lm\<lparr>lm_hits := al_put key hs (lm_hits lm)\<rparr>) = (if k = key then hs else hits_of k lm)"
  by (simp add: hits_of_def)

lemma check_other: "k \<noteq> key \<Longrightarrow> hits_of key (snd (limiter_check k now lm)) = hits_of key lm"
  by (auto simp: limiter_check_def Let_def hits_of_put split: list.splits)

lemma check_same:
  "hits_of key (snd (limiter_check key now lm)) =
     dropWhile (\<lambda>t. now - t > lm_window lm) (hits_of key lm) @
     (if admitted (fst (limiter_check key now lm)) then [now] else [])"
  by (cases "dropWhile (\<lambda>t. now - t > lm_window lm) (hits_of key lm)")
    (simp_all add: limiter_check_def Let_def hits_of_put admitted_def del: dropWhile_eq_Nil_conv)

lemma check_admits:
  assumes "admitted (fst (limiter_check key now lm))"
  shows "int (length (hits_of key (snd (limiter_check key now lm)))) \<le> lm_limit lm"
  using assms
  by (cases "dropWhile (\<lambda>t. now - t > lm_window lm) (hits_of key lm)")
    (auto simp: limiter_check_def Let_def hits_of_put admitted_def simp del: dropWhile_eq_Nil_conv split: if_splits)

text \<open>What the limiter has forgotten of the attempts it allowed is out of the window for good.\<close>

definition remembers :: "string \<Rightarrow> int list \<Rightarrow> int \<Rightarrow> limiter \<Rightarrow> bool" where
  "remembers key past now lm =
     (\<exists>old. past = old @ hits_of key lm \<and> (\<forall>t\<in>set old. now - t > lm_window lm))"

lemma remembers_later: "remembers key past now lm \<Longrightarrow> now \<le> now' \<Longrightarrow> remembers key past now' lm"
  by (force simp: remembers_def)

lemma dropWhile_split: "\<exists>old. xs = old @ dropWhile P xs \<and> (\<forall>x\<in>set old. P x)"
  by (metis set_takeWhileD takeWhile_dropWhile_id)

lemma remembers_check:
  assumes "remembers key past now lm"
  shows "remembers key
    (past @ (if k = key \<and> admitted (fst (limiter_check k now lm)) then [now] else []))
    now (snd (limiter_check k now lm))"
proof (cases "k = key")
  case True
  obtain old where old: "past = old @ hits_of key lm" "\<forall>t\<in>set old. now - t > lm_window lm"
    using assms by (auto simp: remembers_def)
  obtain stale where stale:
    "hits_of key lm = stale @ dropWhile (\<lambda>t. now - t > lm_window lm) (hits_of key lm)"
    "\<forall>t\<in>set stale. now - t > lm_window lm"
    using dropWhile_split[of "hits_of key lm" "\<lambda>t. now - t > lm_window lm"] by blast
  show ?thesis
    unfolding remembers_def using True old stale by (intro exI[of _ "old @ stale"]) (auto simp: check_same)
next
  case False
  then show ?thesis using assms by (simp add: remembers_def check_other)
qed

text \<open>The allowed attempts of a history inside one closed interval of the window's length.\<close>

definition in_window :: "int \<Rightarrow> int \<Rightarrow> int list \<Rightarrow> int list" where
  "in_window a w ts = filter (\<lambda>t. a \<le> t \<and> t \<le> a + w) ts"

lemma in_window_admit:
  assumes "remembers key (past @ [now]) now lm" and "int (length (hits_of key lm)) \<le> lm_limit lm"
    and "a \<le> now" "now \<le> a + lm_window lm"
  shows "int (length (in_window a (lm_window lm) (past @ [now]))) \<le> lm_limit lm"
proof -
  obtain old where old: "past @ [now] = old @ hits_of key lm" "\<forall>t\<in>set old. now - t > lm_window lm"
    using assms(1) by (auto simp: remembers_def)
  have "in_window a (lm_window lm) old = []"
    using old(2) assms(4) by (force simp: in_window_def filter_empty_conv)
  then have "in_window a (lm_window lm) (past @ [now]) = in_window a (lm_window lm) (hits_of key lm)"
    by (simp add: old(1) in_window_def)
  moreover have "length (in_window a (lm_window lm) (hits_of key lm)) \<le> length (hits_of key lm)"
    by (simp add: in_window_def)
  ultimately show ?thesis using assms(2) by simp
qed

lemma attempts_bounded:
  assumes "remembers key past now lm" and "sorted (now # map snd calls)"
    and "int (length (in_window a (lm_window lm) past)) \<le> lm_limit lm"
  shows "int (length (in_window a (lm_window lm) (past @ allowed key (fst (attempts lm calls))))) \<le> lm_limit lm"
  using assms
proof (induction calls arbitrary: past now lm)
  case (Cons c calls)
  obtain k t where c: "c = (k, t)" by (cases c)
  let ?lm = "snd (limiter_check k t lm)"
  let ?new = "if k = key \<and> admitted (fst (limiter_check k t lm)) then [t] else []"
  have "remembers key past t lm" using remembers_later[OF Cons.prems(1), of t] Cons.prems(2) by (simp add: c)
  from remembers_check[OF this] have rem: "remembers key (past @ ?new) t ?lm" .
  have "int (length (in_window a (lm_window ?lm) (past @ ?new))) \<le> lm_limit ?lm"
  proof (cases "?new = [t] \<and> a \<le> t \<and> t \<le> a + lm_window lm")
    case True
    then have "k = key" "admitted (fst (limiter_check k t lm))" by (auto split: if_splits)
    then show ?thesis
      using in_window_admit[of key past t ?lm a] rem check_admits[of key t lm] True by simp
  next
    case False
    then have "in_window a (lm_window lm) ?new = []" by (auto simp: in_window_def split: if_splits)
    then show ?thesis using Cons.prems(3) by (simp add: in_window_def)
  qed
  from Cons.IH[OF rem _ this] Cons.prems(2)
  have "int (length (in_window a (lm_window lm) ((past @ ?new) @ allowed key (fst (attempts ?lm calls))))) \<le> lm_limit lm"
    by (simp add: c)
  moreover have "past @ allowed key (fst (attempts lm (c # calls))) = (past @ ?new) @ allowed key (fst (attempts ?lm calls))"
    by (cases "limiter_check k t lm"; cases "attempts ?lm calls") (simp add: c Let_def)
  ultimately show ?case by simp
qed simp

section \<open>Properties\<close>

text \<open>C26. Whatever attempts come in, in any interval of the length of the window at most \<open>limit\<close> of those of
  one key are let through.\<close>

theorem sliding_window_bound:
  assumes "lm_hits lm = []" and "0 \<le> lm_limit lm" and "sorted (map snd calls)"
  shows "int (length (in_window a (lm_window lm) (allowed key (fst (attempts lm calls))))) \<le> lm_limit lm"
proof (cases calls)
  case (Cons c cs)
  have "remembers key [] (snd c) lm" using assms(1) by (simp add: remembers_def hits_of_def)
  from attempts_bounded[OF this, of calls a] show ?thesis
    using assms(2,3) Cons by (simp add: in_window_def)
qed (use assms(2) in \<open>simp add: in_window_def\<close>)

lemma sliding_window_bound_witness:
  "int (length (in_window 0 60 (allowed ''ip'' (fst (attempts \<lparr>lm_limit = 2, lm_window = 60, lm_hits = []\<rparr>
     [(''ip'', 0), (''ip'', 1), (''ip'', 2), (''ip'', 61)]))))) \<le> 2"
  using sliding_window_bound[of "\<lparr>lm_limit = 2, lm_window = 60, lm_hits = []\<rparr>"
      "[(''ip'', 0), (''ip'', 1), (''ip'', 2), (''ip'', 61)]" 0 "''ip''"]
  by simp

end
