(* ===== verification/Topology.thy ===== *)
theory Topology
  imports Prelude "HOL-Library.List_Lexorder"
begin

text \<open>
  The topology the agent reasons over: \<open>app/store/memory.py\<close> (the in-memory inventory with its
  breadth-first path trace) and \<open>app/store/site_scoped.py\<close> (the views limited to one site). The
  graph database is a record of functions per site.
\<close>

section \<open>The inventory\<close>

record device =
  dv_zone :: string
  dv_neighbors :: "string list"
  dv_ip :: "string option"
  dv_site :: string

type_synonym devices = "(string \<times> device) list"

definition lab_devices :: devices where
  "lab_devices =
    [(''Web_App'', \<lparr>dv_zone = ''DMZ'', dv_neighbors = [''SW_DMZ''], dv_ip = Some ''10.10.1.10'', dv_site = []\<rparr>),
     (''SW_DMZ'', \<lparr>dv_zone = ''DMZ'', dv_neighbors = [''Web_App'', ''FW_Edge''], dv_ip = Some ''10.10.0.2'', dv_site = []\<rparr>),
     (''FW_Edge'', \<lparr>dv_zone = ''DMZ'', dv_neighbors = [''SW_DMZ'', ''SW_TRUST''], dv_ip = Some ''10.0.0.1'', dv_site = []\<rparr>),
     (''SW_TRUST'', \<lparr>dv_zone = ''TRUST'', dv_neighbors = [''FW_Edge'', ''DB_Primary''], dv_ip = Some ''10.20.0.2'', dv_site = []\<rparr>),
     (''DB_Primary'', \<lparr>dv_zone = ''TRUST'', dv_neighbors = [''SW_TRUST''], dv_ip = Some ''10.20.1.50'', dv_site = []\<rparr>)]"

text \<open>\<open>devices or LAB_DEVICES\<close>\<close>

definition inventory :: "devices \<Rightarrow> devices" where
  "inventory ds = (if ds = [] then lab_devices else ds)"

definition device_site :: "devices \<Rightarrow> string \<Rightarrow> string" where
  "device_site ds name = (case map_of ds name of None \<Rightarrow> [] | Some d \<Rightarrow> dv_site d)"

definition site_match :: "devices \<Rightarrow> string \<Rightarrow> string \<Rightarrow> bool" where
  "site_match ds site name = (site = [] \<or> device_site ds name = [] \<or> device_site ds name = site)"

definition known_devices :: "devices \<Rightarrow> string \<Rightarrow> string list" where
  "known_devices ds site = sort (filter (site_match ds (strip site)) (map fst ds))"

definition device_ip :: "devices \<Rightarrow> string \<Rightarrow> string \<Rightarrow> string option" where
  "device_ip ds site name =
     (if \<not> site_match ds site name then None else Option.bind (map_of ds name) dv_ip)"

section \<open>The path trace\<close>

text \<open>The inner loop: the neighbours that are new and in the site are marked and queued.\<close>

definition visit ::
  "devices \<Rightarrow> string \<Rightarrow> string list \<Rightarrow> (string \<times> string list) list \<times> string list \<Rightarrow> string \<Rightarrow>
   (string \<times> string list) list \<times> string list" where
  "visit ds site path st neighbor =
     (case st of (queue, seen) \<Rightarrow>
        if neighbor \<in> set seen \<or> \<not> site_match ds site neighbor then (queue, seen)
        else (queue @ [(neighbor, path @ [neighbor])], seen @ [neighbor]))"

text \<open>Every name the inventory mentions, the bound of the search.\<close>

definition names :: "devices \<Rightarrow> string set" where
  "names ds = fst ` set ds \<union> (\<Union>d\<in>snd ` set ds. set (dv_neighbors d))"

definition fresh :: "devices \<Rightarrow> string \<Rightarrow> string list \<Rightarrow> string list \<Rightarrow> string list" where
  "fresh ds site seen ns = foldl (\<lambda>acc n. if n \<in> set seen \<or> n \<in> set acc \<or> \<not> site_match ds site n then acc else acc @ [n]) [] ns"

lemma fresh_snoc:
  "fresh ds site seen (ns @ [n]) =
     (if n \<in> set seen \<or> n \<in> set (fresh ds site seen ns) \<or> \<not> site_match ds site n
      then fresh ds site seen ns else fresh ds site seen ns @ [n])"
  by (simp add: fresh_def)

lemma fresh_set: "set (fresh ds site seen ns) = {n \<in> set ns. n \<notin> set seen \<and> site_match ds site n}"
  by (induction ns rule: rev_induct) (auto simp: fresh_snoc fresh_def)

lemma fresh_distinct: "distinct (fresh ds site seen ns)"
  by (induction ns rule: rev_induct) (auto simp: fresh_snoc fresh_def)

lemma visit_fold:
  "foldl (visit ds site path) (queue, seen) ns =
     (queue @ map (\<lambda>n. (n, path @ [n])) (fresh ds site seen ns), seen @ fresh ds site seen ns)"
  by (induction ns rule: rev_induct) (auto simp: fresh_snoc visit_def, auto simp: fresh_def)

lemma finite_names [simp]: "finite (names ds)"
  by (simp add: names_def)

lemma neighbor_names: "map_of ds node = Some d \<Longrightarrow> n \<in> set (dv_neighbors d) \<Longrightarrow> n \<in> names ds"
  by (force simp: names_def dest: map_of_SomeD)

lemma search_measure:
  assumes "map_of ds node = Some d"
  shows "2 * card (names ds - (set seen \<union> set (fresh ds site seen (dv_neighbors d)))) +
           length (fresh ds site seen (dv_neighbors d)) \<le> 2 * card (names ds - set seen)"
proof -
  let ?f = "fresh ds site seen (dv_neighbors d)"
  have "set ?f \<subseteq> names ds - set seen" using neighbor_names[OF assms] by (auto simp: fresh_set)
  then have "card (names ds - set seen - set ?f) = card (names ds - set seen) - card (set ?f)"
    "card (set ?f) \<le> card (names ds - set seen)"
    by (simp_all add: card_Diff_subset card_mono)
  then show ?thesis using fresh_distinct[of ds site seen "dv_neighbors d"]
    by (simp add: distinct_card Diff_eq Int_commute Int_left_commute Compl_Un Int_assoc)
qed

function bfs ::
  "devices \<Rightarrow> string \<Rightarrow> string \<Rightarrow> (string \<times> string list) list \<Rightarrow> string list \<Rightarrow> string list option res" where
  "bfs ds site target [] seen = Inr None"
| "bfs ds site target ((node, path) # queue) seen =
     (if node = target then Inr (Some path)
      else case map_of ds node of
             None \<Rightarrow> Inl KeyError
           | Some d \<Rightarrow>
               (case foldl (visit ds site path) (queue, seen) (dv_neighbors d) of
                  (queue', seen') \<Rightarrow> bfs ds site target queue' seen'))"
  by pat_completeness auto
termination
proof (relation "measure (\<lambda>(ds, site, target, queue, seen). 2 * card (names ds - set seen) + length queue)",
    goal_cases)
  case (2 ds site target node path queue seen d queue' seen')
  then show ?case using search_measure[of ds node d seen site] by (auto simp: visit_fold)
qed simp

definition path_trace :: "devices \<Rightarrow> string \<Rightarrow> string \<Rightarrow> string \<Rightarrow> string list option res" where
  "path_trace ds site0 source target =
     (let site = strip site0
      in if \<not> site_match ds site source \<or> \<not> site_match ds site target then Inr None
         else if map_of ds source = None \<or> map_of ds target = None then Inr None
         else bfs ds site target [(source, [source])] [source])"

section \<open>Neighbours and zones\<close>

record impact =
  im_device :: string
  im_zone :: string

definition zone_of :: "devices \<Rightarrow> string \<Rightarrow> string res" where
  "zone_of ds name = (case map_of ds name of None \<Rightarrow> Inl KeyError | Some d \<Rightarrow> Inr (dv_zone d))"

definition blast_radius :: "devices \<Rightarrow> string \<Rightarrow> string \<Rightarrow> impact list res" where
  "blast_radius ds site0 name =
     (let site = strip site0
      in case map_of ds name of
           None \<Rightarrow> Inr []
         | Some d \<Rightarrow>
             if \<not> site_match ds site name then Inr []
             else fold_res (\<lambda>acc n. res_bind (zone_of ds n) (\<lambda>z. Inr (acc @ [\<lparr>im_device = n, im_zone = z\<rparr>]))) []
               (filter (site_match ds site) (dv_neighbors d)))"

record boundary =
  bd_source_zone :: string
  bd_dest_zone :: string
  bd_crosses :: bool

definition security_boundary :: "devices \<Rightarrow> string \<Rightarrow> string \<Rightarrow> string \<Rightarrow> boundary option" where
  "security_boundary ds site0 source target =
     (let site = strip site0
      in case (map_of ds source, map_of ds target) of
           (Some a, Some b) \<Rightarrow>
             if site_match ds site source \<and> site_match ds site target
             then Some \<lparr>bd_source_zone = dv_zone a, bd_dest_zone = dv_zone b, bd_crosses = (dv_zone a \<noteq> dv_zone b)\<rparr>
             else None
         | _ \<Rightarrow> None)"

section \<open>Stores and site views\<close>

text \<open>The operations of the protocol \<open>TopologyStore\<close>.\<close>

record topology =
  tp_known :: "string list"
  tp_ip :: "string \<Rightarrow> string option"
  tp_path :: "string \<Rightarrow> string \<Rightarrow> string list option res"
  tp_blast :: "string \<Rightarrow> impact list res"
  tp_boundary :: "string \<Rightarrow> string \<Rightarrow> boundary option"

definition memory_topology :: "devices \<Rightarrow> string \<Rightarrow> topology" where
  "memory_topology ds site =
     \<lparr>tp_known = known_devices ds site, tp_ip = device_ip ds site, tp_path = path_trace ds site,
      tp_blast = blast_radius ds site, tp_boundary = security_boundary ds site\<rparr>"

text \<open>\<open>SiteScopedTopology\<close>, for a store without sites of its own.\<close>

definition wrapped_known :: "topology \<Rightarrow> string \<Rightarrow> string list" where
  "wrapped_known inner site =
     (if site = [] then tp_known inner
      else sort (filter (\<lambda>n. tp_ip inner n \<noteq> None \<or> n \<in> set (tp_known inner)) (tp_known inner)))"

definition wrap_topology :: "topology \<Rightarrow> string \<Rightarrow> topology" where
  "wrap_topology inner site =
     (let known = set (wrapped_known inner site)
      in \<lparr>tp_known = wrapped_known inner site, tp_ip = tp_ip inner,
          tp_path = (\<lambda>a b. if a \<in> known \<and> b \<in> known then tp_path inner a b else Inr None),
          tp_blast = (\<lambda>a. if a \<in> known
             then res_bind (tp_blast inner a) (\<lambda>is. Inr (filter (\<lambda>i. im_device i \<in> known) is)) else Inr []),
          tp_boundary = (\<lambda>a b. if a \<in> known \<and> b \<in> known then tp_boundary inner a b else None)\<rparr>)"

text \<open>The classes a store can be of. The graph database answers per site: its own one without an
  argument.\<close>

datatype store =
    Memory devices
  | Memory_view devices string
  | Neo "string \<Rightarrow> topology" string
  | Neo_view "string \<Rightarrow> topology" string
  | Other topology
  | Wrapped topology string

fun topology_of :: "store \<Rightarrow> topology" where
  "topology_of (Memory ds) = memory_topology ds []"
| "topology_of (Memory_view ds site) = memory_topology ds site"
| "topology_of (Neo db site) = db site"
| "topology_of (Neo_view db site) = db site"
| "topology_of (Other t) = t"
| "topology_of (Wrapped t site) = wrap_topology t site"

definition scoped_topology :: "store \<Rightarrow> string \<Rightarrow> store" where
  "scoped_topology st site0 =
     (let site = strip site0
      in if site = [] then st
         else case st of
                Wrapped t _ \<Rightarrow> Wrapped t site
              | Memory_view ds _ \<Rightarrow> Memory_view ds site
              | Neo_view db _ \<Rightarrow> Neo_view db site
              | Neo db own \<Rightarrow> if own = site then st else Neo_view db site
              | Memory ds \<Rightarrow> Memory_view ds site
              | Other t \<Rightarrow> Wrapped t site)"

section \<open>Walks\<close>

text \<open>The links the search follows, and the walks along them.\<close>

definition link :: "devices \<Rightarrow> string \<Rightarrow> string \<Rightarrow> string \<Rightarrow> bool" where
  "link ds site a b = (\<exists>d. map_of ds a = Some d \<and> b \<in> set (dv_neighbors d) \<and> site_match ds site b)"

definition walk :: "devices \<Rightarrow> string \<Rightarrow> string \<Rightarrow> string \<Rightarrow> string list \<Rightarrow> bool" where
  "walk ds site a b p = (p \<noteq> [] \<and> hd p = a \<and> last p = b \<and> successively (link ds site) p)"

text \<open>Every neighbour is a device of the inventory.\<close>

definition links_closed :: "devices \<Rightarrow> bool" where
  "links_closed ds = (\<forall>d\<in>snd ` set ds. set (dv_neighbors d) \<subseteq> fst ` set ds)"

lemma walk_snoc: "walk ds site a b p \<Longrightarrow> link ds site b c \<Longrightarrow> walk ds site a c (p @ [c])"
  by (auto simp: walk_def successively_append_iff)

lemma walk_prefix: "walk ds site a b (xs @ u # w # ys) \<Longrightarrow> walk ds site a u (xs @ [u])"
  using successively_append_iff[of "link ds site" "xs @ [u]" "w # ys"] by (cases xs) (auto simp: walk_def)

text \<open>A walk that ends outside a set it starts in leaves it along a link.\<close>

lemma walk_leaves:
  assumes "walk ds site a b p" and "a \<in> S" and "b \<notin> S"
  obtains xs u w ys where "p = xs @ u # w # ys" "u \<in> S" "w \<notin> S" "link ds site u w"
proof -
  have "\<exists>xs u w ys. p = xs @ u # w # ys \<and> u \<in> S \<and> w \<notin> S \<and> link ds site u w"
    using assms
  proof (induction p arbitrary: a)
    case (Cons x p)
    show ?case
    proof (cases p)
      case Nil
      then show ?thesis using Cons.prems by (auto simp: walk_def)
    next
      case p: (Cons y q)
      then have x: "x = a" and link: "link ds site a y" and rest: "walk ds site y b p"
        using Cons.prems(1) by (auto simp: walk_def)
      show ?thesis
      proof (cases "y \<in> S")
        case True
        from Cons.IH[OF rest this Cons.prems(3)] obtain xs u w ys
          where "p = xs @ u # w # ys" "u \<in> S" "w \<notin> S" "link ds site u w" by blast
        then show ?thesis by (intro exI[of _ "x # xs"]) auto
      next
        case False
        then show ?thesis using p x link Cons.prems(2)
          by (intro exI[of _ "[]"] exI[of _ a] exI[of _ y] exI[of _ q]) simp
      qed
    qed
  qed (simp add: walk_def)
  then show thesis using that by blast
qed

section \<open>The search is breadth first\<close>

definition shortest :: "devices \<Rightarrow> string \<Rightarrow> string \<Rightarrow> string \<Rightarrow> string list \<Rightarrow> bool" where
  "shortest ds site a b p = (walk ds site a b p \<and> (\<forall>q. walk ds site a b q \<longrightarrow> length p \<le> length q))"

definition search_inv ::
  "devices \<Rightarrow> string \<Rightarrow> string \<Rightarrow> string \<Rightarrow> (string \<times> string list) list \<Rightarrow> string list \<Rightarrow> bool" where
  "search_inv ds site a target queue seen =
     (a \<in> set seen \<and> fst ` set queue \<subseteq> set seen \<and>
      (\<forall>(v, p)\<in>set queue. shortest ds site a v p) \<and>
      sorted (map (length \<circ> snd) queue) \<and>
      (\<forall>(v, p)\<in>set queue. length p \<le> length (snd (hd queue)) + 1) \<and>
      (\<forall>u\<in>set seen. u \<in> fst ` set queue \<or> u \<noteq> target \<and> (\<forall>w. link ds site u w \<longrightarrow> w \<in> set seen)))"

text \<open>While the search runs, a walk to a device that has not been seen is longer than the path at the
  head of the queue.\<close>

lemma unseen_is_far:
  assumes inv: "search_inv ds site a target ((v, p) # queue) seen" and w: "w \<notin> set seen" "walk ds site a w q"
  shows "length p + 1 \<le> length q"
proof -
  have a: "a \<in> set seen" using inv by (simp add: search_inv_def)
  obtain xs u x ys where q: "q = xs @ u # x # ys" and u: "u \<in> set seen" "x \<notin> set seen" "link ds site u x"
    by (rule walk_leaves[OF w(2) a w(1)])
  then have "u \<in> fst ` set ((v, p) # queue)" using inv by (auto simp: search_inv_def)
  then obtain pu where pu: "(u, pu) \<in> set ((v, p) # queue)" by force
  then have "length p \<le> length pu" "shortest ds site a u pu"
    using inv by (auto simp: search_inv_def)
  moreover have "walk ds site a u (xs @ [u])" using w(2) walk_prefix by (simp add: q)
  ultimately have "length p \<le> length (xs @ [u])" by (force simp: shortest_def)
  then show ?thesis by (simp add: q)
qed

lemma search_step:
  assumes inv: "search_inv ds site a target ((v, p) # queue) seen" and v: "v \<noteq> target" "map_of ds v = Some d"
  shows "search_inv ds site a target
    (queue @ map (\<lambda>n. (n, p @ [n])) (fresh ds site seen (dv_neighbors d)))
    (seen @ fresh ds site seen (dv_neighbors d))"
proof -
  let ?f = "fresh ds site seen (dv_neighbors d)"
  have f: "n \<in> set ?f \<longleftrightarrow> link ds site v n \<and> n \<notin> set seen" for n using v(2) by (auto simp: fresh_set link_def)
  have p: "shortest ds site a v p" using inv by (simp add: search_inv_def)
  have new: "shortest ds site a n (p @ [n])" if "n \<in> set ?f" for n
    using that p unseen_is_far[OF inv] walk_snoc[of ds site a v p n] by (auto simp: shortest_def f)
  have len: "\<forall>(u, q)\<in>set queue. length p \<le> length q \<and> length q \<le> length p + 1"
    using inv by (auto simp: search_inv_def)
  have sorted: "sorted (map (length \<circ> snd) queue)" using inv by (simp add: search_inv_def)
  have "sorted (map (length \<circ> snd) (queue @ map (\<lambda>n. (n, p @ [n])) ?f))"
  proof -
    have const: "map (length \<circ> snd) (map (\<lambda>n. (n, p @ [n])) ?f) = replicate (length ?f) (length p + 1)"
      by (auto simp: comp_def intro: replicate_eqI)
    show ?thesis
      using sorted len by (simp only: map_append const) (auto simp: sorted_append)
  qed
  moreover have "\<forall>(u, q)\<in>set (queue @ map (\<lambda>n. (n, p @ [n])) ?f).
      length q \<le> length (snd (hd (queue @ map (\<lambda>n. (n, p @ [n])) ?f))) + 1"
  proof (cases queue)
    case Nil
    then show ?thesis by (cases ?f) auto
  next
    case (Cons x xs)
    then have "length p \<le> length (snd x)" using len by (cases x) auto
    then show ?thesis using len Cons by auto
  qed
  moreover have "\<forall>u\<in>set (seen @ ?f). u \<in> fst ` set (queue @ map (\<lambda>n. (n, p @ [n])) ?f) \<or>
      u \<noteq> target \<and> (\<forall>w. link ds site u w \<longrightarrow> w \<in> set (seen @ ?f))"
  proof
    fix u assume "u \<in> set (seen @ ?f)"
    then consider "u \<in> set ?f" | "u = v" | "u \<in> set seen" "u \<noteq> v" by auto
    then show "u \<in> fst ` set (queue @ map (\<lambda>n. (n, p @ [n])) ?f) \<or>
      u \<noteq> target \<and> (\<forall>w. link ds site u w \<longrightarrow> w \<in> set (seen @ ?f))"
    proof cases
      case 1
      then show ?thesis by (auto simp: image_Un image_image)
    next
      case 2
      then show ?thesis using v(1) f by auto
    next
      case 3
      then show ?thesis using inv by (auto simp: search_inv_def)
    qed
  qed
  moreover have "\<forall>(u, q)\<in>set (queue @ map (\<lambda>n. (n, p @ [n])) ?f). shortest ds site a u q"
    using new inv by (auto simp: search_inv_def)
  ultimately show ?thesis using inv by (auto simp: search_inv_def)
qed

lemma link_known: "links_closed ds \<Longrightarrow> link ds site a b \<Longrightarrow> map_of ds b \<noteq> None"
proof -
  assume closed: "links_closed ds" and "link ds site a b"
  then obtain d where "(a, d) \<in> set ds" "b \<in> set (dv_neighbors d)" by (auto simp: link_def dest: map_of_SomeD)
  then have "b \<in> fst ` set ds" using closed by (force simp: links_closed_def)
  then show ?thesis by (simp add: map_of_eq_None_iff)
qed

lemma bfs_correct:
  assumes "search_inv ds site a target queue seen" and "links_closed ds" and "\<forall>u\<in>fst ` set queue. map_of ds u \<noteq> None"
  shows "(\<exists>p. bfs ds site target queue seen = Inr (Some p) \<and> shortest ds site a target p) \<or>
    bfs ds site target queue seen = Inr None \<and> (\<nexists>p. walk ds site a target p)"
  using assms
proof (induction ds site target queue seen rule: bfs.induct)
  case (1 ds site target seen)
  have "\<not> walk ds site a target p" for p
  proof
    assume w: "walk ds site a target p"
    have "target \<notin> set seen" "a \<in> set seen" using 1(1) by (auto simp: search_inv_def)
    with walk_leaves[OF w, of "set seen"] 1(1) show False by (auto simp: search_inv_def)
  qed
  then show ?case by simp
next
  case (2 ds site target node path queue seen)
  show ?case
  proof (cases "node = target")
    case True
    then show ?thesis using 2(2) by (simp add: search_inv_def)
  next
    case False
    obtain d where d: "map_of ds node = Some d" using 2(4) by auto
    let ?f = "fresh ds site seen (dv_neighbors d)"
    have "\<forall>u\<in>set ?f. map_of ds u \<noteq> None"
      using link_known[OF 2(3), of site node] d by (auto simp: fresh_set link_def)
    then have "\<forall>u\<in>fst ` set (queue @ map (\<lambda>n. (n, path @ [n])) ?f). map_of ds u \<noteq> None"
      using 2(4) by auto
    from 2(1)[OF False d visit_fold[symmetric] search_step[OF 2(2) False d] 2(3) this]
    show ?thesis using False d by (simp add: visit_fold)
  qed
qed

lemma path_trace_correct:
  assumes "links_closed ds" and "map_of ds a \<noteq> None" and "map_of ds b \<noteq> None"
    and "site_match ds (strip site) a" and "site_match ds (strip site) b"
  shows "(\<exists>p. path_trace ds site a b = Inr (Some p) \<and> shortest ds (strip site) a b p) \<or>
    path_trace ds site a b = Inr None \<and> (\<nexists>p. walk ds (strip site) a b p)"
proof -
  have "search_inv ds (strip site) a b [(a, [a])] [a]"
    by (auto simp: search_inv_def shortest_def walk_def Suc_le_eq)
  note bfs_correct[OF this assms(1)]
  moreover have "path_trace ds site a b = bfs ds (strip site) b [(a, [a])] [a]"
    using assms by (auto simp: path_trace_def Let_def simp del: bfs.simps)
  ultimately show ?thesis using assms(2) by simp
qed

lemma walk_in_site:
  assumes "walk ds site a b p" and "site_match ds site a" and "n \<in> set p"
  shows "site_match ds site n"
  using assms
proof (induction p arbitrary: a)
  case (Cons x p)
  then show ?case by (cases p) (auto simp: walk_def link_def)
qed simp

lemma impacts_of:
  "fold_res (\<lambda>acc n. res_bind (zone_of ds n) (\<lambda>z. Inr (acc @ [\<lparr>im_device = n, im_zone = z\<rparr>]))) acc ns = Inr is \<Longrightarrow>
     im_device ` set is = im_device ` set acc \<union> set ns"
proof (induction ns arbitrary: acc)
  case (Cons n ns)
  then obtain z where "fold_res (\<lambda>acc n. res_bind (zone_of ds n) (\<lambda>z. Inr (acc @ [\<lparr>im_device = n, im_zone = z\<rparr>])))
      (acc @ [\<lparr>im_device = n, im_zone = z\<rparr>]) ns = Inr is"
    by (auto simp: res_bind_Inr)
  from Cons.IH[OF this] show ?case by auto
qed simp

section \<open>Properties\<close>

text \<open>C16. A path trace ends, and finds a shortest path: in an inventory whose links lead to known devices it
  never raises, returns a walk inside the site that no other walk between the two devices
  undercuts, and returns nothing exactly when no walk joins them.\<close>

theorem path_trace_shortest:
  assumes "links_closed ds" and "map_of ds a \<noteq> None" and "map_of ds b \<noteq> None"
    and "site_match ds (strip site) a" and "site_match ds (strip site) b"
  shows "(\<exists>p. path_trace ds site a b = Inr (Some p) \<and> walk ds (strip site) a b p \<and>
      (\<forall>q. walk ds (strip site) a b q \<longrightarrow> length p \<le> length q)) \<or>
    path_trace ds site a b = Inr None \<and> (\<nexists>p. walk ds (strip site) a b p)"
  using path_trace_correct[OF assms] by (simp add: shortest_def)

lemma lab_links_closed: "links_closed lab_devices"
  by (simp add: links_closed_def lab_devices_def)

lemma path_trace_shortest_witness:
  "\<exists>p. path_trace lab_devices [] ''Web_App'' ''DB_Primary'' = Inr (Some p) \<and> length p = 5 \<and>
     \<not> (\<exists>q. walk lab_devices [] ''Web_App'' ''DB_Primary'' q \<and> length q < 5)"
proof -
  have p: "path_trace lab_devices [] ''Web_App'' ''DB_Primary'' =
      Inr (Some [''Web_App'', ''SW_DMZ'', ''FW_Edge'', ''SW_TRUST'', ''DB_Primary''])" by code_simp
  moreover have "strip [] = []" by (simp add: strip_def lstrip_def rstrip_def)
  ultimately show ?thesis
    using path_trace_shortest[OF lab_links_closed, of "''Web_App''" "''DB_Primary''" "[]"]
    by (auto simp: lab_devices_def site_match_def not_less)
qed

text \<open>C32. A view of the in-memory inventory limited to a site, whichever site it was limited to before, never
  shows a device of another site: every device it lists, has an address for or compares the zones of, every
  neighbour it reports and every hop of a path it traces has that site or none.\<close>

theorem site_view_contained:
  assumes "strip site \<noteq> []" and "s \<in> {Memory ds, Memory_view ds old}" and "t = topology_of (scoped_topology s site)"
  shows "(\<forall>n\<in>set (tp_known t). site_match ds (strip site) n) \<and>
    (\<forall>n. tp_ip t n \<noteq> None \<longrightarrow> site_match ds (strip site) n) \<and>
    (\<forall>a b. tp_boundary t a b \<noteq> None \<longrightarrow> site_match ds (strip site) a \<and> site_match ds (strip site) b) \<and>
    (\<forall>n i is. tp_blast t n = Inr is \<and> i \<in> set is \<longrightarrow> site_match ds (strip site) (im_device i)) \<and>
    (\<forall>a b p n. links_closed ds \<and> tp_path t a b = Inr (Some p) \<and> n \<in> set p \<longrightarrow> site_match ds (strip site) n)"
proof -
  have t: "t = memory_topology ds (strip site)" using assms by (auto simp: scoped_topology_def)
  have blast: "\<forall>i\<in>set is. site_match ds (strip site) (im_device i)" if "tp_blast t n = Inr is" for n "is"
    using that by (auto simp: t memory_topology_def blast_radius_def Let_def
        split: option.splits if_splits dest!: impacts_of)
  have path: "\<forall>n\<in>set p. site_match ds (strip site) n"
    if closed: "links_closed ds" and p: "tp_path t a b = Inr (Some p)" for a b p
  proof -
    have pt: "path_trace ds (strip site) a b = Inr (Some p)" using p by (simp add: t memory_topology_def)
    then have ab: "map_of ds a \<noteq> None" "map_of ds b \<noteq> None" "site_match ds (strip site) a" "site_match ds (strip site) b"
      by (auto simp: path_trace_def Let_def split: if_splits)
    have "walk ds (strip site) a b p"
      using path_trace_correct[OF closed ab(1,2), of "strip site"] ab(3,4) pt by (simp add: shortest_def)
    then show ?thesis using walk_in_site ab(3) by blast
  qed
  have "\<forall>n\<in>set (tp_known t). site_match ds (strip site) n"
    by (simp add: t memory_topology_def known_devices_def)
  moreover have "\<forall>n. tp_ip t n \<noteq> None \<longrightarrow> site_match ds (strip site) n"
    by (simp add: t memory_topology_def device_ip_def)
  moreover have "\<forall>a b. tp_boundary t a b \<noteq> None \<longrightarrow> site_match ds (strip site) a \<and> site_match ds (strip site) b"
    by (auto simp: t memory_topology_def security_boundary_def Let_def split: option.splits if_splits)
  ultimately show ?thesis using blast path by blast
qed

definition two_sites :: devices where
  "two_sites = map (\<lambda>(n, d). (n, d\<lparr>dv_site := if dv_zone d = ''DMZ'' then ''hq'' else ''dc''\<rparr>)) lab_devices"

lemma site_view_contained_witness:
  "tp_known (topology_of (scoped_topology (Memory two_sites) ''hq'')) = [''FW_Edge'', ''SW_DMZ'', ''Web_App''] \<and>
     list_all (site_match two_sites ''hq'') (tp_known (topology_of (scoped_topology (Memory two_sites) ''hq'')))"
proof
  show "tp_known (topology_of (scoped_topology (Memory two_sites) ''hq'')) = [''FW_Edge'', ''SW_DMZ'', ''Web_App'']"
    by code_simp
  have "strip ''hq'' = ''hq''" by (simp add: strip_def lstrip_def rstrip_def is_space_def)
  then show "list_all (site_match two_sites ''hq'') (tp_known (topology_of (scoped_topology (Memory two_sites) ''hq'')))"
    using site_view_contained[of "''hq''" "Memory two_sites" two_sites "[]", OF _ _ refl] by (simp add: list_all_iff)
qed

end
