(* ===== verification/Jobs.thy ===== *)
theory Jobs
  imports Prelude
begin

text \<open>
  \<open>app/jobs/store.py\<close> and \<open>app/jobs/dispatcher.py\<close>: the leased job queue, once as the SQL table
  (a list of rows, each statement a function on it) and once as the in-memory dispatcher, and the
  contract both meet as a locale. Times are integers in one unit: the code only adds and compares
  them. Statements run in their own transaction, so an operation is one step.
\<close>

section \<open>Jobs\<close>

datatype job_kind = KStart | KResume

datatype job_status = Queued | Running | Succeeded | Dead

record job =
  jb_id :: int
  jb_kind :: job_kind
  jb_thread :: string
  jb_key :: string
  jb_payload :: json
  jb_status :: job_status
  jb_attempts :: int
  jb_max_attempts :: int
  jb_last_error :: string
  jb_available_at :: int
  jb_lease_owner :: "string option"
  jb_lease_expires :: "int option"

definition new_job :: "int \<Rightarrow> job_kind \<Rightarrow> string \<Rightarrow> string \<Rightarrow> json \<Rightarrow> int \<Rightarrow> int \<Rightarrow> job" where
  "new_job i kind thread key payload max_attempts available =
     \<lparr>jb_id = i, jb_kind = kind, jb_thread = thread, jb_key = key, jb_payload = payload,
      jb_status = Queued, jb_attempts = 0, jb_max_attempts = max_attempts, jb_last_error = [],
      jb_available_at = available, jb_lease_owner = None, jb_lease_expires = None\<rparr>"

definition start_key :: "string \<Rightarrow> string" where
  "start_key thread = ''start:'' @ thread"

definition resume_key :: "string \<Rightarrow> string \<Rightarrow> string" where
  "resume_key thread approval_hash = ''resume:'' @ thread @ '':'' @ approval_hash"

definition is_active :: "job \<Rightarrow> bool" where
  "is_active j = (jb_status j = Queued \<or> jb_status j = Running)"

definition queue_depth :: "job list \<Rightarrow> int" where
  "queue_depth js = int (length (filter is_active js))"

definition update_job :: "int \<Rightarrow> (job \<Rightarrow> job) \<Rightarrow> job list \<Rightarrow> job list" where
  "update_job i f js = map (\<lambda>j. if jb_id j = i then f j else j) js"

definition lease_expired :: "int \<Rightarrow> job \<Rightarrow> bool" where
  "lease_expired now j = (jb_status j = Running \<and>
     (case jb_lease_expires j of None \<Rightarrow> False | Some t \<Rightarrow> t < now))"

definition expire :: "int \<Rightarrow> job \<Rightarrow> job" where
  "expire now j =
     (if lease_expired now j
      then j\<lparr>jb_status := Queued, jb_lease_owner := None, jb_lease_expires := None,
             jb_available_at := now,
             jb_last_error := if jb_last_error j = [] then ''lease expired'' else jb_last_error j\<rparr>
      else j)"

definition ready :: "int \<Rightarrow> job \<Rightarrow> bool" where
  "ready now j = (jb_status j = Queued \<and> jb_available_at j \<le> now)"

definition lease_to :: "string \<Rightarrow> int \<Rightarrow> int \<Rightarrow> job \<Rightarrow> job" where
  "lease_to worker lease now j = j\<lparr>jb_status := Running, jb_attempts := jb_attempts j + 1,
     jb_lease_owner := Some worker, jb_lease_expires := Some (now + lease), jb_last_error := []\<rparr>"

definition extend_lease :: "int \<Rightarrow> int \<Rightarrow> job \<Rightarrow> job" where
  "extend_lease lease now j = j\<lparr>jb_lease_expires := Some (now + lease)\<rparr>"

definition succeed :: "job \<Rightarrow> job" where
  "succeed j = j\<lparr>jb_status := Succeeded, jb_lease_owner := None, jb_lease_expires := None\<rparr>"

definition bury :: "string \<Rightarrow> job \<Rightarrow> job" where
  "bury error j = j\<lparr>jb_status := Dead, jb_lease_owner := None, jb_lease_expires := None,
     jb_last_error := take 2000 error\<rparr>"

definition requeue :: "string \<Rightarrow> int \<Rightarrow> job \<Rightarrow> job" where
  "requeue error available j = j\<lparr>jb_status := Queued, jb_lease_owner := None, jb_lease_expires := None,
     jb_last_error := take 2000 error, jb_available_at := available\<rparr>"

section \<open>The SQL table\<close>

text \<open>\<open>INSERT ... ON CONFLICT (dedupe_key)\<close>: the sequence advances whether or not a row is inserted.\<close>

record job_table =
  jt_rows :: "job list"
  jt_next :: int

definition sql_enqueue ::
  "job_kind \<Rightarrow> string \<Rightarrow> string \<Rightarrow> json \<Rightarrow> int \<Rightarrow> int \<Rightarrow> job_table \<Rightarrow> (int \<times> bool) \<times> job_table" where
  "sql_enqueue kind thread key payload max_attempts now t =
     (case List.find (\<lambda>j. jb_key j = key) (jt_rows t) of
        Some j \<Rightarrow> ((jb_id j, False), t\<lparr>jt_next := jt_next t + 1\<rparr>)
      | None \<Rightarrow> ((jt_next t, True),
          t\<lparr>jt_rows := jt_rows t @ [new_job (jt_next t) kind thread key payload max_attempts now],
            jt_next := jt_next t + 1\<rparr>))"

definition sql_reclaim_expired :: "int \<Rightarrow> job list \<Rightarrow> int \<times> job list" where
  "sql_reclaim_expired now js = (int (length (filter (lease_expired now) js)), map (expire now) js)"

definition sql_claim_next :: "string \<Rightarrow> int \<Rightarrow> int \<Rightarrow> job list \<Rightarrow> job option \<times> job list" where
  "sql_claim_next worker lease now js =
     (case List.find (ready now) (sort_key jb_id js) of
        None \<Rightarrow> (None, js)
      | Some j \<Rightarrow> (Some (lease_to worker lease now j), update_job (jb_id j) (lease_to worker lease now) js))"

definition sql_heartbeat :: "int \<Rightarrow> string \<Rightarrow> int \<Rightarrow> int \<Rightarrow> job list \<Rightarrow> bool \<times> job list" where
  "sql_heartbeat i worker lease now js =
     (let hit = (\<lambda>j. jb_id j = i \<and> jb_status j = Running \<and> jb_lease_owner j = Some worker)
      in (list_ex hit js, map (\<lambda>j. if hit j then extend_lease lease now j else j) js))"

definition sql_complete :: "int \<Rightarrow> job list \<Rightarrow> job list" where
  "sql_complete i js = update_job i succeed js"

text \<open>\<open>fail_job\<close>: the decision is made on the job as it was when it was claimed.\<close>

definition sql_fail :: "job \<Rightarrow> string \<Rightarrow> int \<Rightarrow> int \<Rightarrow> job list \<Rightarrow> job_status \<times> job list" where
  "sql_fail j error delay now js =
     (if jb_attempts j \<ge> jb_max_attempts j
      then (Dead, update_job (jb_id j) (bury error) js)
      else (Queued, update_job (jb_id j) (requeue error (now + delay)) js))"

definition latest_job :: "string \<Rightarrow> job list \<Rightarrow> job option" where
  "latest_job thread js = (case rev (sort_key jb_id (filter (\<lambda>j. jb_thread j = thread) js)) of
     [] \<Rightarrow> None | j # _ \<Rightarrow> Some j)"

definition latest_error :: "string \<Rightarrow> job list \<Rightarrow> string" where
  "latest_error thread js = (case latest_job thread js of
     None \<Rightarrow> [] | Some j \<Rightarrow> if jb_status j = Dead then jb_last_error j else [])"

section \<open>\<open>PostgresDispatcher\<close>\<close>

record pg_queue = job_table +
  pg_capacity :: int
  pg_max_attempts :: int

definition queue_full :: "int \<Rightarrow> int \<Rightarrow> py_exn" where
  "queue_full depth capacity = RuntimeError (''investigation queue is full ('' @ show_int depth @ ''/''
     @ show_int capacity @ '')'')"

definition pg_enqueue ::
  "job_kind \<Rightarrow> string \<Rightarrow> string \<Rightarrow> json \<Rightarrow> int \<Rightarrow> pg_queue \<Rightarrow> (int \<times> bool) res \<times> pg_queue" where
  "pg_enqueue kind thread key payload now q =
     (if (\<forall>j\<in>set (jt_rows q). jb_key j \<noteq> key) \<and> queue_depth (jt_rows q) \<ge> pg_capacity q
      then (Inl (queue_full (queue_depth (jt_rows q)) (pg_capacity q)), q)
      else case sql_enqueue kind thread key payload (pg_max_attempts q) now (job_table.truncate q) of
             (r, t) \<Rightarrow> (Inr r, q\<lparr>jt_rows := jt_rows t, jt_next := jt_next t\<rparr>))"

definition pg_claim :: "string \<Rightarrow> int \<Rightarrow> int \<Rightarrow> pg_queue \<Rightarrow> job option \<times> pg_queue" where
  "pg_claim worker lease now q =
     (case sql_claim_next worker lease now (snd (sql_reclaim_expired now (jt_rows q))) of
        (r, js) \<Rightarrow> (r, q\<lparr>jt_rows := js\<rparr>))"

definition pg_heartbeat :: "int \<Rightarrow> string \<Rightarrow> int \<Rightarrow> int \<Rightarrow> pg_queue \<Rightarrow> bool \<times> pg_queue" where
  "pg_heartbeat i worker lease now q =
     (case sql_heartbeat i worker lease now (jt_rows q) of (r, js) \<Rightarrow> (r, q\<lparr>jt_rows := js\<rparr>))"

definition pg_complete :: "int \<Rightarrow> pg_queue \<Rightarrow> unit res \<times> pg_queue" where
  "pg_complete i q = (Inr (), q\<lparr>jt_rows := sql_complete i (jt_rows q)\<rparr>)"

definition pg_fail :: "job \<Rightarrow> string \<Rightarrow> int \<Rightarrow> int \<Rightarrow> pg_queue \<Rightarrow> job_status res \<times> pg_queue" where
  "pg_fail j error delay now q =
     (case sql_fail j error delay now (jt_rows q) of (r, js) \<Rightarrow> (Inr r, q\<lparr>jt_rows := js\<rparr>))"

definition pg_reclaim_expired :: "int \<Rightarrow> pg_queue \<Rightarrow> int \<times> pg_queue" where
  "pg_reclaim_expired now q =
     (case sql_reclaim_expired now (jt_rows q) of (n, js) \<Rightarrow> (n, q\<lparr>jt_rows := js\<rparr>))"

section \<open>\<open>InMemoryDispatcher\<close>\<close>

text \<open>The dict \<open>_jobs\<close> in insertion order, \<open>_by_key\<close>, and the counter \<open>_ids\<close>.\<close>

record mem_queue =
  mq_jobs :: "job list"
  mq_by_key :: "(string \<times> int) list"
  mq_next :: int
  mq_capacity :: int
  mq_max_attempts :: int

definition mem_enqueue ::
  "job_kind \<Rightarrow> string \<Rightarrow> string \<Rightarrow> json \<Rightarrow> mem_queue \<Rightarrow> (int \<times> bool) res \<times> mem_queue" where
  "mem_enqueue kind thread key payload q =
     (case map_of (mq_by_key q) key of
        Some i \<Rightarrow> (Inr (i, False), q)
      | None \<Rightarrow>
          if queue_depth (mq_jobs q) \<ge> mq_capacity q
          then (Inl (queue_full (queue_depth (mq_jobs q)) (mq_capacity q)), q)
          else (Inr (mq_next q, True),
            q\<lparr>mq_jobs := mq_jobs q @ [new_job (mq_next q) kind thread key payload (mq_max_attempts q) 0],
              mq_by_key := al_put key (mq_next q) (mq_by_key q), mq_next := mq_next q + 1\<rparr>))"

definition mem_claim :: "string \<Rightarrow> int \<Rightarrow> int \<Rightarrow> mem_queue \<Rightarrow> job option \<times> mem_queue" where
  "mem_claim worker lease now q =
     (let js = map (expire now) (mq_jobs q)
      in case List.find (ready now) (sort_key jb_id js) of
           None \<Rightarrow> (None, q\<lparr>mq_jobs := js\<rparr>)
         | Some j \<Rightarrow> (Some (lease_to worker lease now j),
             q\<lparr>mq_jobs := update_job (jb_id j) (lease_to worker lease now) js\<rparr>))"

definition mem_heartbeat :: "int \<Rightarrow> string \<Rightarrow> int \<Rightarrow> int \<Rightarrow> mem_queue \<Rightarrow> bool \<times> mem_queue" where
  "mem_heartbeat i worker lease now q =
     (case List.find (\<lambda>j. jb_id j = i) (mq_jobs q) of
        None \<Rightarrow> (False, q)
      | Some j \<Rightarrow>
          if jb_status j \<noteq> Running \<or> jb_lease_owner j \<noteq> Some worker then (False, q)
          else (True, q\<lparr>mq_jobs := update_job i (extend_lease lease now) (mq_jobs q)\<rparr>))"

definition mem_complete :: "int \<Rightarrow> mem_queue \<Rightarrow> unit res \<times> mem_queue" where
  "mem_complete i q =
     (if list_ex (\<lambda>j. jb_id j = i) (mq_jobs q)
      then (Inr (), q\<lparr>mq_jobs := update_job i succeed (mq_jobs q)\<rparr>) else (Inl KeyError, q))"

definition mem_fail :: "job \<Rightarrow> string \<Rightarrow> int \<Rightarrow> int \<Rightarrow> mem_queue \<Rightarrow> job_status res \<times> mem_queue" where
  "mem_fail job error delay now q =
     (case List.find (\<lambda>j. jb_id j = jb_id job) (mq_jobs q) of
        None \<Rightarrow> (Inl KeyError, q)
      | Some stored \<Rightarrow>
          if jb_attempts stored \<ge> jb_max_attempts stored
          then (Inr Dead, q\<lparr>mq_jobs := update_job (jb_id job) (bury error) (mq_jobs q)\<rparr>)
          else (Inr Queued, q\<lparr>mq_jobs := update_job (jb_id job) (requeue error (now + delay)) (mq_jobs q)\<rparr>))"

text \<open>Unlike the SQL statement and unlike \<open>claim\<close>, \<open>reclaim_expired\<close> touches neither the time the job
  is available nor its error.\<close>

definition mem_expire :: "int \<Rightarrow> job \<Rightarrow> job" where
  "mem_expire now j = (if lease_expired now j
     then j\<lparr>jb_status := Queued, jb_lease_owner := None, jb_lease_expires := None\<rparr> else j)"

definition mem_reclaim_expired :: "int \<Rightarrow> mem_queue \<Rightarrow> int \<times> mem_queue" where
  "mem_reclaim_expired now q =
     (int (length (filter (lease_expired now) (mq_jobs q))), q\<lparr>mq_jobs := map (mem_expire now) (mq_jobs q)\<rparr>)"

definition mem_latest_error :: "string \<Rightarrow> mem_queue \<Rightarrow> string" where
  "mem_latest_error thread q = latest_error thread (mq_jobs q)"

text \<open>The table of execution results: \<open>INSERT ... DO NOTHING\<close>, and \<open>setdefault\<close> in memory.\<close>

definition put_execution :: "string \<Rightarrow> 'r \<Rightarrow> (string \<times> 'r) list \<Rightarrow> (string \<times> 'r) list" where
  "put_execution key r db = (if map_of db key = None then al_put key r db else db)"

section \<open>Worker heartbeats\<close>

text \<open>\<open>touch_worker\<close> and the worker part of \<open>health\<close>: the table of the SQL store and the dict of the
  in-memory dispatcher, whose cut-off is written the other way round.\<close>

record worker_row =
  wk_concurrency :: int
  wk_last_seen :: int
  wk_meta :: json

definition touch_worker ::
  "string \<Rightarrow> int \<Rightarrow> json \<Rightarrow> int \<Rightarrow> (string \<times> worker_row) list \<Rightarrow> (string \<times> worker_row) list" where
  "touch_worker worker concurrency meta now ws =
     al_put worker \<lparr>wk_concurrency = concurrency, wk_last_seen = now, wk_meta = meta\<rparr> ws"

record health =
  he_depth :: int
  he_capacity :: int
  he_saturated :: bool
  he_workers :: int
  he_live_workers :: int
  he_stale_workers :: int
  he_live :: "string list"

definition queue_health :: "job list \<Rightarrow> int \<Rightarrow> 'w list \<Rightarrow> string list \<Rightarrow> health" where
  "queue_health js capacity ws live =
     \<lparr>he_depth = queue_depth js, he_capacity = capacity, he_saturated = (queue_depth js \<ge> capacity),
      he_workers = int (length ws), he_live_workers = int (length live),
      he_stale_workers = int (length ws) - int (length live), he_live = live\<rparr>"

definition sql_health :: "int \<Rightarrow> int \<Rightarrow> (string \<times> worker_row) list \<Rightarrow> pg_queue \<Rightarrow> health" where
  "sql_health stale_after now ws q =
     queue_health (jt_rows q) (pg_capacity q) ws
       (map fst (filter (\<lambda>(_, w). wk_last_seen w \<ge> now - stale_after)
         (rev (sort_key (\<lambda>(_, w). wk_last_seen w) ws))))"

definition mem_health :: "int \<Rightarrow> int \<Rightarrow> (string \<times> worker_row) list \<Rightarrow> mem_queue \<Rightarrow> health" where
  "mem_health stale_after now ws q =
     queue_health (mq_jobs q) (mq_capacity q) ws
       (map fst (filter (\<lambda>(_, w). now - wk_last_seen w \<le> stale_after) ws))"

lemma health_agrees:
  assumes "mq_jobs m = jt_rows q" and "mq_capacity m = pg_capacity q"
  shows "he_live_workers (mem_health s now ws m) = he_live_workers (sql_health s now ws q)"
    and "set (he_live (mem_health s now ws m)) = set (he_live (sql_health s now ws q))"
    and "he_saturated (mem_health s now ws m) = he_saturated (sql_health s now ws q)"
proof -
  have cut: "(now - t \<le> s) = (t \<ge> now - s)" for t :: int by linarith
  have sorted: "filter P (rev (sort_key g ws)) = rev (sort_key g (filter P ws))"
    for P and g :: "string \<times> worker_row \<Rightarrow> int"
    by (simp add: rev_filter[symmetric] filter_sort)
  show "he_live_workers (mem_health s now ws m) = he_live_workers (sql_health s now ws q)"
    "set (he_live (mem_health s now ws m)) = set (he_live (sql_health s now ws q))"
    "he_saturated (mem_health s now ws m) = he_saturated (sql_health s now ws q)"
    using assms by (simp_all add: mem_health_def sql_health_def queue_health_def cut sorted)
qed

section \<open>The invariant\<close>

definition well_leased :: "job \<Rightarrow> bool" where
  "well_leased j = ((jb_status j = Running \<longleftrightarrow> jb_lease_owner j \<noteq> None) \<and>
     (jb_status j = Running \<longleftrightarrow> jb_lease_expires j \<noteq> None))"

definition queue_ok :: "job list \<Rightarrow> bool" where
  "queue_ok js = (distinct (map jb_id js) \<and> distinct (map jb_key js) \<and> (\<forall>j\<in>set js. well_leased j))"

text \<open>What every update of a job keeps.\<close>

definition keeps :: "(job \<Rightarrow> job) \<Rightarrow> bool" where
  "keeps f = (\<forall>j. jb_id (f j) = jb_id j \<and> jb_key (f j) = jb_key j \<and> (well_leased j \<longrightarrow> well_leased (f j)))"

named_theorems job_updates \<open>updates of a job keep its identity and its lease consistent\<close>

lemma keeps_updates [job_updates]:
  "keeps (expire now)" "keeps (mem_expire now)" "keeps (lease_to w l now)" "keeps succeed"
  "keeps (bury e)" "keeps (requeue e t)"
  by (auto simp: keeps_def well_leased_def expire_def mem_expire_def lease_to_def succeed_def bury_def requeue_def)

lemma id_updates [simp]: "jb_id (expire now j) = jb_id j" "jb_id (mem_expire now j) = jb_id j"
  "jb_id (lease_to w l now j) = jb_id j"
  using job_updates by (simp_all add: keeps_def)

lemma keeps_extend: "keeps (\<lambda>j. if jb_id j = i \<and> jb_status j = Running \<and> P j then extend_lease l now j else j)"
  by (auto simp: keeps_def well_leased_def extend_lease_def)

lemma keeps_map: "keeps f \<Longrightarrow> queue_ok js \<Longrightarrow> queue_ok (map f js)"
  by (simp add: queue_ok_def keeps_def o_def)

lemma keeps_if: "keeps f \<Longrightarrow> keeps (\<lambda>j. if P j then f j else j)"
  by (simp add: keeps_def)

lemma keeps_update: "keeps f \<Longrightarrow> queue_ok js \<Longrightarrow> queue_ok (update_job i f js)"
  unfolding update_job_def by (intro keeps_map keeps_if)

lemma ids_map: "keeps f \<Longrightarrow> jb_id ` f ` A = jb_id ` A"
  by (auto simp: keeps_def image_iff)

lemma keys_map: "keeps f \<Longrightarrow> map (\<lambda>j. (jb_key j, jb_id j)) (map f js) = map (\<lambda>j. (jb_key j, jb_id j)) js"
  by (simp add: keeps_def)

lemma ids_update: "keeps f \<Longrightarrow> map jb_id (update_job i f js) = map jb_id js"
  by (simp add: update_job_def keeps_def)

lemma keys_update: "keeps f \<Longrightarrow>
    map (\<lambda>j. (jb_key j, jb_id j)) (update_job i f js) = map (\<lambda>j. (jb_key j, jb_id j)) js"
  by (simp add: update_job_def keeps_def)

lemma update_missing: "i \<notin> jb_id ` set js \<Longrightarrow> update_job i f js = js"
  unfolding update_job_def by (rule map_idI) auto

lemma update_member:
  "j \<in> set js \<Longrightarrow> f j \<in> set (update_job (jb_id j) f js)"
  by (force simp: update_job_def)

lemma update_cases:
  assumes "x \<in> set (update_job i f js)"
  obtains (same) "x \<in> set js" "jb_id x \<noteq> i" | (changed) j where "j \<in> set js" "jb_id j = i" "x = f j"
  using assms by (auto simp: update_job_def split: if_splits)

section \<open>Claiming\<close>

lemma find_sorted_min:
  assumes "List.find P (sort_key (k :: 'a \<Rightarrow> int) xs) = Some x"
  shows "x \<in> set xs \<and> P x \<and> (\<forall>y\<in>set xs. P y \<longrightarrow> k x \<le> k y)"
proof -
  let ?ys = "sort_key k xs"
  obtain i where i: "i < length ?ys" "P (?ys ! i)" "x = ?ys ! i" "\<forall>j<i. \<not> P (?ys ! j)"
    using assms by (auto simp: find_Some_iff)
  have s: "sorted (map k ?ys)" by simp
  have "k x \<le> k y" if "y \<in> set xs" "P y" for y
  proof -
    have "y \<in> set ?ys" using that(1) by simp
    then obtain j where j: "j < length ?ys" "y = ?ys ! j" by (metis in_set_conv_nth)
    then have "i \<le> j" using i(4) that(2) by (metis not_less)
    then show ?thesis using s i j by (simp add: sorted_iff_nth_mono)
  qed
  moreover have "x \<in> set ?ys" using i(1,3) nth_mem by blast
  ultimately show ?thesis using i(2,3) by simp
qed

lemma claim_next_Some:
  assumes "sql_claim_next w l now js = (Some r, js')"
  obtains j where "j \<in> set js" "ready now j" "\<forall>x\<in>set js. ready now x \<longrightarrow> jb_id j \<le> jb_id x"
    "r = lease_to w l now j" "js' = update_job (jb_id j) (lease_to w l now) js" "r \<in> set js'"
proof -
  obtain j where f: "List.find (ready now) (sort_key jb_id js) = Some j"
    and r: "r = lease_to w l now j" "js' = update_job (jb_id j) (lease_to w l now) js"
    using assms by (auto simp: sql_claim_next_def split: option.splits)
  from find_sorted_min[OF f] r show thesis by (intro that[of j]) (auto simp: update_member)
qed

lemma claim_next_None:
  "sql_claim_next w l now js = (None, js') \<longleftrightarrow> js' = js \<and> (\<forall>j\<in>set js. \<not> ready now j)"
  using find_sorted_min[of "ready now" jb_id js]
  by (auto simp: sql_claim_next_def find_None_iff split: option.splits)

lemma expire_leased:
  "jb_status j = Running \<Longrightarrow> jb_lease_expires j = Some t \<Longrightarrow> now \<le> t \<Longrightarrow> expire now j = j"
  by (simp add: expire_def lease_expired_def)

text \<open>A claimed job is not handed out again before its lease has run out.\<close>

lemma claim_next_exclusive:
  assumes ok: "queue_ok js" and c1: "sql_claim_next w l now js = (Some j, js1)"
    and c2: "sql_claim_next w' l' now' (map (expire now') js1) = (Some j', js2)" and t: "now' \<le> now + l"
  shows "jb_id j' \<noteq> jb_id j"
proof
  assume same: "jb_id j' = jb_id j"
  obtain o1 where o1: "o1 \<in> set js" "j = lease_to w l now o1"
    "js1 = update_job (jb_id o1) (lease_to w l now) js" "j \<in> set js1"
    by (rule claim_next_Some[OF c1])
  obtain o2 where o2: "o2 \<in> set (map (expire now') js1)" "ready now' o2" "j' = lease_to w' l' now' o2"
    by (rule claim_next_Some[OF c2])
  have "expire now' j = j" using o1(2) t by (intro expire_leased[of _ "now + l"]) (simp_all add: lease_to_def)
  then have "j \<in> set (map (expire now') js1)" using o1(4) by force
  moreover have "queue_ok (map (expire now') js1)"
    unfolding o1(3) by (intro keeps_map keeps_update job_updates ok)
  moreover have "jb_id o2 = jb_id j" using same o2(3) by (simp add: lease_to_def)
  ultimately have "o2 = j" using o2(1) unfolding queue_ok_def distinct_map by (metis inj_onD)
  then show False using o2(2) o1(2) by (simp add: ready_def lease_to_def)
qed

section \<open>The contract of a queue\<close>

locale job_queue =
  fixes rows :: "'s \<Rightarrow> job list"
    and inv :: "'s \<Rightarrow> bool"
    and enqueue :: "job_kind \<Rightarrow> string \<Rightarrow> string \<Rightarrow> json \<Rightarrow> int \<Rightarrow> 's \<Rightarrow> (int \<times> bool) res \<times> 's"
    and claim :: "string \<Rightarrow> int \<Rightarrow> int \<Rightarrow> 's \<Rightarrow> job option \<times> 's"
    and heartbeat :: "int \<Rightarrow> string \<Rightarrow> int \<Rightarrow> int \<Rightarrow> 's \<Rightarrow> bool \<times> 's"
    and complete :: "int \<Rightarrow> 's \<Rightarrow> unit res \<times> 's"
    and fail :: "job \<Rightarrow> string \<Rightarrow> int \<Rightarrow> int \<Rightarrow> 's \<Rightarrow> job_status res \<times> 's"
  assumes rows_ok: "inv s \<Longrightarrow> queue_ok (rows s)"
    and inv_enqueue: "inv s \<Longrightarrow> inv (snd (enqueue k t key p now s))"
    and inv_claim: "inv s \<Longrightarrow> inv (snd (claim w l now s))"
    and inv_heartbeat: "inv s \<Longrightarrow> inv (snd (heartbeat i w l now s))"
    and inv_complete: "inv s \<Longrightarrow> inv (snd (complete i s))"
    and inv_fail: "inv s \<Longrightarrow> inv (snd (fail j e d now s))"
    and claim_rows: "claim w l now s = (r, s') \<Longrightarrow>
      sql_claim_next w l now (map (expire now) (rows s)) = (r, rows s')"
    and enqueue_known: "inv s \<Longrightarrow> j \<in> set (rows s) \<Longrightarrow> jb_key j = key \<Longrightarrow>
      fst (enqueue k t key p now s) = Inr (jb_id j, False) \<and> rows (snd (enqueue k t key p now s)) = rows s"
    and enqueue_new: "inv s \<Longrightarrow> key \<notin> jb_key ` set (rows s) \<Longrightarrow> enqueue k t key p now s = (Inr (i, c), s') \<Longrightarrow>
      c \<and> (\<exists>j. rows s' = rows s @ [j] \<and> jb_id j = i \<and> jb_key j = key \<and> jb_kind j = k \<and> jb_thread j = t \<and>
               jb_payload j = p \<and> jb_status j = Queued \<and> jb_attempts j = 0)"
    and complete_rows: "rows (snd (complete i s)) = update_job i succeed (rows s)"
begin

lemma claim_exclusive:
  assumes "inv s" and "claim w l now s = (Some j, s1)" and "claim w' l' now' s1 = (Some j', s2)"
    and "now' \<le> now + l"
  shows "jb_id j' \<noteq> jb_id j"
proof (rule claim_next_exclusive)
  show "queue_ok (map (expire now) (rows s))" by (intro keeps_map job_updates rows_ok assms)
  show "sql_claim_next w l now (map (expire now) (rows s)) = (Some j, rows s1)" by (rule claim_rows[OF assms(2)])
  show "sql_claim_next w' l' now' (map (expire now') (rows s1)) = (Some j', rows s2)" by (rule claim_rows[OF assms(3)])
qed (rule assms(4))

lemma claim_oldest:
  assumes "claim w l now s = (Some j, s')"
  shows "\<exists>j0\<in>set (map (expire now) (rows s)). ready now j0 \<and> j = lease_to w l now j0 \<and> j \<in> set (rows s') \<and>
    (\<forall>x\<in>set (map (expire now) (rows s)). ready now x \<longrightarrow> jb_id j \<le> jb_id x)"
proof -
  obtain j0 where "j0 \<in> set (map (expire now) (rows s))" "ready now j0"
    "\<forall>x\<in>set (map (expire now) (rows s)). ready now x \<longrightarrow> jb_id j0 \<le> jb_id x"
    "j = lease_to w l now j0" "j \<in> set (rows s')"
    by (rule claim_next_Some[OF claim_rows[OF assms]])
  then show ?thesis by (intro bexI[of _ j0]) (simp_all add: lease_to_def)
qed

lemma enqueue_once:
  assumes "inv s" and "enqueue k t key p now s = (Inr (i, c), s1)"
  shows "\<exists>s2. enqueue k' t' key p' now' s1 = (Inr (i, False), s2) \<and> rows s2 = rows s1"
proof -
  have inv1: "inv s1" using inv_enqueue[OF assms(1), of k t key p now] assms(2) by simp
  have "\<exists>j\<in>set (rows s1). jb_key j = key \<and> jb_id j = i"
  proof (cases "key \<in> jb_key ` set (rows s)")
    case True
    then obtain j where j: "j \<in> set (rows s)" "jb_key j = key" by auto
    show ?thesis using enqueue_known[OF assms(1) j, of k t p now] assms(2) j by auto
  next
    case False
    from enqueue_new[OF assms(1) this assms(2)] show ?thesis by auto
  qed
  then obtain j where "j \<in> set (rows s1)" "jb_key j = key" "jb_id j = i" by blast
  from enqueue_known[OF inv1 this(1,2), of k' t' p' now'] this(3) show ?thesis
    by (metis prod.collapse)
qed

end

section \<open>Both dispatchers meet it\<close>

definition pg_inv :: "pg_queue \<Rightarrow> bool" where
  "pg_inv q = (queue_ok (jt_rows q) \<and> (\<forall>j\<in>set (jt_rows q). jb_id j < jt_next q))"

definition mem_inv :: "mem_queue \<Rightarrow> bool" where
  "mem_inv q = (queue_ok (mq_jobs q) \<and> (\<forall>j\<in>set (mq_jobs q). jb_id j < mq_next q) \<and>
     mq_by_key q = map (\<lambda>j. (jb_key j, jb_id j)) (mq_jobs q))"

lemma new_job_ok: "well_leased (new_job i k t key p m a)"
  by (simp add: well_leased_def new_job_def)

lemma queue_ok_snoc:
  "queue_ok js \<Longrightarrow> \<forall>j\<in>set js. jb_id j < i \<Longrightarrow> key \<notin> jb_key ` set js \<Longrightarrow>
     queue_ok (js @ [new_job i k t key p m a])"
  by (auto simp: queue_ok_def new_job_ok) (auto simp: new_job_def)

lemma bounded_update: "keeps f \<Longrightarrow> \<forall>j\<in>set js. jb_id j < n \<Longrightarrow> \<forall>j\<in>set (update_job i f js). jb_id j < n"
  by (auto simp: update_job_def keeps_def)

lemma bounded_map: "keeps f \<Longrightarrow> \<forall>j\<in>set js. jb_id j < n \<Longrightarrow> \<forall>j\<in>set (map f js). jb_id j < n"
  by (auto simp: keeps_def)

lemma claim_next_ok:
  assumes "sql_claim_next w l now js = (r, js')" and "queue_ok js"
  shows "queue_ok js'" and "\<forall>j\<in>set js. jb_id j < n \<Longrightarrow> \<forall>j\<in>set js'. jb_id j < n"
    and "map (\<lambda>j. (jb_key j, jb_id j)) js' = map (\<lambda>j. (jb_key j, jb_id j)) js"
proof -
  have "js' = js \<or> (\<exists>i. js' = update_job i (lease_to w l now) js)"
    using assms(1) by (auto simp: sql_claim_next_def split: option.splits)
  then show "queue_ok js'" "\<forall>j\<in>set js. jb_id j < n \<Longrightarrow> \<forall>j\<in>set js'. jb_id j < n"
    "map (\<lambda>j. (jb_key j, jb_id j)) js' = map (\<lambda>j. (jb_key j, jb_id j)) js"
    using assms(2) keeps_update[OF job_updates(3)] bounded_update[OF job_updates(3)] keys_update[OF job_updates(3)]
    by metis+
qed

lemma heartbeat_ok:
  assumes "sql_heartbeat i w l now js = (r, js')" and "queue_ok js"
  shows "queue_ok js'" and "\<forall>j\<in>set js. jb_id j < n \<Longrightarrow> \<forall>j\<in>set js'. jb_id j < n"
    and "map (\<lambda>j. (jb_key j, jb_id j)) js' = map (\<lambda>j. (jb_key j, jb_id j)) js"
proof -
  let ?f = "\<lambda>j. if jb_id j = i \<and> jb_status j = Running \<and> jb_lease_owner j = Some w then extend_lease l now j else j"
  have js': "js' = map ?f js" using assms(1) by (auto simp: sql_heartbeat_def Let_def)
  have k: "keeps ?f" by (rule keeps_extend)
  show "queue_ok js'" unfolding js' by (rule keeps_map[OF k assms(2)])
  show "\<forall>j\<in>set js. jb_id j < n \<Longrightarrow> \<forall>j\<in>set js'. jb_id j < n" unfolding js' by (rule bounded_map[OF k])
  show "map (\<lambda>j. (jb_key j, jb_id j)) js' = map (\<lambda>j. (jb_key j, jb_id j)) js"
    unfolding js' by (rule keys_map[OF k])
qed

lemma find_key:
  "queue_ok js \<Longrightarrow> j \<in> set js \<Longrightarrow> List.find (\<lambda>x. jb_key x = jb_key j) js = Some j"
proof -
  assume ok: "queue_ok js" and j: "j \<in> set js"
  then obtain x where x: "List.find (\<lambda>x. jb_key x = jb_key j) js = Some x"
    by (cases "List.find (\<lambda>x. jb_key x = jb_key j) js") (auto simp: find_None_iff)
  then have "x \<in> set js" "jb_key x = jb_key j" by (auto simp: find_Some_iff in_set_conv_nth)
  then have "x = j" using ok j unfolding queue_ok_def distinct_map by (metis inj_onD)
  then show ?thesis using x by simp
qed

lemma find_key_None: "key \<notin> jb_key ` set js \<longleftrightarrow> List.find (\<lambda>x. jb_key x = key) js = None"
  by (auto simp: find_None_iff)

lemma pg_inv_update:
  assumes "pg_inv q" and "keeps f"
  shows "pg_inv (q\<lparr>jt_rows := update_job i f (jt_rows q)\<rparr>)"
  using assms keeps_update[OF assms(2)] bounded_update[OF assms(2), of "jt_rows q" "jt_next q" i]
  by (simp add: pg_inv_def)

interpretation pg: job_queue jt_rows pg_inv pg_enqueue pg_claim pg_heartbeat pg_complete pg_fail
proof
  fix s :: pg_queue and k t key p now w l i e d j r s' c
  show "queue_ok (jt_rows s)" if "pg_inv s" using that by (simp add: pg_inv_def)
  show "pg_inv (snd (pg_enqueue k t key p now s))" if "pg_inv s"
    using that queue_ok_snoc[of "jt_rows s" "jt_next s" key]
    by (auto simp: pg_inv_def pg_enqueue_def sql_enqueue_def find_key_None new_job_def job_table.defs
        dest: find_key_None[THEN iffD2] split: option.splits)
  show "pg_inv (snd (pg_claim w l now s))" if "pg_inv s"
  proof -
    obtain r' js where c: "sql_claim_next w l now (map (expire now) (jt_rows s)) = (r', js)" by fastforce
    have ok: "queue_ok (map (expire now) (jt_rows s))" "\<forall>j\<in>set (map (expire now) (jt_rows s)). jb_id j < jt_next s"
      using that keeps_map[OF job_updates(1)] by (simp_all add: pg_inv_def)
    show ?thesis using c claim_next_ok(1)[OF c ok(1)] claim_next_ok(2)[OF c ok(1) ok(2)]
      by (simp add: pg_claim_def sql_reclaim_expired_def pg_inv_def)
  qed
  show "pg_inv (snd (pg_heartbeat i w l now s))" if "pg_inv s"
    using that heartbeat_ok(1,2) unfolding pg_inv_def pg_heartbeat_def
    by (cases "sql_heartbeat i w l now (jt_rows s)") fastforce
  show "pg_inv (snd (pg_complete i s))" if "pg_inv s"
    using pg_inv_update[OF that job_updates(4)] by (simp add: pg_complete_def sql_complete_def)
  show "pg_inv (snd (pg_fail j e d now s))" if "pg_inv s"
    using pg_inv_update[OF that job_updates(5)] pg_inv_update[OF that job_updates(6)]
    by (simp add: pg_fail_def sql_fail_def)
  show "sql_claim_next w l now (map (expire now) (jt_rows s)) = (r, jt_rows s')" if "pg_claim w l now s = (r, s')"
    using that by (auto simp: pg_claim_def sql_reclaim_expired_def split: prod.splits)
  show "fst (pg_enqueue k t key p now s) = Inr (jb_id j, False) \<and> jt_rows (snd (pg_enqueue k t key p now s)) = jt_rows s"
    if "pg_inv s" "j \<in> set (jt_rows s)" "jb_key j = key"
    using find_key[of "jt_rows s" j] that by (auto simp: pg_inv_def pg_enqueue_def sql_enqueue_def job_table.defs)
  show "c \<and> (\<exists>j. jt_rows s' = jt_rows s @ [j] \<and> jb_id j = i \<and> jb_key j = key \<and> jb_kind j = k \<and> jb_thread j = t \<and>
          jb_payload j = p \<and> jb_status j = Queued \<and> jb_attempts j = 0)"
    if "pg_inv s" "key \<notin> jb_key ` set (jt_rows s)" "pg_enqueue k t key p now s = (Inr (i, c), s')"
    using that(3) find_key_None[THEN iffD1, OF that(2)]
    by (auto simp: pg_enqueue_def sql_enqueue_def job_table.defs new_job_def split: if_splits)
  show "jt_rows (snd (pg_complete i s)) = update_job i succeed (jt_rows s)"
    by (simp add: pg_complete_def sql_complete_def)
qed

lemma by_key_lookup:
  "queue_ok js \<Longrightarrow> j \<in> set js \<Longrightarrow> map_of (map (\<lambda>j. (jb_key j, jb_id j)) js) (jb_key j) = Some (jb_id j)"
  by (rule map_of_is_SomeI) (auto simp: queue_ok_def o_def)

lemma by_key_missing:
  "map_of (map (\<lambda>j. (jb_key j, jb_id j)) js) key = None \<longleftrightarrow> key \<notin> jb_key ` set js"
  by (auto simp: map_of_eq_None_iff image_iff)

lemma al_put_new: "map_of xs k = None \<Longrightarrow> al_put k v xs = xs @ [(k, v)]"
  by (induction xs) (auto split: if_splits)

lemma mem_claim_next:
  "mem_claim w l now q = (case sql_claim_next w l now (map (expire now) (mq_jobs q)) of
     (r, js) \<Rightarrow> (r, q\<lparr>mq_jobs := js\<rparr>))"
  by (auto simp: mem_claim_def sql_claim_next_def Let_def split: option.splits)

lemma mem_heartbeat_rows:
  "queue_ok (mq_jobs q) \<Longrightarrow> mem_heartbeat i w l now q =
     (case sql_heartbeat i w l now (mq_jobs q) of (r, js) \<Rightarrow> (r, q\<lparr>mq_jobs := js\<rparr>))"
proof -
  assume ok: "queue_ok (mq_jobs q)"
  show ?thesis
  proof (cases "List.find (\<lambda>j. jb_id j = i) (mq_jobs q)")
    case None
    then have "\<forall>j\<in>set (mq_jobs q). jb_id j \<noteq> i" by (auto simp: find_None_iff)
    then have "map (\<lambda>j. if jb_id j = i \<and> jb_status j = Running \<and> jb_lease_owner j = Some w
          then extend_lease l now j else j) (mq_jobs q) = mq_jobs q"
      by (intro map_idI) auto
    then show ?thesis using None \<open>\<forall>j\<in>set (mq_jobs q). jb_id j \<noteq> i\<close>
      by (auto simp: mem_heartbeat_def sql_heartbeat_def Let_def list_ex_iff)
  next
    case (Some j)
    then have j: "j \<in> set (mq_jobs q)" "jb_id j = i" by (auto simp: find_Some_iff in_set_conv_nth)
    have only: "x = j" if "x \<in> set (mq_jobs q)" "jb_id x = i" for x
      using ok j that unfolding queue_ok_def distinct_map by (metis inj_onD)
    show ?thesis
    proof (cases "jb_status j = Running \<and> jb_lease_owner j = Some w")
      case True
      then have "map (\<lambda>j. if jb_id j = i \<and> jb_status j = Running \<and> jb_lease_owner j = Some w
          then extend_lease l now j else j) (mq_jobs q) = update_job i (extend_lease l now) (mq_jobs q)"
        unfolding update_job_def using only by (intro map_cong) auto
      then show ?thesis using True Some j
        by (auto simp: mem_heartbeat_def sql_heartbeat_def Let_def list_ex_iff)
    next
      case False
      then have "map (\<lambda>j. if jb_id j = i \<and> jb_status j = Running \<and> jb_lease_owner j = Some w
          then extend_lease l now j else j) (mq_jobs q) = mq_jobs q"
        using only by (intro map_idI) auto
      then show ?thesis using False Some only
        by (auto simp: mem_heartbeat_def sql_heartbeat_def Let_def list_ex_iff)
    qed
  qed
qed

lemma mem_inv_rows:
  assumes "mem_inv q" and "queue_ok js" and "\<forall>j\<in>set js. jb_id j < mq_next q"
    and "map (\<lambda>j. (jb_key j, jb_id j)) js = map (\<lambda>j. (jb_key j, jb_id j)) (mq_jobs q)"
  shows "mem_inv (q\<lparr>mq_jobs := js\<rparr>)"
  using assms by (simp add: mem_inv_def)

lemma mem_inv_update:
  "mem_inv q \<Longrightarrow> keeps f \<Longrightarrow> mem_inv (q\<lparr>mq_jobs := update_job i f (mq_jobs q)\<rparr>)"
  by (rule mem_inv_rows) (auto simp: mem_inv_def keeps_update bounded_update keys_update)

interpretation mem: job_queue mq_jobs mem_inv "\<lambda>k t key p now. mem_enqueue k t key p" mem_claim mem_heartbeat
  mem_complete mem_fail
proof
  fix s :: mem_queue and k t key p now w l i e d j r s' c
  show "queue_ok (mq_jobs s)" if "mem_inv s" using that by (simp add: mem_inv_def)
  show "mem_inv (snd (mem_enqueue k t key p s))" if "mem_inv s"
  proof (cases "map_of (mq_by_key s) key")
    case None
    then have "key \<notin> jb_key ` set (mq_jobs s)" using that by (simp add: mem_inv_def by_key_missing)
    moreover have "al_put key (mq_next s) (mq_by_key s) = mq_by_key s @ [(key, mq_next s)]"
      by (rule al_put_new[OF None])
    ultimately show ?thesis using that None queue_ok_snoc[of "mq_jobs s" "mq_next s" key]
      by (auto simp: mem_inv_def mem_enqueue_def) (auto simp: new_job_def)
  qed (use that in \<open>simp add: mem_enqueue_def\<close>)
  show "mem_inv (snd (mem_claim w l now s))" if "mem_inv s"
  proof -
    obtain r' js where c: "sql_claim_next w l now (map (expire now) (mq_jobs s)) = (r', js)" by fastforce
    have ok: "queue_ok (map (expire now) (mq_jobs s))" "\<forall>j\<in>set (map (expire now) (mq_jobs s)). jb_id j < mq_next s"
      using that keeps_map[OF job_updates(1)] by (simp_all add: mem_inv_def)
    have "mem_inv (s\<lparr>mq_jobs := js\<rparr>)"
      using claim_next_ok[OF c ok(1)] ok(2) keys_map[OF job_updates(1)]
      by (intro mem_inv_rows[OF that]) auto
    then show ?thesis using c by (simp add: mem_claim_next)
  qed
  show "mem_inv (snd (mem_heartbeat i w l now s))" if "mem_inv s"
  proof -
    obtain r' js where h: "sql_heartbeat i w l now (mq_jobs s) = (r', js)" by fastforce
    have ok: "queue_ok (mq_jobs s)" "\<forall>j\<in>set (mq_jobs s). jb_id j < mq_next s"
      using that by (simp_all add: mem_inv_def)
    have "mem_inv (s\<lparr>mq_jobs := js\<rparr>)"
      using heartbeat_ok[OF h ok(1)] ok(2) by (intro mem_inv_rows[OF that]) auto
    then show ?thesis using h ok(1) by (simp add: mem_heartbeat_rows)
  qed
  show "mem_inv (snd (mem_complete i s))" if "mem_inv s"
    using that mem_inv_update[OF that job_updates(4)] by (simp add: mem_complete_def)
  show "mem_inv (snd (mem_fail j e d now s))" if "mem_inv s"
    using that mem_inv_update[OF that job_updates(5)] mem_inv_update[OF that job_updates(6)]
    by (auto simp: mem_fail_def split: option.splits)
  show "sql_claim_next w l now (map (expire now) (mq_jobs s)) = (r, mq_jobs s')" if "mem_claim w l now s = (r, s')"
    using that by (auto simp: mem_claim_next split: prod.splits)
  show "fst (mem_enqueue k t key p s) = Inr (jb_id j, False) \<and> mq_jobs (snd (mem_enqueue k t key p s)) = mq_jobs s"
    if "mem_inv s" "j \<in> set (mq_jobs s)" "jb_key j = key"
    using by_key_lookup[of "mq_jobs s" j] that by (auto simp: mem_inv_def mem_enqueue_def)
  show "c \<and> (\<exists>j. mq_jobs s' = mq_jobs s @ [j] \<and> jb_id j = i \<and> jb_key j = key \<and> jb_kind j = k \<and> jb_thread j = t \<and>
          jb_payload j = p \<and> jb_status j = Queued \<and> jb_attempts j = 0)"
    if "mem_inv s" "key \<notin> jb_key ` set (mq_jobs s)" "mem_enqueue k t key p s = (Inr (i, c), s')"
  proof -
    have "map_of (mq_by_key s) key = None" using that(1,2) by (simp add: mem_inv_def by_key_missing)
    then show ?thesis using that(3) by (auto simp: mem_enqueue_def new_job_def split: if_splits)
  qed
  show "mq_jobs (snd (mem_complete i s)) = update_job i succeed (mq_jobs s)"
    by (auto simp: mem_complete_def list_ex_iff image_iff intro!: update_missing[symmetric])
qed

section \<open>Reachable queues\<close>

inductive pg_step :: "pg_queue \<Rightarrow> pg_queue \<Rightarrow> bool" where
  enqueue: "pg_step q (snd (pg_enqueue k t key p now q))"
| claim: "pg_step q (snd (pg_claim w l now q))"
| heartbeat: "pg_step q (snd (pg_heartbeat i w l now q))"
| complete: "pg_step q (snd (pg_complete i q))"
| fail: "pg_step q (snd (pg_fail j e d now q))"
| reclaim: "pg_step q (q\<lparr>jt_rows := snd (sql_reclaim_expired now (jt_rows q))\<rparr>)"

inductive pg_reachable :: "pg_queue \<Rightarrow> bool" where
  empty: "jt_rows q = [] \<Longrightarrow> pg_reachable q"
| step: "pg_reachable q \<Longrightarrow> pg_step q q' \<Longrightarrow> pg_reachable q'"

inductive_cases pg_stepE: "pg_step q q'"

lemma pg_reclaim_inv: "pg_inv q \<Longrightarrow> pg_inv (q\<lparr>jt_rows := map (expire now) (jt_rows q)\<rparr>)"
  using keeps_map[OF job_updates(1)] by (simp add: pg_inv_def)

lemma pg_step_inv: "pg_inv q \<Longrightarrow> pg_step q q' \<Longrightarrow> pg_inv q'"
  by (erule pg_stepE)
    (simp_all add: pg.inv_enqueue pg.inv_claim pg.inv_heartbeat pg.inv_complete pg.inv_fail
      sql_reclaim_expired_def pg_reclaim_inv)

lemma pg_reachable_inv: "pg_reachable q \<Longrightarrow> pg_inv q"
proof (induction rule: pg_reachable.induct)
  case (empty q)
  then show ?case by (simp add: pg_inv_def queue_ok_def)
next
  case (step q q')
  then show ?case by (blast intro: pg_step_inv)
qed

section \<open>Operations in a row\<close>

text \<open>The operations of the dispatcher with their times, and the jobs that the claims among them hand out.\<close>

datatype queue_op =
    Enqueue_op job_kind string string json int
  | Claim_op string int int
  | Heartbeat_op int string int int
  | Complete_op int
  | Fail_op job string int int
  | Reclaim_op int

fun pg_op :: "queue_op \<Rightarrow> pg_queue \<Rightarrow> job option \<times> pg_queue" where
  "pg_op (Enqueue_op k t key p now) q = (None, snd (pg_enqueue k t key p now q))"
| "pg_op (Claim_op w l now) q = pg_claim w l now q"
| "pg_op (Heartbeat_op i w l now) q = (None, snd (pg_heartbeat i w l now q))"
| "pg_op (Complete_op i) q = (None, snd (pg_complete i q))"
| "pg_op (Fail_op j e d now) q = (None, snd (pg_fail j e d now q))"
| "pg_op (Reclaim_op now) q = (None, snd (pg_reclaim_expired now q))"

fun pg_ops :: "queue_op list \<Rightarrow> pg_queue \<Rightarrow> job list \<times> pg_queue" where
  "pg_ops [] q = ([], q)"
| "pg_ops (x # xs) q = (case pg_op x q of (r, q1) \<Rightarrow> (case pg_ops xs q1 of (js, q2) \<Rightarrow>
     ((case r of None \<Rightarrow> js | Some j \<Rightarrow> j # js), q2)))"

text \<open>An operation up to \<open>deadline\<close> that does not report the job \<open>j\<close> and does not shorten its lease.\<close>

fun leaves :: "job \<Rightarrow> int \<Rightarrow> queue_op \<Rightarrow> bool" where
  "leaves j deadline (Enqueue_op k t key p now) = True"
| "leaves j deadline (Claim_op w l now) = (now \<le> deadline)"
| "leaves j deadline (Heartbeat_op i w l now) = (i = jb_id j \<and> jb_lease_owner j = Some w \<longrightarrow> deadline \<le> now + l)"
| "leaves j deadline (Complete_op i) = (i \<noteq> jb_id j)"
| "leaves j deadline (Fail_op x e d now) = (jb_id x \<noteq> jb_id j)"
| "leaves j deadline (Reclaim_op now) = (now \<le> deadline)"

definition leased :: "int \<Rightarrow> string \<Rightarrow> int \<Rightarrow> pg_queue \<Rightarrow> bool" where
  "leased i w deadline q = (\<exists>x\<in>set (jt_rows q). jb_id x = i \<and> jb_status x = Running \<and> jb_lease_owner x = Some w \<and>
     (\<exists>u. jb_lease_expires x = Some u \<and> deadline \<le> u))"

lemma pg_op_inv: "pg_inv q \<Longrightarrow> pg_inv (snd (pg_op x q))"
  by (cases x) (auto simp: pg.inv_enqueue pg.inv_claim pg.inv_heartbeat pg.inv_complete pg.inv_fail
      pg_reclaim_expired_def sql_reclaim_expired_def pg_reclaim_inv)

lemma update_other: "x \<in> set js \<Longrightarrow> jb_id x \<noteq> i \<Longrightarrow> x \<in> set (update_job i f js)"
  by (force simp: update_job_def)

lemma op_leased:
  assumes inv: "pg_inv q" and l: "leased (jb_id j) w deadline q" and op: "leaves j deadline op"
    and w: "jb_lease_owner j = Some w" and r: "pg_op op q = (r, q')"
  shows "leased (jb_id j) w deadline q' \<and> (\<forall>x. r = Some x \<longrightarrow> jb_id x \<noteq> jb_id j)"
proof -
  obtain x u where x: "x \<in> set (jt_rows q)" "jb_id x = jb_id j" "jb_status x = Running" "jb_lease_owner x = Some w"
    "jb_lease_expires x = Some u" "deadline \<le> u" using l by (auto simp: leased_def)
  have there: "leased (jb_id j) w deadline p" if "x \<in> set (jt_rows p)" for p using that x by (auto simp: leased_def)
  have awake: "x \<in> set (map (expire now) (jt_rows q))" if "now \<le> deadline" for now
    using expire_leased[OF x(3,5), of now] that x(1,6) by force
  show ?thesis
  proof (cases op)
    case (Enqueue_op k t key p now)
    then show ?thesis using r x(1)
      by (auto intro!: there simp: pg_enqueue_def sql_enqueue_def job_table.defs split: option.splits if_splits)
  next
    case (Claim_op v m now)
    then have t: "now \<le> deadline" and c: "pg_claim v m now q = (r, q')" using op r by simp_all
    note a = awake[OF t]
    have ok: "queue_ok (map (expire now) (jt_rows q))" using inv keeps_map[OF job_updates(1)] by (simp add: pg_inv_def)
    note cl = pg.claim_rows[OF c]
    show ?thesis
    proof (cases r)
      case None
      then show ?thesis using cl a claim_next_None by (auto intro!: there)
    next
      case (Some y)
      obtain o0 where o: "o0 \<in> set (map (expire now) (jt_rows q))" "ready now o0" "y = lease_to v m now o0"
        "jt_rows q' = update_job (jb_id o0) (lease_to v m now) (map (expire now) (jt_rows q))"
        by (rule claim_next_Some[OF cl[unfolded Some]])
      have "jb_id o0 \<noteq> jb_id x"
      proof
        assume "jb_id o0 = jb_id x"
        then have "o0 = x" using ok a o(1) unfolding queue_ok_def distinct_map by (metis inj_onD)
        then show False using o(2) x(3) by (simp add: ready_def)
      qed
      then show ?thesis using update_other[OF a, of "jb_id o0"] o(3,4) Some x(2) by (auto intro!: there)
    qed
  next
    case (Heartbeat_op i v m now)
    then have q': "jt_rows q' = map (\<lambda>j. if jb_id j = i \<and> jb_status j = Running \<and> jb_lease_owner j = Some v
        then extend_lease m now j else j) (jt_rows q)" and "r = None"
      using r by (auto simp: pg_heartbeat_def sql_heartbeat_def Let_def)
    moreover have "leased (jb_id j) w deadline q'"
    proof (cases "i = jb_id j \<and> v = w")
      case True
      then have "extend_lease m now x \<in> set (jt_rows q')" using x by (force simp: q')
      then show ?thesis using True x op w Heartbeat_op
        by (auto simp: leased_def extend_lease_def intro!: bexI[of _ "extend_lease m now x"])
    next
      case False
      then have "x \<in> set (jt_rows q')" using x by (force simp: q')
      then show ?thesis by (rule there)
    qed
    ultimately show ?thesis by simp
  next
    case (Complete_op i)
    then show ?thesis using r op x(2) update_other[OF x(1), of i]
      by (auto intro!: there simp: pg_complete_def sql_complete_def)
  next
    case (Fail_op y e d now)
    then show ?thesis using r op x(2) update_other[OF x(1), of "jb_id y"]
      by (auto intro!: there simp: pg_fail_def sql_fail_def split: if_splits)
  next
    case (Reclaim_op now)
    then show ?thesis using r op awake
      by (auto intro!: there simp: pg_reclaim_expired_def sql_reclaim_expired_def)
  qed
qed

lemma ops_leased:
  assumes "pg_inv q" and "leased (jb_id j) w deadline q" and "list_all (leaves j deadline) ops"
    and "jb_lease_owner j = Some w" and "pg_ops ops q = (js, q')"
  shows "leased (jb_id j) w deadline q' \<and> (\<forall>r\<in>set js. jb_id r \<noteq> jb_id j)"
  using assms(1-3,5)
proof (induction ops arbitrary: q js)
  case (Cons x xs)
  obtain r q1 where op: "pg_op x q = (r, q1)" by fastforce
  obtain ks where rest: "pg_ops xs q1 = (ks, q')" "js = (case r of None \<Rightarrow> ks | Some j \<Rightarrow> j # ks)"
    using Cons.prems(4) op by (auto split: prod.splits)
  have "leased (jb_id j) w deadline q1 \<and> (\<forall>x. r = Some x \<longrightarrow> jb_id x \<noteq> jb_id j)"
    by (rule op_leased[OF Cons.prems(1,2) _ assms(4) op]) (use Cons.prems(3) in simp)
  moreover have "pg_inv q1" using pg_op_inv[OF Cons.prems(1), of x] op by simp
  ultimately show ?case using Cons.IH[of q1 ks] Cons.prems(3) rest by (auto split: option.splits)
qed simp

text \<open>A worker that dies every time: a claim at the moment the previous lease has run out, and no
  \<open>complete\<close>, \<open>fail\<close> or \<open>heartbeat\<close> in between.\<close>

fun crash_loop :: "nat \<Rightarrow> string \<Rightarrow> int \<Rightarrow> int \<Rightarrow> pg_queue \<Rightarrow> pg_queue" where
  "crash_loop 0 w l now q = q"
| "crash_loop (Suc n) w l now q = crash_loop n w l (now + l + 1) (snd (pg_claim w l now q))"

lemma claim_single:
  assumes "jt_rows q = [j]" and "ready now (expire now j)"
  shows "jt_rows (snd (pg_claim w l now q)) = [lease_to w l now (expire now j)]"
  using assms by (simp add: pg_claim_def sql_reclaim_expired_def sql_claim_next_def sort_key_simps update_job_def)

lemma expired_ready: "ready (now + l + 1) (expire (now + l + 1) (lease_to w l now j))"
  by (simp add: ready_def expire_def lease_expired_def lease_to_def)

lemma expire_attempts [simp]: "jb_attempts (expire now j) = jb_attempts j"
  "jb_max_attempts (expire now j) = jb_max_attempts j"
  by (simp_all add: expire_def)

lemma crash_loop_row:
  "jt_rows q = [j] \<Longrightarrow> ready now (expire now j) \<Longrightarrow>
     \<exists>j'. jt_rows (crash_loop (Suc n) w l now q) = [j'] \<and> jb_status j' = Running \<and>
          jb_attempts j' = jb_attempts j + int n + 1 \<and> jb_max_attempts j' = jb_max_attempts j"
proof (induction n arbitrary: q j now)
  case 0
  then show ?case using claim_single[OF 0] by (simp add: lease_to_def)
next
  case (Suc n)
  let ?j = "lease_to w l now (expire now j)"
  have "jt_rows (snd (pg_claim w l now q)) = [?j]" by (rule claim_single[OF Suc.prems])
  from Suc.IH[OF this expired_ready] show ?case by (simp add: lease_to_def)
qed

section \<open>Properties\<close>

text \<open>C19. A claimed job belongs to its worker until its lease runs out: whatever is enqueued, claimed, renewed,
  reclaimed, completed or failed up to that time, as long as nobody reports the job itself as completed or
  failed and its own worker does not shorten the lease, no claim hands it out again, and at the end it is still
  running under that worker with at least that lease.\<close>

theorem claim_is_exclusive:
  assumes "pg_reachable q" and "pg_claim w l now q = (Some j, q1)" and "list_all (leaves j (now + l)) ops"
    and "pg_ops ops q1 = (js, q2)"
  shows "jb_lease_owner j = Some w \<and> jb_lease_expires j = Some (now + l) \<and> (\<forall>r\<in>set js. jb_id r \<noteq> jb_id j) \<and>
    (\<exists>x\<in>set (jt_rows q2). jb_id x = jb_id j \<and> jb_status x = Running \<and> jb_lease_owner x = Some w \<and>
       (\<exists>u. jb_lease_expires x = Some u \<and> now + l \<le> u))"
proof -
  have "pg_inv q1" using pg.inv_claim[OF pg_reachable_inv[OF assms(1)], of w l now] assms(2) by simp
  moreover obtain j0 where j: "j = lease_to w l now j0" "j \<in> set (jt_rows q1)"
    using pg.claim_oldest[OF assms(2)] by blast
  then have "leased (jb_id j) w (now + l) q1"
    unfolding leased_def by (intro bexI[OF _ j(2)]) (simp add: j(1) lease_to_def)
  moreover have "jb_lease_owner j = Some w" by (simp add: j(1) lease_to_def)
  ultimately have "leased (jb_id j) w (now + l) q2 \<and> (\<forall>r\<in>set js. jb_id r \<noteq> jb_id j)"
    using ops_leased[of q1 j w "now + l" ops] assms(3,4) by simp
  then show ?thesis by (auto simp: leased_def j(1) lease_to_def)
qed

definition demo_queue :: pg_queue where
  "demo_queue = snd (pg_enqueue KStart ''INC-2'' (start_key ''INC-2'') JNull 0
     (snd (pg_enqueue KStart ''INC-1'' (start_key ''INC-1'') JNull 0
       \<lparr>jt_rows = [], jt_next = 1, pg_capacity = 10, pg_max_attempts = 3\<rparr>)))"

lemma demo_reachable: "pg_reachable demo_queue"
  unfolding demo_queue_def by (intro pg_reachable.intros(2)[OF _ pg_step.enqueue] pg_reachable.intros(1)) simp

text \<open>While \<open>a\<close> works, \<open>b\<close> asks twice and completes the other job, \<open>a\<close> renews its lease and the queue is reclaimed.\<close>

definition demo_ops :: "queue_op list" where
  "demo_ops = [Claim_op ''b'' 60 30, Heartbeat_op 1 ''a'' 60 40, Complete_op 2, Claim_op ''b'' 60 59, Reclaim_op 60]"

lemma claim_is_exclusive_witness:
  "map jb_id (fst (pg_ops demo_ops (snd (pg_claim ''a'' 60 0 demo_queue)))) = [2] \<and>
   (\<exists>x\<in>set (jt_rows (snd (pg_ops demo_ops (snd (pg_claim ''a'' 60 0 demo_queue))))). jb_id x = 1 \<and>
      jb_status x = Running \<and> jb_lease_owner x = Some ''a'')"
proof -
  let ?c = "pg_claim ''a'' 60 0 demo_queue" let ?r = "pg_ops demo_ops (snd ?c)"
  have "fst ?c \<noteq> None" "jb_id (the (fst ?c)) = 1" "list_all (leaves (the (fst ?c)) (0 + 60)) demo_ops"
    "map jb_id (fst ?r) = [2]"
    by code_simp+
  moreover from this have "?c = (Some (the (fst ?c)), snd ?c)" by (simp add: prod_eq_iff)
  ultimately show ?thesis using claim_is_exclusive[OF demo_reachable, of "''a''" 60 0 _ _ demo_ops "fst ?r" "snd ?r"]
    by (metis prod.collapse)
qed

text \<open>An enqueued key is never enqueued again: after a successful \<open>enqueue\<close>, a second one with the same
  dedupe key, whatever else it carries, returns the same job, says that it was not created, and
  leaves the rows as they are.\<close>

theorem enqueue_deduplicates:
  assumes "pg_reachable q" and "pg_enqueue k t key p now q = (Inr (i, c), q1)"
  shows "fst (pg_enqueue k' t' key p' now' q1) = Inr (i, False) \<and>
    jt_rows (snd (pg_enqueue k' t' key p' now' q1)) = jt_rows q1"
  using pg.enqueue_once[OF pg_reachable_inv[OF assms(1)] assms(2), of k' t' p' now'] by auto

lemma enqueue_deduplicates_witness:
  "fst (pg_enqueue KStart ''INC-3'' (start_key ''INC-3'') JNull 9
     (snd (pg_enqueue KStart ''INC-3'' (start_key ''INC-3'') JNull 5 demo_queue))) = Inr (3, False)"
proof -
  have e: "pg_enqueue KStart ''INC-3'' (start_key ''INC-3'') JNull 5 demo_queue =
      (Inr (3, True), snd (pg_enqueue KStart ''INC-3'' (start_key ''INC-3'') JNull 5 demo_queue))"
    by code_simp
  show ?thesis using enqueue_deduplicates[OF demo_reachable e] by simp
qed

text \<open>Every queue the dispatcher can reach is well formed: job ids and dedupe keys are unique, and a job
  has a lease owner and a lease end exactly while it is running.\<close>

theorem reachable_queue_ok:
  assumes "pg_reachable q"
  shows "distinct (map jb_id (jt_rows q)) \<and> distinct (map jb_key (jt_rows q)) \<and>
    (\<forall>j\<in>set (jt_rows q). (jb_status j = Running \<longleftrightarrow> jb_lease_owner j \<noteq> None) \<and>
       (jb_status j = Running \<longleftrightarrow> jb_lease_expires j \<noteq> None))"
  using pg_reachable_inv[OF assms] unfolding pg_inv_def queue_ok_def well_leased_def by blast

lemma reachable_queue_ok_witness: "distinct (map jb_id (jt_rows demo_queue))"
  using reachable_queue_ok[OF demo_reachable] by simp

text \<open>A job whose worker dies is retried without bound: when every lease runs out without a report, the
  job is claimed any number of times, its attempts grow past \<open>max_attempts\<close>, and it is never
  dead-lettered.\<close>

theorem crashed_job_never_dead:
  assumes "jt_rows q = [j]" and "ready now j" and "jb_max_attempts j \<le> jb_attempts j + int n"
  shows "\<exists>j'. jt_rows (crash_loop (Suc n) w l now q) = [j'] \<and> jb_status j' = Running \<and>
    jb_max_attempts j' < jb_attempts j'"
proof -
  have "expire now j = j" using assms(2) by (simp add: ready_def expire_def lease_expired_def)
  then have "ready now (expire now j)" using assms(2) by simp
  from crash_loop_row[OF assms(1) this, of n w l] show ?thesis using assms(3) by auto
qed

lemma crashed_job_never_dead_witness:
  "\<exists>j'. jt_rows (crash_loop (Suc 3) ''a'' 60 0
       \<lparr>jt_rows = [new_job 1 KStart ''INC-1'' ''start:INC-1'' JNull 3 0], jt_next = 2, pg_capacity = 10,
        pg_max_attempts = 3\<rparr>) = [j'] \<and> jb_status j' = Running \<and> jb_max_attempts j' < jb_attempts j'"
  using crashed_job_never_dead[of "\<lparr>jt_rows = [new_job 1 KStart ''INC-1'' ''start:INC-1'' JNull 3 0], jt_next = 2,
      pg_capacity = 10, pg_max_attempts = 3\<rparr>" "new_job 1 KStart ''INC-1'' ''start:INC-1'' JNull 3 0" 0 3 "''a''" 60]
  by (simp add: ready_def new_job_def)

text \<open>A late failure report revives a finished job: \<open>fail\<close> from a worker whose lease was taken over does
  not look at the job's status or owner, and a job that has succeeded meanwhile is queued again.\<close>

theorem late_failure_revives_job:
  assumes "stored \<in> set (jt_rows q)" and "jb_status stored = Succeeded" and "jb_id j = jb_id stored"
    and "jb_attempts j < jb_max_attempts j"
  shows "\<exists>x\<in>set (jt_rows (snd (pg_fail j e d now q))). jb_id x = jb_id stored \<and> ready (now + d) x"
proof -
  have "requeue e (now + d) stored \<in> set (update_job (jb_id stored) (requeue e (now + d)) (jt_rows q))"
    by (rule update_member[OF assms(1)])
  then show ?thesis using assms(3,4)
    by (intro bexI[of _ "requeue e (now + d) stored"]) (auto simp: pg_fail_def sql_fail_def requeue_def ready_def)
qed

lemma late_failure_revives_job_witness:
  "\<exists>x\<in>set (jt_rows (snd (pg_fail ((new_job 1 KStart ''INC-1'' ''start:INC-1'' JNull 3 0)\<lparr>jb_attempts := 1\<rparr>)
       ''timeout'' 5 100 \<lparr>jt_rows = [(new_job 1 KStart ''INC-1'' ''start:INC-1'' JNull 3 0)\<lparr>jb_status := Succeeded\<rparr>],
         jt_next = 2, pg_capacity = 10, pg_max_attempts = 3\<rparr>))). jb_id x = 1 \<and> ready (100 + 5) x"
  using late_failure_revives_job[of "(new_job 1 KStart ''INC-1'' ''start:INC-1'' JNull 3 0)\<lparr>jb_status := Succeeded\<rparr>"
      "\<lparr>jt_rows = [(new_job 1 KStart ''INC-1'' ''start:INC-1'' JNull 3 0)\<lparr>jb_status := Succeeded\<rparr>],
         jt_next = 2, pg_capacity = 10, pg_max_attempts = 3\<rparr>"
      "(new_job 1 KStart ''INC-1'' ''start:INC-1'' JNull 3 0)\<lparr>jb_attempts := 1\<rparr>" "''timeout''" 5 100]
  by (simp add: new_job_def)

end
