(* ===== verification/Queue_Spec.thy ===== *)
theory Queue_Spec
  imports Jobs
begin

text \<open>
  What the queue of \<open>app/jobs\<close> promises, whichever dispatcher serves it: a list of jobs in the order
  of their arrival, without numbers, that both \<open>PostgresDispatcher\<close> and \<open>InMemoryDispatcher\<close> refine;
  and that a job that is ready is claimed as soon as enough workers ask.
\<close>

section \<open>No ready job is passed over\<close>

text \<open>The claims of several workers at one moment, and the jobs they get.\<close>

fun claim_all ::
  "(string \<Rightarrow> int \<Rightarrow> int \<Rightarrow> 's \<Rightarrow> job option \<times> 's) \<Rightarrow> string list \<Rightarrow> int \<Rightarrow> int \<Rightarrow> 's \<Rightarrow> job list \<times> 's" where
  "claim_all claim [] l now s = ([], s)"
| "claim_all claim (w # ws) l now s =
     (case claim w l now s of (r, s1) \<Rightarrow> (case claim_all claim ws l now s1 of (js, s2) \<Rightarrow>
        ((case r of None \<Rightarrow> js | Some j \<Rightarrow> j # js), s2)))"

text \<open>The ready jobs that come before \<open>j\<close>.\<close>

definition ahead_of :: "int \<Rightarrow> job \<Rightarrow> job list \<Rightarrow> job list" where
  "ahead_of now j js = filter (\<lambda>x. ready now (expire now x) \<and> jb_id x < jb_id j) js"

lemma expire_idem [simp]: "expire now (expire now j) = expire now j"
  by (simp add: expire_def lease_expired_def)

lemma leased_not_ready: "0 \<le> l \<Longrightarrow> \<not> ready now (expire now (lease_to w l now j))"
  by (simp add: ready_def expire_def lease_expired_def lease_to_def)

lemma ahead_after_claim:
  assumes "0 \<le> l" and "ob \<in> set js" and "ready now (expire now ob)" and "jb_id ob < jb_id j"
  shows "length (ahead_of now (expire now j) (update_job (jb_id ob) (lease_to w l now) (map (expire now) js)))
    < length (ahead_of now j js)"
proof -
  let ?f = "\<lambda>x. if jb_id x = jb_id ob then lease_to w l now (expire now x) else expire now x"
  have "ahead_of now (expire now j) (update_job (jb_id ob) (lease_to w l now) (map (expire now) js)) =
      ahead_of now (expire now j) (map ?f js)"
    by (simp add: update_job_def o_def)
  also have "\<dots> = map ?f (filter (\<lambda>x. jb_id x \<noteq> jb_id ob) (ahead_of now j js))"
    by (auto simp: ahead_of_def filter_map o_def leased_not_ready[OF assms(1)] intro!: arg_cong[of _ _ "map ?f"] filter_cong)
  finally show ?thesis
    using length_filter_less[of ob "ahead_of now j js" "\<lambda>x. jb_id x \<noteq> jb_id ob"] assms(2-4)
    by (simp add: ahead_of_def)
qed

context job_queue
begin

lemma claim_advances:
  assumes c: "claim w l now s = (r, s')" and j: "j \<in> set (rows s)" "ready now (expire now j)" and l: "0 \<le> l"
  shows "\<exists>r'. r = Some r' \<and> (jb_id r' = jb_id j \<or>
    expire now j \<in> set (rows s') \<and> length (ahead_of now (expire now j) (rows s')) < length (ahead_of now j (rows s)))"
proof -
  note step = claim_rows[OF c]
  obtain r' where r: "r = Some r'" using j step by (cases r) (auto simp: claim_next_None)
  obtain ob where ob: "ob \<in> set (map (expire now) (rows s))" "ready now ob"
    "\<forall>x\<in>set (map (expire now) (rows s)). ready now x \<longrightarrow> jb_id ob \<le> jb_id x"
    "r' = lease_to w l now ob" "rows s' = update_job (jb_id ob) (lease_to w l now) (map (expire now) (rows s))"
    by (rule claim_next_Some[OF step[unfolded r]])
  obtain x where x: "x \<in> set (rows s)" "ob = expire now x" using ob(1) by auto
  have le: "jb_id ob \<le> jb_id j" using ob(3) j by fastforce
  show ?thesis
  proof (cases "jb_id ob = jb_id j")
    case True
    then show ?thesis by (simp add: r ob(4))
  next
    case False
    have "expire now j \<in> set (rows s')"
      using False j(1) by (force simp: ob(5) update_job_def)
    moreover have "length (ahead_of now (expire now j) (rows s')) < length (ahead_of now j (rows s))"
      using ahead_after_claim[OF l x(1), of now j w] ob(2,5) x(2) le False by simp
    ultimately show ?thesis by (simp add: r)
  qed
qed

lemma claimed_eventually:
  assumes "0 \<le> l" and "length (ahead_of now j (rows s)) < length ws"
    and "j \<in> set (rows s)" and "ready now (expire now j)"
  shows "\<exists>r\<in>set (fst (claim_all claim ws l now s)). jb_id r = jb_id j"
  using assms(2-4)
proof (induction ws arbitrary: s j)
  case (Cons w ws)
  obtain r s' where c: "claim w l now s = (r, s')" by fastforce
  obtain js s'' where rest: "claim_all claim ws l now s' = (js, s'')" by fastforce
  obtain r' where r: "r = Some r'" and or: "jb_id r' = jb_id j \<or>
    expire now j \<in> set (rows s') \<and> length (ahead_of now (expire now j) (rows s')) < length (ahead_of now j (rows s))"
    using claim_advances[OF c Cons.prems(2,3) assms(1)] by blast
  from or show ?case
  proof
    assume "jb_id r' = jb_id j"
    then show ?thesis using c r rest by simp
  next
    assume "expire now j \<in> set (rows s') \<and> length (ahead_of now (expire now j) (rows s')) < length (ahead_of now j (rows s))"
    then show ?thesis using Cons.IH[of "expire now j" s'] Cons.prems c r rest by auto
  qed
qed simp

end

section \<open>The abstract work queue\<close>

text \<open>Jobs in the order of their arrival. They are told apart by their dedupe keys; the numbers the
  dispatchers give them are forgotten by \<open>anon\<close>, and \<open>handed\<close> is a job as a claim hands it out, which does
  not show when the job became available.\<close>

record work_queue =
  wq_items :: "job list"
  wq_capacity :: int
  wq_attempts :: int

definition anon :: "job \<Rightarrow> job" where
  "anon j = j\<lparr>jb_id := 0\<rparr>"

definition handed :: "job \<Rightarrow> job" where
  "handed j = (anon j)\<lparr>jb_available_at := 0\<rparr>"

text \<open>\<open>Report key n\<close> is made by somebody who holds the job as its \<open>n\<close>-th claim handed it out.\<close>

datatype command =
    Put job_kind string string json
  | Take string int
  | Keep string string int
  | Finish string
  | Report string int string int
  | Reclaim

datatype answer = Put_new | Put_known | Put_refused py_exn | Taken "job option" | Kept bool | Finished
  | Reported job_status | No_such_job | Reclaimed int

definition at_key :: "string \<Rightarrow> (job \<Rightarrow> job) \<Rightarrow> job list \<Rightarrow> job list" where
  "at_key key f js = map (\<lambda>j. if jb_key j = key then f j else j) js"

definition by_key :: "string \<Rightarrow> job list \<Rightarrow> job option" where
  "by_key key js = List.find (\<lambda>j. jb_key j = key) js"

definition beats :: "string \<Rightarrow> string \<Rightarrow> job \<Rightarrow> bool" where
  "beats key worker j = (jb_key j = key \<and> jb_status j = Running \<and> jb_lease_owner j = Some worker)"

definition abstract_put :: "job_kind \<Rightarrow> string \<Rightarrow> string \<Rightarrow> json \<Rightarrow> int \<Rightarrow> work_queue \<Rightarrow> answer \<times> work_queue" where
  "abstract_put kind thread key payload available q =
     (if by_key key (wq_items q) \<noteq> None then (Put_known, q)
      else if queue_depth (wq_items q) \<ge> wq_capacity q
      then (Put_refused (queue_full (queue_depth (wq_items q)) (wq_capacity q)), q)
      else (Put_new, q\<lparr>wq_items := wq_items q @ [new_job 0 kind thread key payload (wq_attempts q) available]\<rparr>))"

definition abstract_take :: "string \<Rightarrow> int \<Rightarrow> int \<Rightarrow> work_queue \<Rightarrow> answer \<times> work_queue" where
  "abstract_take worker lease now q =
     (let js = map (expire now) (wq_items q)
      in case List.find (ready now) js of
           None \<Rightarrow> (Taken None, q\<lparr>wq_items := js\<rparr>)
         | Some j \<Rightarrow> (Taken (Some (handed (lease_to worker lease now j))),
             q\<lparr>wq_items := at_key (jb_key j) (lease_to worker lease now) js\<rparr>))"

definition abstract_keep :: "string \<Rightarrow> string \<Rightarrow> int \<Rightarrow> int \<Rightarrow> work_queue \<Rightarrow> answer \<times> work_queue" where
  "abstract_keep key worker lease now q =
     (case by_key key (wq_items q) of
        None \<Rightarrow> (No_such_job, q)
      | Some _ \<Rightarrow> (Kept (list_ex (beats key worker) (wq_items q)),
          q\<lparr>wq_items := map (\<lambda>j. if beats key worker j then extend_lease lease now j else j) (wq_items q)\<rparr>))"

definition abstract_finish :: "string \<Rightarrow> work_queue \<Rightarrow> answer \<times> work_queue" where
  "abstract_finish key q =
     (case by_key key (wq_items q) of
        None \<Rightarrow> (No_such_job, q)
      | Some _ \<Rightarrow> (Finished, q\<lparr>wq_items := at_key key succeed (wq_items q)\<rparr>))"

definition abstract_report :: "string \<Rightarrow> string \<Rightarrow> int \<Rightarrow> int \<Rightarrow> work_queue \<Rightarrow> answer \<times> work_queue" where
  "abstract_report key error delay now q =
     (case by_key key (wq_items q) of
        None \<Rightarrow> (No_such_job, q)
      | Some j \<Rightarrow>
          if jb_attempts j \<ge> jb_max_attempts j
          then (Reported Dead, q\<lparr>wq_items := at_key key (bury error) (wq_items q)\<rparr>)
          else (Reported Queued, q\<lparr>wq_items := at_key key (requeue error (now + delay)) (wq_items q)\<rparr>))"

definition abstract_reclaim :: "(job \<Rightarrow> job) \<Rightarrow> int \<Rightarrow> work_queue \<Rightarrow> answer \<times> work_queue" where
  "abstract_reclaim lapse now q = (Reclaimed (int (length (filter (lease_expired now) (wq_items q)))),
     q\<lparr>wq_items := map lapse (wq_items q)\<rparr>)"

text \<open>The machine, with the two points where the dispatchers differ as parameters: \<open>clock\<close> is the time a new
  job is available at, and \<open>lapse\<close> what \<open>reclaim_expired\<close> does to a job. The specification is \<open>abstract_do\<close>,
  where a job is available when it comes and a reclaimed lease expires as it does under a claim.\<close>

fun timed_do :: "(int \<Rightarrow> int) \<Rightarrow> (int \<Rightarrow> job \<Rightarrow> job) \<Rightarrow> int \<Rightarrow> command \<Rightarrow> work_queue \<Rightarrow> answer \<times> work_queue" where
  "timed_do clock lapse now (Put k t key p) q = abstract_put k t key p (clock now) q"
| "timed_do clock lapse now (Take w l) q = abstract_take w l now q"
| "timed_do clock lapse now (Keep key w l) q = abstract_keep key w l now q"
| "timed_do clock lapse now (Finish key) q = abstract_finish key q"
| "timed_do clock lapse now (Report key n e d) q = abstract_report key e d now q"
| "timed_do clock lapse now Reclaim q = abstract_reclaim (lapse now) now q"

definition abstract_do :: "int \<Rightarrow> command \<Rightarrow> work_queue \<Rightarrow> answer \<times> work_queue" where
  "abstract_do = timed_do (\<lambda>now. now) expire"

section \<open>A dispatcher in use\<close>

text \<open>The operations of the protocol \<open>Dispatcher\<close>, and the commands given to one. Who reports a failure
  passes the job as it was claimed, with the attempts of that claim.\<close>

record 's dispatcher =
  dp_rows :: "'s \<Rightarrow> job list"
  dp_enqueue :: "job_kind \<Rightarrow> string \<Rightarrow> string \<Rightarrow> json \<Rightarrow> int \<Rightarrow> 's \<Rightarrow> (int \<times> bool) res \<times> 's"
  dp_claim :: "string \<Rightarrow> int \<Rightarrow> int \<Rightarrow> 's \<Rightarrow> job option \<times> 's"
  dp_heartbeat :: "int \<Rightarrow> string \<Rightarrow> int \<Rightarrow> int \<Rightarrow> 's \<Rightarrow> bool \<times> 's"
  dp_complete :: "int \<Rightarrow> 's \<Rightarrow> unit res \<times> 's"
  dp_fail :: "job \<Rightarrow> string \<Rightarrow> int \<Rightarrow> int \<Rightarrow> 's \<Rightarrow> job_status res \<times> 's"
  dp_reclaim :: "int \<Rightarrow> 's \<Rightarrow> int \<times> 's"

definition pg_dispatcher :: "pg_queue dispatcher" where
  "pg_dispatcher = \<lparr>dp_rows = jt_rows, dp_enqueue = pg_enqueue, dp_claim = pg_claim,
     dp_heartbeat = pg_heartbeat, dp_complete = pg_complete, dp_fail = pg_fail, dp_reclaim = pg_reclaim_expired\<rparr>"

definition mem_dispatcher :: "mem_queue dispatcher" where
  "mem_dispatcher = \<lparr>dp_rows = mq_jobs, dp_enqueue = (\<lambda>k t key p now. mem_enqueue k t key p),
     dp_claim = mem_claim, dp_heartbeat = mem_heartbeat, dp_complete = mem_complete, dp_fail = mem_fail,
     dp_reclaim = mem_reclaim_expired\<rparr>"

fun put_answer :: "(int \<times> bool) res \<Rightarrow> answer" where
  "put_answer (Inl e) = Put_refused e"
| "put_answer (Inr (i, created)) = (if created then Put_new else Put_known)"

definition report_answer :: "job_status res \<Rightarrow> answer" where
  "report_answer r = (case r of Inl e \<Rightarrow> No_such_job | Inr s \<Rightarrow> Reported s)"

definition with_job :: "'s dispatcher \<Rightarrow> string \<Rightarrow> 's \<Rightarrow> (job \<Rightarrow> answer \<times> 's) \<Rightarrow> answer \<times> 's" where
  "with_job dp key s f = (case by_key key (dp_rows dp s) of None \<Rightarrow> (No_such_job, s) | Some j \<Rightarrow> f j)"

fun dispatch :: "'s dispatcher \<Rightarrow> int \<Rightarrow> command \<Rightarrow> 's \<Rightarrow> answer \<times> 's" where
  "dispatch dp now (Put k t key p) s = map_prod put_answer id (dp_enqueue dp k t key p now s)"
| "dispatch dp now (Take w l) s = map_prod (\<lambda>r. Taken (map_option handed r)) id (dp_claim dp w l now s)"
| "dispatch dp now (Keep key w l) s =
     with_job dp key s (\<lambda>j. map_prod Kept id (dp_heartbeat dp (jb_id j) w l now s))"
| "dispatch dp now (Finish key) s =
     with_job dp key s (\<lambda>j. map_prod (\<lambda>_. Finished) id (dp_complete dp (jb_id j) s))"
| "dispatch dp now (Report key n e d) s =
     with_job dp key s (\<lambda>j. map_prod report_answer id (dp_fail dp (j\<lparr>jb_attempts := n\<rparr>) e d now s))"
| "dispatch dp now Reclaim s = map_prod Reclaimed id (dp_reclaim dp now s)"

text \<open>A history of commands with their times.\<close>

fun history :: "(int \<Rightarrow> command \<Rightarrow> 's \<Rightarrow> answer \<times> 's) \<Rightarrow> (int \<times> command) list \<Rightarrow> 's \<Rightarrow> answer list \<times> 's" where
  "history step [] s = ([], s)"
| "history step ((now, c) # cs) s =
     (case step now c s of (a, s1) \<Rightarrow> (case history step cs s1 of (as, s2) \<Rightarrow> (a # as, s2)))"

text \<open>Every failure is reported under the latest claim of the job: nobody else has claimed it since.\<close>

definition report_current :: "command \<Rightarrow> work_queue \<Rightarrow> bool" where
  "report_current c q = (case c of
       Report key n e d \<Rightarrow> (case by_key key (wq_items q) of None \<Rightarrow> True | Some j \<Rightarrow> jb_attempts j = n)
     | _ \<Rightarrow> True)"

fun reports_current ::
  "(int \<Rightarrow> command \<Rightarrow> work_queue \<Rightarrow> answer \<times> work_queue) \<Rightarrow> (int \<times> command) list \<Rightarrow> work_queue \<Rightarrow> bool" where
  "reports_current step [] q = True"
| "reports_current step ((now, c) # cs) q =
     (report_current c q \<and> reports_current step cs (snd (step now c q)))"

section \<open>Forgetting the numbers\<close>

lemma anon_sel [simp]:
  "jb_key (anon j) = jb_key j" "jb_status (anon j) = jb_status j" "jb_attempts (anon j) = jb_attempts j"
  "jb_max_attempts (anon j) = jb_max_attempts j" "jb_lease_owner (anon j) = jb_lease_owner j"
  "ready now (anon j) = ready now j" "lease_expired now (anon j) = lease_expired now j" "is_active (anon j) = is_active j" "beats key w (anon j) = beats key w j"
  by (simp_all add: anon_def ready_def lease_expired_def is_active_def beats_def)

lemma anon_update [simp]:
  "expire now (anon j) = anon (expire now j)" "lease_to w l now (anon j) = anon (lease_to w l now j)"
  "extend_lease l now (anon j) = anon (extend_lease l now j)" "succeed (anon j) = anon (succeed j)"
  "bury e (anon j) = anon (bury e j)" "requeue e t (anon j) = anon (requeue e t j)"
  "mem_expire now (anon j) = anon (mem_expire now j)" "handed (anon j) = handed j"
  by (simp_all add: handed_def anon_def mem_expire_def expire_def lease_expired_def lease_to_def extend_lease_def succeed_def bury_def requeue_def)

lemma anon_new [simp]: "anon (new_job i k t key p m a) = new_job 0 k t key p m a"
  by (simp add: anon_def new_job_def)

lemma find_map: "List.find P (map f xs) = map_option f (List.find (\<lambda>x. P (f x)) xs)"
  by (induction xs) simp_all

lemma by_key_anon [simp]: "by_key key (map anon js) = map_option anon (by_key key js)"
  by (simp add: by_key_def find_map)

lemma depth_anon [simp]: "queue_depth (map anon js) = queue_depth js"
  by (simp add: queue_depth_def filter_map o_def)

lemma at_key_anon: "(\<And>j. f (anon j) = anon (f j)) \<Longrightarrow> at_key key f (map anon js) = map anon (at_key key f js)"
  by (simp add: at_key_def)

lemma map_expire_anon: "map (expire now) (map anon js) = map anon (map (expire now) js)"
  by simp

lemma by_keyD: "by_key key js = Some j \<Longrightarrow> j \<in> set js \<and> jb_key j = key"
  by (auto simp: by_key_def find_Some_iff in_set_conv_nth)

lemma by_key_None: "by_key key js = None \<longleftrightarrow> key \<notin> jb_key ` set js"
  by (auto simp: by_key_def find_None_iff)

lemma same_job:
  "queue_ok js \<Longrightarrow> x \<in> set js \<Longrightarrow> j \<in> set js \<Longrightarrow> jb_id x = jb_id j \<longleftrightarrow> jb_key x = jb_key j"
  unfolding queue_ok_def distinct_map by (metis inj_onD)

lemma update_at_key:
  "queue_ok js \<Longrightarrow> j \<in> set js \<Longrightarrow> update_job (jb_id j) f js = at_key (jb_key j) f js"
  unfolding update_job_def at_key_def by (intro map_cong) (simp_all add: same_job)

section \<open>The refinement\<close>

definition numbered :: "job list \<Rightarrow> bool" where
  "numbered js = (queue_ok js \<and> sorted_wrt (<) (map jb_id js))"

lemma numbered_sort: "numbered js \<Longrightarrow> sort_key jb_id (map (expire now) js) = map (expire now) js"
  by (rule sort_key_id_if_sorted) (auto simp: numbered_def o_def strict_sorted_iff sorted_wrt_map[symmetric] strict_sorted_imp_sorted)

definition seen :: "'s dispatcher \<Rightarrow> ('s \<Rightarrow> int) \<Rightarrow> ('s \<Rightarrow> int) \<Rightarrow> 's \<Rightarrow> work_queue" where
  "seen dp capacity tries s =
     \<lparr>wq_items = map anon (dp_rows dp s), wq_capacity = capacity s, wq_attempts = tries s\<rparr>"

locale numbered_queue =
  fixes dp :: "'s dispatcher" and inv :: "'s \<Rightarrow> bool" and capacity :: "'s \<Rightarrow> int" and tries :: "'s \<Rightarrow> int"
    and clock :: "int \<Rightarrow> int" and lapse :: "int \<Rightarrow> job \<Rightarrow> job"
  assumes rows_numbered: "inv s \<Longrightarrow> numbered (dp_rows dp s)"
    and put_known: "inv s \<Longrightarrow> dp_enqueue dp k t key p now s = (r, s') \<Longrightarrow> by_key key (dp_rows dp s) = Some j \<Longrightarrow>
      r = Inr (jb_id j, False) \<and> dp_rows dp s' = dp_rows dp s"
    and put_full: "inv s \<Longrightarrow> dp_enqueue dp k t key p now s = (r, s') \<Longrightarrow> by_key key (dp_rows dp s) = None \<Longrightarrow>
      queue_depth (dp_rows dp s) \<ge> capacity s \<Longrightarrow>
      r = Inl (queue_full (queue_depth (dp_rows dp s)) (capacity s)) \<and> dp_rows dp s' = dp_rows dp s"
    and put_new: "inv s \<Longrightarrow> dp_enqueue dp k t key p now s = (r, s') \<Longrightarrow> by_key key (dp_rows dp s) = None \<Longrightarrow>
      queue_depth (dp_rows dp s) < capacity s \<Longrightarrow>
      \<exists>i. r = Inr (i, True) \<and> dp_rows dp s' = dp_rows dp s @ [new_job i k t key p (tries s) (clock now)]"
    and take: "inv s \<Longrightarrow> dp_claim dp w l now s = (got, s') \<Longrightarrow>
      sql_claim_next w l now (map (expire now) (dp_rows dp s)) = (got, dp_rows dp s')"
    and keep: "inv s \<Longrightarrow> dp_heartbeat dp i w l now s = (b, s') \<Longrightarrow>
      sql_heartbeat i w l now (dp_rows dp s) = (b, dp_rows dp s')"
    and finish: "inv s \<Longrightarrow> j \<in> set (dp_rows dp s) \<Longrightarrow>
      dp_rows dp (snd (dp_complete dp (jb_id j) s)) = update_job (jb_id j) succeed (dp_rows dp s)"
    and report: "inv s \<Longrightarrow> j \<in> set (dp_rows dp s) \<Longrightarrow> dp_fail dp j e d now s = (x, s') \<Longrightarrow>
      \<exists>st. x = Inr st \<and> sql_fail j e d now (dp_rows dp s) = (st, dp_rows dp s')"
    and reclaim: "inv s \<Longrightarrow> dp_reclaim dp now s = (n, s') \<Longrightarrow>
      n = int (length (filter (lease_expired now) (dp_rows dp s))) \<and> dp_rows dp s' = map (lapse now) (dp_rows dp s)"
    and lapse_anon: "lapse now (anon y) = anon (lapse now y)"
    and settings_kept: "inv s \<Longrightarrow> s' \<in> {snd (dp_enqueue dp k t key p now s), snd (dp_claim dp w l now s),
        snd (dp_heartbeat dp i w l now s), snd (dp_complete dp i s), snd (dp_fail dp j e d now s),
        snd (dp_reclaim dp now s)} \<Longrightarrow>
      inv s' \<and> capacity s' = capacity s \<and> tries s' = tries s"
begin

lemma found:
  assumes "inv s" and "by_key key (dp_rows dp s) = Some j"
  shows "j \<in> set (dp_rows dp s)" "jb_key j = key"
    "update_job (jb_id j) f (dp_rows dp s) = at_key key f (dp_rows dp s)"
proof -
  show j: "j \<in> set (dp_rows dp s)" "jb_key j = key" using by_keyD[OF assms(2)] by simp_all
  show "update_job (jb_id j) f (dp_rows dp s) = at_key key f (dp_rows dp s)"
    using update_at_key[OF _ j(1), of f] rows_numbered[OF assms(1)] j(2) by (simp add: numbered_def)
qed

lemma put_refines:
  assumes i: "inv s"
  shows "dispatch dp now (Put k t key p) s = (a, s') \<Longrightarrow>
    timed_do clock lapse now (Put k t key p) (seen dp capacity tries s) = (a, seen dp capacity tries s') \<and> inv s'"
proof -
  assume d: "dispatch dp now (Put k t key p) s = (a, s')"
  obtain r where e: "dp_enqueue dp k t key p now s = (r, s')" and a: "a = put_answer r"
    using d by (cases "dp_enqueue dp k t key p now s") auto
  have same: "inv s' \<and> capacity s' = capacity s \<and> tries s' = tries s"
    using settings_kept[OF i, of s'] e by (metis insertI1 snd_conv)
  show ?thesis
  proof (cases "by_key key (dp_rows dp s)")
    case (Some j)
    with put_known[OF i e Some] same show ?thesis by (simp add: abstract_put_def seen_def a)
  next
    case None
    show ?thesis
    proof (cases "queue_depth (dp_rows dp s) \<ge> capacity s")
      case True
      with put_full[OF i e None True] None same show ?thesis by (simp add: abstract_put_def seen_def a)
    next
      case False
      then obtain n where "r = Inr (n, True)" "dp_rows dp s' = dp_rows dp s @ [new_job n k t key p (tries s) (clock now)]"
        using put_new[OF i e None] by auto
      with None False same show ?thesis by (simp add: abstract_put_def seen_def a)
    qed
  qed
qed

lemma take_refines:
  assumes i: "inv s"
  shows "dispatch dp now (Take w l) s = (a, s') \<Longrightarrow>
    timed_do clock lapse now (Take w l) (seen dp capacity tries s) = (a, seen dp capacity tries s') \<and> inv s'"
proof -
  assume d: "dispatch dp now (Take w l) s = (a, s')"
  obtain r where c: "dp_claim dp w l now s = (r, s')" and a: "a = Taken (map_option handed r)"
    using d by (cases "dp_claim dp w l now s") auto
  have same: "inv s' \<and> capacity s' = capacity s \<and> tries s' = tries s"
    using settings_kept[OF i, of s'] c by (metis insertI1 insertI2 snd_conv)
  let ?js = "map (expire now) (dp_rows dp s)"
  have n: "sort_key jb_id ?js = ?js" by (rule numbered_sort[OF rows_numbered[OF i]])
  have ok: "queue_ok ?js" using rows_numbered[OF i] keeps_map[OF job_updates(1)] by (simp add: numbered_def)
  show ?thesis
  proof (cases "List.find (ready now) ?js")
    case None
    then have "r = None" "dp_rows dp s' = ?js" using take[OF i c] by (simp_all add: sql_claim_next_def n)
    then show ?thesis using None same
      by (simp add: abstract_take_def seen_def a find_map o_def)
  next
    case (Some j)
    then have j: "j \<in> set ?js" by (metis find_Some_iff nth_mem)
    have "r = Some (lease_to w l now j)" "dp_rows dp s' = at_key (jb_key j) (lease_to w l now) ?js"
      using take[OF i c] Some by (simp_all add: sql_claim_next_def n update_at_key[OF ok j])
    moreover have "List.find (ready now) (map (expire now) (map anon (dp_rows dp s))) = Some (anon j)"
      using Some by (auto simp: find_map o_def)
    ultimately show ?thesis using same
      unfolding timed_do.simps abstract_take_def seen_def work_queue.select_convs map_expire_anon Let_def a
      by (simp add: at_key_anon del: map_map)
  qed
qed

lemma keep_refines:
  assumes i: "inv s"
  shows "dispatch dp now (Keep key w l) s = (a, s') \<Longrightarrow>
    timed_do clock lapse now (Keep key w l) (seen dp capacity tries s) = (a, seen dp capacity tries s') \<and> inv s'"
proof -
  assume d: "dispatch dp now (Keep key w l) s = (a, s')"
  show ?thesis
  proof (cases "by_key key (dp_rows dp s)")
    case None
    then show ?thesis using d i by (simp add: with_job_def abstract_keep_def seen_def)
  next
    case (Some j)
    then obtain b where h: "dp_heartbeat dp (jb_id j) w l now s = (b, s')" and a: "a = Kept b"
      using d by (cases "dp_heartbeat dp (jb_id j) w l now s") (auto simp: with_job_def)
    have same: "inv s' \<and> capacity s' = capacity s \<and> tries s' = tries s"
      using settings_kept[OF i, of s'] h by (metis insertI1 insertI2 snd_conv)
    note f = found[OF i Some]
    have hit: "(jb_id x = jb_id j \<and> jb_status x = Running \<and> jb_lease_owner x = Some w) = beats key w x"
      if "x \<in> set (dp_rows dp s)" for x
      using that f(1,2) same_job[of "dp_rows dp s" x j] rows_numbered[OF i] by (auto simp: beats_def numbered_def)
    have "b = list_ex (beats key w) (dp_rows dp s)"
      using keep[OF i h] hit by (auto simp: sql_heartbeat_def Let_def list_ex_iff)
    moreover have "map (\<lambda>x. if beats key w x then extend_lease l now x else x) (dp_rows dp s) =
        snd (sql_heartbeat (jb_id j) w l now (dp_rows dp s))"
      unfolding sql_heartbeat_def Let_def snd_conv by (intro map_cong) (simp_all add: hit)
    ultimately have "b = list_ex (beats key w) (dp_rows dp s)"
      "dp_rows dp s' = map (\<lambda>x. if beats key w x then extend_lease l now x else x) (dp_rows dp s)"
      using keep[OF i h] by simp_all
    then show ?thesis using Some same
      by (simp add: abstract_keep_def seen_def a list_ex_iff o_def)
  qed
qed

lemma finish_refines:
  assumes i: "inv s"
  shows "dispatch dp now (Finish key) s = (a, s') \<Longrightarrow>
    timed_do clock lapse now (Finish key) (seen dp capacity tries s) = (a, seen dp capacity tries s') \<and> inv s'"
proof -
  assume d: "dispatch dp now (Finish key) s = (a, s')"
  show ?thesis
  proof (cases "by_key key (dp_rows dp s)")
    case None
    then show ?thesis using d i by (simp add: with_job_def abstract_finish_def seen_def)
  next
    case (Some j)
    then have s': "s' = snd (dp_complete dp (jb_id j) s)" and a: "a = Finished"
      using d by (cases "dp_complete dp (jb_id j) s"; simp add: with_job_def)+
    have same: "inv s' \<and> capacity s' = capacity s \<and> tries s' = tries s"
      using settings_kept[OF i, of s'] s' by (metis insertI1 insertI2)
    note f = found[OF i Some]
    show ?thesis using finish[OF i f(1)] f(3)[of succeed] Some same
      by (simp add: abstract_finish_def seen_def a at_key_anon s')
  qed
qed

lemma report_refines:
  assumes i: "inv s" and n: "report_current (Report key n e d) (seen dp capacity tries s)"
  shows "dispatch dp now (Report key n e d) s = (a, s') \<Longrightarrow>
    timed_do clock lapse now (Report key n e d) (seen dp capacity tries s) = (a, seen dp capacity tries s') \<and> inv s'"
proof -
  assume dis: "dispatch dp now (Report key n e d) s = (a, s')"
  show ?thesis
  proof (cases "by_key key (dp_rows dp s)")
    case None
    then show ?thesis using dis i by (simp add: with_job_def abstract_report_def seen_def)
  next
    case (Some j)
    then have "j\<lparr>jb_attempts := n\<rparr> = j" using n by (simp add: report_current_def seen_def)
    then obtain x where x: "dp_fail dp j e d now s = (x, s')" and a: "a = report_answer x"
      using dis Some by (cases "dp_fail dp j e d now s") (auto simp: with_job_def)
    have same: "inv s' \<and> capacity s' = capacity s \<and> tries s' = tries s"
      using settings_kept[OF i, of s'] x by (metis insertI1 insertI2 snd_conv)
    note f = found[OF i Some]
    obtain st where st: "x = Inr st" "sql_fail j e d now (dp_rows dp s) = (st, dp_rows dp s')"
      using report[OF i f(1) x] by blast
    show ?thesis using st(2) f(3)[of "bury e"] f(3)[of "requeue e (now + d)"] Some same
      by (auto simp: sql_fail_def abstract_report_def seen_def a st(1) report_answer_def at_key_anon split: if_splits)
  qed
qed

lemma reclaim_refines:
  assumes i: "inv s"
  shows "dispatch dp now Reclaim s = (a, s') \<Longrightarrow>
    timed_do clock lapse now Reclaim (seen dp capacity tries s) = (a, seen dp capacity tries s') \<and> inv s'"
proof -
  assume d: "dispatch dp now Reclaim s = (a, s')"
  then obtain n where r: "dp_reclaim dp now s = (n, s')" and a: "a = Reclaimed n" by (cases "dp_reclaim dp now s") auto
  have "inv s' \<and> capacity s' = capacity s \<and> tries s' = tries s"
    using settings_kept[OF i, of s'] r by (metis insertI1 insertI2 snd_conv)
  then show ?thesis using reclaim[OF i r]
    by (simp add: abstract_reclaim_def seen_def a lapse_anon filter_map o_def)
qed

lemma dispatch_refines:
  assumes "inv s" and "report_current c (seen dp capacity tries s)" and "dispatch dp now c s = (a, s')"
  shows "timed_do clock lapse now c (seen dp capacity tries s) = (a, seen dp capacity tries s') \<and> inv s'"
  using assms put_refines take_refines keep_refines finish_refines report_refines reclaim_refines by (cases c) metis+

lemma history_refines:
  "inv s \<Longrightarrow> reports_current (timed_do clock lapse) cs (seen dp capacity tries s) \<Longrightarrow>
     history (timed_do clock lapse) cs (seen dp capacity tries s) =
     map_prod id (seen dp capacity tries) (history (dispatch dp) cs s)"
proof (induction cs arbitrary: s)
  case (Cons c cs)
  obtain now cmd where c: "c = (now, cmd)" by (cases c)
  obtain a s' where d: "dispatch dp now cmd s = (a, s')" by fastforce
  with Cons show ?case using dispatch_refines[OF Cons.prems(1) _ d]
    by (simp add: c split: prod.split)
qed simp

end

text \<open>Both dispatchers meet it.\<close>

definition pg_numbered :: "pg_queue \<Rightarrow> bool" where
  "pg_numbered q = (pg_inv q \<and> sorted_wrt (<) (map jb_id (jt_rows q)))"

definition mem_numbered :: "mem_queue \<Rightarrow> bool" where
  "mem_numbered q = (mem_inv q \<and> sorted_wrt (<) (map jb_id (mq_jobs q)))"

lemma ids_snoc: "sorted_wrt (<) (map jb_id js) \<Longrightarrow> \<forall>j\<in>set js. jb_id j < i \<Longrightarrow> jb_id x = i \<Longrightarrow>
    sorted_wrt (<) (map jb_id (js @ [x]))"
  by (auto simp: sorted_wrt_append)

lemma ids_claim: "sql_claim_next w l now (map (expire now) js) = (r, js') \<Longrightarrow> map jb_id js' = map jb_id js"
  using ids_update[OF job_updates(3)] by (auto simp: sql_claim_next_def o_def split: option.splits)

lemma ids_heartbeat: "sql_heartbeat i w l now js = (b, js') \<Longrightarrow> map jb_id js' = map jb_id js"
  by (auto simp: sql_heartbeat_def Let_def extend_lease_def)

lemma ids_fail: "sql_fail j e d now js = (st, js') \<Longrightarrow> map jb_id js' = map jb_id js"
  using ids_update[OF job_updates(5)] ids_update[OF job_updates(6)] by (auto simp: sql_fail_def split: if_splits)

lemma pg_numbered_step:
  assumes "pg_numbered q"
  shows "pg_numbered (snd (pg_enqueue k t key p now q))" "pg_numbered (snd (pg_claim w l now q))"
    "pg_numbered (snd (pg_heartbeat i w l now q))" "pg_numbered (snd (pg_complete i q))"
    "pg_numbered (snd (pg_fail j e d now q))" "pg_numbered (snd (pg_reclaim_expired now q))"
proof -
  have inv: "pg_inv q" and s: "sorted_wrt (<) (map jb_id (jt_rows q))" using assms by (simp_all add: pg_numbered_def)
  show "pg_numbered (snd (pg_enqueue k t key p now q))"
    using pg.inv_enqueue[OF inv, of k t key p now] s inv
      ids_snoc[of "jt_rows q" "jt_next q" "new_job (jt_next q) k t key p (pg_max_attempts q) now"]
    by (auto simp: pg_numbered_def pg_inv_def pg_enqueue_def sql_enqueue_def job_table.defs new_job_def split: option.splits)
  show "pg_numbered (snd (pg_claim w l now q))"
    using pg.inv_claim[OF inv, of w l now] s
      ids_claim[of w l now "jt_rows q" "fst (pg_claim w l now q)" "jt_rows (snd (pg_claim w l now q))"]
    by (simp add: pg_numbered_def pg.claim_rows)
  show "pg_numbered (snd (pg_heartbeat i w l now q))"
    using pg.inv_heartbeat[OF inv, of i w l now] s ids_heartbeat[of i w l now "jt_rows q"]
    by (auto simp: pg_numbered_def pg_heartbeat_def split: prod.splits)
  show "pg_numbered (snd (pg_complete i q))"
    using pg.inv_complete[OF inv, of i] s ids_update[OF job_updates(4)]
    by (simp add: pg_numbered_def pg_complete_def sql_complete_def)
  show "pg_numbered (snd (pg_fail j e d now q))"
    using pg.inv_fail[OF inv, of j e d now] s ids_fail[of j e d now "jt_rows q"]
    by (auto simp: pg_numbered_def pg_fail_def split: prod.splits)
  show "pg_numbered (snd (pg_reclaim_expired now q))"
    using pg_reclaim_inv[OF inv, of now] s by (simp add: pg_numbered_def pg_reclaim_expired_def sql_reclaim_expired_def o_def)
qed

lemma pg_settings:
  "pg_capacity (snd (pg_enqueue k t key p now q)) = pg_capacity q"
  "pg_max_attempts (snd (pg_enqueue k t key p now q)) = pg_max_attempts q"
  "pg_capacity (snd (pg_claim w l now q)) = pg_capacity q"
  "pg_max_attempts (snd (pg_claim w l now q)) = pg_max_attempts q"
  "pg_capacity (snd (pg_heartbeat i w l now q)) = pg_capacity q"
  "pg_max_attempts (snd (pg_heartbeat i w l now q)) = pg_max_attempts q"
  "pg_capacity (snd (pg_complete i q)) = pg_capacity q"
  "pg_max_attempts (snd (pg_complete i q)) = pg_max_attempts q"
  "pg_capacity (snd (pg_fail j e d now q)) = pg_capacity q"
  "pg_max_attempts (snd (pg_fail j e d now q)) = pg_max_attempts q"
  "pg_capacity (snd (pg_reclaim_expired now q)) = pg_capacity q"
  "pg_max_attempts (snd (pg_reclaim_expired now q)) = pg_max_attempts q"
  by (simp_all add: pg_reclaim_expired_def pg_enqueue_def pg_claim_def pg_heartbeat_def pg_complete_def pg_fail_def split: prod.split)

interpretation pgq: numbered_queue pg_dispatcher pg_numbered pg_capacity pg_max_attempts "\<lambda>now. now" expire
proof
  fix s s' :: pg_queue and k t key p now w l i e d j r got b x n and y :: job
  show "expire now (anon y) = anon (expire now y)" by simp
  assume n: "pg_numbered s"
  then have inv: "pg_inv s" by (simp add: pg_numbered_def)
  then have ok: "queue_ok (jt_rows s)" by (simp add: pg_inv_def)
  show "numbered (dp_rows pg_dispatcher s)"
    using n ok by (simp add: numbered_def pg_numbered_def pg_dispatcher_def)
  show "r = Inr (jb_id j, False) \<and> dp_rows pg_dispatcher s' = dp_rows pg_dispatcher s"
    if "dp_enqueue pg_dispatcher k t key p now s = (r, s')" "by_key key (dp_rows pg_dispatcher s) = Some j"
    using that pg.enqueue_known[OF inv, of j key k t p now] by_keyD[OF that(2)] by (simp add: pg_dispatcher_def)
  show "r = Inl (queue_full (queue_depth (dp_rows pg_dispatcher s)) (pg_capacity s)) \<and>
      dp_rows pg_dispatcher s' = dp_rows pg_dispatcher s"
    if "dp_enqueue pg_dispatcher k t key p now s = (r, s')" "by_key key (dp_rows pg_dispatcher s) = None"
      "pg_capacity s \<le> queue_depth (dp_rows pg_dispatcher s)"
    using that by (auto simp: pg_dispatcher_def pg_enqueue_def by_key_def find_None_iff)
  show "\<exists>i. r = Inr (i, True) \<and> dp_rows pg_dispatcher s' =
      dp_rows pg_dispatcher s @ [new_job i k t key p (pg_max_attempts s) now]"
    if "dp_enqueue pg_dispatcher k t key p now s = (r, s')" "by_key key (dp_rows pg_dispatcher s) = None"
      "queue_depth (dp_rows pg_dispatcher s) < pg_capacity s"
    using that by (auto simp: pg_dispatcher_def pg_enqueue_def sql_enqueue_def by_key_def job_table.defs)
  show "sql_claim_next w l now (map (expire now) (dp_rows pg_dispatcher s)) = (got, dp_rows pg_dispatcher s')"
    if "dp_claim pg_dispatcher w l now s = (got, s')"
    using that pg.claim_rows by (simp add: pg_dispatcher_def)
  show "sql_heartbeat i w l now (dp_rows pg_dispatcher s) = (b, dp_rows pg_dispatcher s')"
    if "dp_heartbeat pg_dispatcher i w l now s = (b, s')"
    using that by (auto simp: pg_dispatcher_def pg_heartbeat_def split: prod.splits)
  show "dp_rows pg_dispatcher (snd (dp_complete pg_dispatcher (jb_id j) s)) =
      update_job (jb_id j) succeed (dp_rows pg_dispatcher s)"
    by (simp add: pg_dispatcher_def pg_complete_def sql_complete_def)
  show "\<exists>st. x = Inr st \<and> sql_fail j e d now (dp_rows pg_dispatcher s) = (st, dp_rows pg_dispatcher s')"
    if "dp_fail pg_dispatcher j e d now s = (x, s')"
    using that by (auto simp: pg_dispatcher_def pg_fail_def split: prod.splits)
  show "n = int (length (filter (lease_expired now) (dp_rows pg_dispatcher s))) \<and>
      dp_rows pg_dispatcher s' = map (expire now) (dp_rows pg_dispatcher s)"
    if "dp_reclaim pg_dispatcher now s = (n, s')"
    using that by (auto simp: pg_dispatcher_def pg_reclaim_expired_def sql_reclaim_expired_def)
  show "pg_numbered s' \<and> pg_capacity s' = pg_capacity s \<and> pg_max_attempts s' = pg_max_attempts s"
    if "s' \<in> {snd (dp_enqueue pg_dispatcher k t key p now s), snd (dp_claim pg_dispatcher w l now s),
        snd (dp_heartbeat pg_dispatcher i w l now s), snd (dp_complete pg_dispatcher i s), snd (dp_fail pg_dispatcher j e d now s),
        snd (dp_reclaim pg_dispatcher now s)}"
    using that pg_numbered_step[OF n] pg_settings by (auto simp: pg_dispatcher_def)
qed

lemma mem_settings:
  "mq_capacity (snd (mem_enqueue k t key p q)) = mq_capacity q"
  "mq_max_attempts (snd (mem_enqueue k t key p q)) = mq_max_attempts q"
  "mq_capacity (snd (mem_claim w l now q)) = mq_capacity q"
  "mq_max_attempts (snd (mem_claim w l now q)) = mq_max_attempts q"
  "mq_capacity (snd (mem_heartbeat i w l now q)) = mq_capacity q"
  "mq_max_attempts (snd (mem_heartbeat i w l now q)) = mq_max_attempts q"
  "mq_capacity (snd (mem_complete i q)) = mq_capacity q"
  "mq_max_attempts (snd (mem_complete i q)) = mq_max_attempts q"
  "mq_capacity (snd (mem_fail j e d now q)) = mq_capacity q"
  "mq_max_attempts (snd (mem_fail j e d now q)) = mq_max_attempts q"
  "mq_capacity (snd (mem_reclaim_expired now q)) = mq_capacity q"
  "mq_max_attempts (snd (mem_reclaim_expired now q)) = mq_max_attempts q"
  by (simp_all add: mem_reclaim_expired_def mem_enqueue_def mem_claim_def mem_heartbeat_def mem_complete_def mem_fail_def Let_def
      split: prod.split option.split)

lemma mem_numbered_step:
  assumes "mem_numbered q"
  shows "mem_numbered (snd (mem_enqueue k t key p q))" "mem_numbered (snd (mem_claim w l now q))"
    "mem_numbered (snd (mem_heartbeat i w l now q))" "mem_numbered (snd (mem_complete i q))"
    "mem_numbered (snd (mem_fail j e d now q))" "mem_numbered (snd (mem_reclaim_expired now q))"
proof -
  have inv: "mem_inv q" and s: "sorted_wrt (<) (map jb_id (mq_jobs q))" using assms by (simp_all add: mem_numbered_def)
  then have ok: "queue_ok (mq_jobs q)" by (simp add: mem_inv_def)
  show "mem_numbered (snd (mem_enqueue k t key p q))"
    using mem.inv_enqueue[OF inv, of k t key p] s inv
      ids_snoc[of "mq_jobs q" "mq_next q" "new_job (mq_next q) k t key p (mq_max_attempts q) 0"]
    by (auto simp: mem_numbered_def mem_inv_def mem_enqueue_def new_job_def split: option.splits)
  show "mem_numbered (snd (mem_claim w l now q))"
    using mem.inv_claim[OF inv, of w l now] s
      ids_claim[of w l now "mq_jobs q" "fst (mem_claim w l now q)" "mq_jobs (snd (mem_claim w l now q))"]
    by (simp add: mem_numbered_def mem.claim_rows)
  show "mem_numbered (snd (mem_heartbeat i w l now q))"
    using mem.inv_heartbeat[OF inv, of i w l now] s ids_heartbeat[of i w l now "mq_jobs q"]
    by (auto simp: mem_numbered_def mem_heartbeat_rows[OF ok] split: prod.splits)
  show "mem_numbered (snd (mem_complete i q))"
    using mem.inv_complete[OF inv, of i] s ids_update[OF job_updates(4)]
    by (simp add: mem_numbered_def mem_complete_def)
  show "mem_numbered (snd (mem_fail j e d now q))"
    using mem.inv_fail[OF inv, of j e d now] s ids_update[OF job_updates(5)] ids_update[OF job_updates(6)]
    by (auto simp: mem_numbered_def mem_fail_def split: option.splits)
  have "mem_inv (q\<lparr>mq_jobs := map (mem_expire now) (mq_jobs q)\<rparr>)"
    using inv keeps_map[OF job_updates(2) ok] bounded_map[OF job_updates(2)] keys_map[OF job_updates(2)]
    by (intro mem_inv_rows) (auto simp: mem_inv_def)
  then show "mem_numbered (snd (mem_reclaim_expired now q))"
    using s by (simp add: mem_numbered_def mem_reclaim_expired_def o_def)
qed

lemma find_id: "queue_ok js \<Longrightarrow> j \<in> set js \<Longrightarrow> List.find (\<lambda>x. jb_id x = jb_id j) js = Some j"
proof -
  assume ok: "queue_ok js" and j: "j \<in> set js"
  then obtain x where x: "List.find (\<lambda>x. jb_id x = jb_id j) js = Some x"
    by (cases "List.find (\<lambda>x. jb_id x = jb_id j) js") (auto simp: find_None_iff)
  then have "x \<in> set js" "jb_id x = jb_id j" by (auto simp: find_Some_iff in_set_conv_nth)
  then have "x = j" using ok j unfolding queue_ok_def distinct_map by (metis inj_onD)
  then show ?thesis using x by simp
qed

interpretation memq: numbered_queue mem_dispatcher mem_numbered mq_capacity mq_max_attempts "\<lambda>now. 0" mem_expire
proof
  fix s s' :: mem_queue and k t key p now w l i e d j r got b x n and y :: job
  show "mem_expire now (anon y) = anon (mem_expire now y)" by simp
  assume n: "mem_numbered s"
  then have inv: "mem_inv s" by (simp add: mem_numbered_def)
  then have ok: "queue_ok (mq_jobs s)" and idx: "mq_by_key s = map (\<lambda>j. (jb_key j, jb_id j)) (mq_jobs s)"
    by (simp_all add: mem_inv_def)
  have none: "map_of (mq_by_key s) key = None" if "by_key key (mq_jobs s) = None" for key
    using that by (simp add: idx by_key_missing by_key_None)
  show "numbered (dp_rows mem_dispatcher s)"
    using n ok by (simp add: numbered_def mem_numbered_def mem_dispatcher_def)
  show "r = Inr (jb_id j, False) \<and> dp_rows mem_dispatcher s' = dp_rows mem_dispatcher s"
    if "dp_enqueue mem_dispatcher k t key p now s = (r, s')" "by_key key (dp_rows mem_dispatcher s) = Some j"
    using that mem.enqueue_known[OF inv, of j key k t p] by_keyD[OF that(2)] by (simp add: mem_dispatcher_def)
  show "r = Inl (queue_full (queue_depth (dp_rows mem_dispatcher s)) (mq_capacity s)) \<and>
      dp_rows mem_dispatcher s' = dp_rows mem_dispatcher s"
    if "dp_enqueue mem_dispatcher k t key p now s = (r, s')" "by_key key (dp_rows mem_dispatcher s) = None"
      "mq_capacity s \<le> queue_depth (dp_rows mem_dispatcher s)"
    using that none by (auto simp: mem_dispatcher_def mem_enqueue_def)
  show "\<exists>i. r = Inr (i, True) \<and> dp_rows mem_dispatcher s' =
      dp_rows mem_dispatcher s @ [new_job i k t key p (mq_max_attempts s) 0]"
    if "dp_enqueue mem_dispatcher k t key p now s = (r, s')" "by_key key (dp_rows mem_dispatcher s) = None"
      "queue_depth (dp_rows mem_dispatcher s) < mq_capacity s"
    using that none by (auto simp: mem_dispatcher_def mem_enqueue_def)
  show "sql_claim_next w l now (map (expire now) (dp_rows mem_dispatcher s)) = (got, dp_rows mem_dispatcher s')"
    if "dp_claim mem_dispatcher w l now s = (got, s')"
    using that mem.claim_rows by (simp add: mem_dispatcher_def)
  show "sql_heartbeat i w l now (dp_rows mem_dispatcher s) = (b, dp_rows mem_dispatcher s')"
    if "dp_heartbeat mem_dispatcher i w l now s = (b, s')"
    using that by (auto simp: mem_dispatcher_def mem_heartbeat_rows[OF ok] split: prod.splits)
  show "dp_rows mem_dispatcher (snd (dp_complete mem_dispatcher (jb_id j) s)) =
      update_job (jb_id j) succeed (dp_rows mem_dispatcher s)"
    by (simp add: mem_dispatcher_def mem.complete_rows)
  show "\<exists>st. x = Inr st \<and> sql_fail j e d now (dp_rows mem_dispatcher s) = (st, dp_rows mem_dispatcher s')"
    if "j \<in> set (dp_rows mem_dispatcher s)" "dp_fail mem_dispatcher j e d now s = (x, s')"
    using that find_id[OF ok, of j] by (auto simp: mem_dispatcher_def mem_fail_def sql_fail_def split: if_splits)
  show "n = int (length (filter (lease_expired now) (dp_rows mem_dispatcher s))) \<and>
      dp_rows mem_dispatcher s' = map (mem_expire now) (dp_rows mem_dispatcher s)"
    if "dp_reclaim mem_dispatcher now s = (n, s')"
    using that by (auto simp: mem_dispatcher_def mem_reclaim_expired_def)
  show "mem_numbered s' \<and> mq_capacity s' = mq_capacity s \<and> mq_max_attempts s' = mq_max_attempts s"
    if "s' \<in> {snd (dp_enqueue mem_dispatcher k t key p now s), snd (dp_claim mem_dispatcher w l now s),
        snd (dp_heartbeat mem_dispatcher i w l now s), snd (dp_complete mem_dispatcher i s), snd (dp_fail mem_dispatcher j e d now s),
        snd (dp_reclaim mem_dispatcher now s)}"
    using that mem_numbered_step[OF n] mem_settings by (auto simp: mem_dispatcher_def)
qed

section \<open>When a job that is due became available\<close>

text \<open>\<open>settle t\<close> forgets, next to the number of a job, since when it is available where that is no later than
  \<open>t\<close>, and whether the expiry of its lease was noted in an empty error: the in-memory dispatcher keeps neither.\<close>

definition settle :: "int \<Rightarrow> job \<Rightarrow> job" where
  "settle t j = (anon j)\<lparr>jb_available_at := if jb_available_at j \<le> t then 0 else jb_available_at j,
     jb_last_error := if jb_last_error j = ''lease expired'' then [] else jb_last_error j\<rparr>"

definition settled :: "int \<Rightarrow> work_queue \<Rightarrow> work_queue" where
  "settled t q = q\<lparr>wq_items := map (settle t) (wq_items q)\<rparr>"

definition alike :: "int \<Rightarrow> job \<Rightarrow> job \<Rightarrow> bool" where
  "alike t j a = (settle t j = settle t a)"

lemma alike_fields:
  assumes "0 \<le> t"
  shows "alike t j a \<longleftrightarrow> jb_kind j = jb_kind a \<and> jb_thread j = jb_thread a \<and> jb_key j = jb_key a \<and>
    jb_payload j = jb_payload a \<and> jb_status j = jb_status a \<and> jb_attempts j = jb_attempts a \<and>
    jb_max_attempts j = jb_max_attempts a \<and> jb_lease_owner j = jb_lease_owner a \<and> jb_lease_expires j = jb_lease_expires a \<and>
    (jb_available_at j = jb_available_at a \<or> jb_available_at j \<le> t \<and> jb_available_at a \<le> t) \<and>
    (jb_last_error j = jb_last_error a \<or> {jb_last_error j, jb_last_error a} \<subseteq> {[], ''lease expired''})"
  using assms by (cases j, cases a) (auto simp: alike_def settle_def anon_def)

lemma alike_later: "alike t j a \<Longrightarrow> 0 \<le> t \<Longrightarrow> t \<le> t' \<Longrightarrow> alike t' j a"
  by (auto simp: alike_fields)

definition due :: "int \<Rightarrow> job \<Rightarrow> bool" where
  "due t j = (jb_status j = Running \<longrightarrow> jb_available_at j \<le> t)"

text \<open>Jobs that are alike stay alike under every update.\<close>

lemma alike_updates:
  assumes "0 \<le> t" and "alike t j a"
  shows "alike t (expire t j) (expire t a)" "alike t (lease_to w l t j) (lease_to w l t a)"
    "alike t (extend_lease l t j) (extend_lease l t a)" "alike t (succeed j) (succeed a)" "alike t (bury e j) (bury e a)"
    "alike t (requeue e u j) (requeue e u a)" "due t j \<Longrightarrow> alike t (mem_expire t j) (expire t a)"
  using assms
  by (auto simp: alike_fields due_def expire_def mem_expire_def lease_expired_def lease_to_def extend_lease_def succeed_def
      bury_def requeue_def split: option.splits)

lemma alike_tests:
  assumes "0 \<le> t" and "alike t j a"
  shows "ready t j = ready t a" "lease_expired t j = lease_expired t a" "is_active j = is_active a"
    "beats key w j = beats key w a" "jb_key j = jb_key a" "jb_attempts j = jb_attempts a"
    "jb_max_attempts j = jb_max_attempts a"
  using assms by (auto simp: alike_fields ready_def lease_expired_def is_active_def beats_def)

lemma alike_handed: "0 \<le> t \<Longrightarrow> alike t j a \<Longrightarrow> handed (lease_to w l t j) = handed (lease_to w l t a)"
  by (cases j, cases a) (auto simp: alike_fields handed_def anon_def lease_to_def)

lemma due_updates:
  "due t j \<Longrightarrow> due t (expire t j)" "ready t j \<Longrightarrow> due t (lease_to w l t j)" "due t j \<Longrightarrow> due t (extend_lease l t j)"
  "due t (succeed j)" "due t (bury e j)" "due t (requeue e u j)" "due t j \<Longrightarrow> due t (mem_expire t j)"
  by (auto simp: due_def expire_def mem_expire_def lease_to_def extend_lease_def succeed_def bury_def
      requeue_def ready_def)

definition sim :: "int \<Rightarrow> work_queue \<Rightarrow> work_queue \<Rightarrow> bool" where
  "sim t q r = (list_all2 (alike t) (wq_items q) (wq_items r) \<and> wq_capacity q = wq_capacity r \<and>
     wq_attempts q = wq_attempts r \<and> list_all (due t) (wq_items q))"

lemma find_alike:
  "list_all2 R xs ys \<Longrightarrow> (\<And>x y. R x y \<Longrightarrow> P x = Q y) \<Longrightarrow> rel_option R (List.find P xs) (List.find Q ys)"
  by (induction rule: list_all2_induct) auto

lemma map_alike:
  "list_all2 R xs ys \<Longrightarrow> (\<And>x y. x \<in> set xs \<Longrightarrow> R x y \<Longrightarrow> R (f x) (g y)) \<Longrightarrow> list_all2 R (map f xs) (map g ys)"
  by (induction rule: list_all2_induct) auto

lemma filter_alike:
  "list_all2 R xs ys \<Longrightarrow> (\<And>x y. R x y \<Longrightarrow> P x = Q y) \<Longrightarrow> length (filter P xs) = length (filter Q ys)"
  by (induction rule: list_all2_induct) auto

lemma ex_alike:
  "list_all2 R xs ys \<Longrightarrow> (\<And>x y. R x y \<Longrightarrow> P x = Q y) \<Longrightarrow> list_ex P xs = list_ex Q ys"
  by (induction rule: list_all2_induct) auto

lemma key_alike: "0 \<le> t \<Longrightarrow> list_all2 (alike t) xs ys \<Longrightarrow> rel_option (alike t) (by_key key xs) (by_key key ys)"
  unfolding by_key_def by (rule find_alike) (simp_all add: alike_tests)

lemma at_key_alike:
  assumes "0 \<le> t" and "list_all2 (alike t) xs ys" and "\<And>x y. alike t x y \<Longrightarrow> alike t (f x) (f y)"
  shows "list_all2 (alike t) (at_key key f xs) (at_key key f ys)"
  unfolding at_key_def by (rule map_alike[OF assms(2)]) (use assms in \<open>auto simp: alike_tests\<close>)

lemma due_at_key: "list_all (due t) js \<Longrightarrow> (\<And>j. j \<in> set js \<Longrightarrow> jb_key j = key \<Longrightarrow> due t (f j)) \<Longrightarrow> list_all (due t) (at_key key f js)"
  by (auto simp: at_key_def list_all_iff)

lemma sim_take:
  assumes t: "0 \<le> now" and s: "sim now q r" and u: "distinct (map jb_key (wq_items q))"
  shows "fst (abstract_take w l now q) = fst (abstract_take w l now r) \<and>
    sim now (snd (abstract_take w l now q)) (snd (abstract_take w l now r))"
proof -
  let ?js = "map (expire now) (wq_items q)" and ?ks = "map (expire now) (wq_items r)"
  have a: "list_all2 (alike now) ?js ?ks"
    by (rule map_alike) (use s t in \<open>auto simp: sim_def alike_updates\<close>)
  have d: "list_all (due now) ?js" using s by (auto simp: sim_def list_all_iff due_updates)
  have f: "rel_option (alike now) (List.find (ready now) ?js) (List.find (ready now) ?ks)"
    by (rule find_alike[OF a]) (simp add: alike_tests t)
  show ?thesis
  proof (cases "List.find (ready now) ?js")
    case None
    moreover from this have "List.find (ready now) ?ks = None" using f by simp
    ultimately show ?thesis using a d s by (simp add: abstract_take_def sim_def)
  next
    case (Some j)
    then obtain k where k: "List.find (ready now) ?ks = Some k" "alike now j k" using f by (auto simp: option_rel_Some1)
    have j: "j \<in> set ?js" "ready now j" using Some unfolding find_Some_iff by (metis nth_mem)+
    have "distinct (map jb_key ?js)" using u by (simp add: o_def expire_def if_distrib[of jb_key] cong: if_cong)
    then have "x = j" if "x \<in> set ?js" "jb_key x = jb_key j" for x
      using that j(1) unfolding distinct_map by (metis inj_onD)
    then have "due now (lease_to w l now x)" if "x \<in> set ?js" "jb_key x = jb_key j" for x
      using that j(2) due_updates(2) by metis
    then have "list_all (due now) (at_key (jb_key j) (lease_to w l now) ?js)" by (rule due_at_key[OF d])
    moreover have "list_all2 (alike now) (at_key (jb_key j) (lease_to w l now) ?js) (at_key (jb_key j) (lease_to w l now) ?ks)"
      by (rule at_key_alike[OF t a]) (simp add: alike_updates t)
    ultimately show ?thesis using Some k s t
      by (simp add: abstract_take_def sim_def alike_handed alike_tests(5)[OF t k(2)])
  qed
qed

text \<open>The keys of the machine's jobs stay different.\<close>

lemma keys_kept [simp]:
  "jb_key (expire now j) = jb_key j" "jb_key (mem_expire now j) = jb_key j" "jb_key (lease_to w l now j) = jb_key j"
  "jb_key (extend_lease l now j) = jb_key j" "jb_key (succeed j) = jb_key j" "jb_key (bury e j) = jb_key j"
  "jb_key (requeue e u j) = jb_key j"
  by (simp_all add: expire_def mem_expire_def lease_to_def extend_lease_def succeed_def bury_def requeue_def)

lemma keys_at_key: "(\<And>j. jb_key (f j) = jb_key j) \<Longrightarrow> map jb_key (at_key key f js) = map jb_key js"
  by (simp add: at_key_def)

lemma keys_step:
  assumes "distinct (map jb_key (wq_items q))" and "\<And>j. jb_key (lapse now j) = jb_key j"
  shows "distinct (map jb_key (wq_items (snd (timed_do clock lapse now c q))))"
  using assms
  by (cases c) (auto simp: abstract_put_def abstract_take_def abstract_keep_def abstract_finish_def abstract_report_def
      abstract_reclaim_def keys_at_key Let_def o_def new_job_def by_key_None if_distrib[of jb_key] cong: if_cong
      split: option.splits)

lemma sim_step:
  assumes t: "0 \<le> now" and s: "sim now q r" and u: "distinct (map jb_key (wq_items q))"
    and clock: "clock now \<le> now" and lapse: "lapse = expire \<or> lapse = mem_expire"
  shows "fst (timed_do clock lapse now c q) = fst (abstract_do now c r) \<and>
    sim now (snd (timed_do clock lapse now c q)) (snd (abstract_do now c r)) \<and> report_current c q = report_current c r"
proof -
  have items: "list_all2 (alike now) (wq_items q) (wq_items r)" and d: "list_all (due now) (wq_items q)"
    and set: "wq_capacity q = wq_capacity r" "wq_attempts q = wq_attempts r"
    using s by (simp_all add: sim_def)
  note key = key_alike[OF t items]
  show ?thesis
  proof (cases c)
    case (Put k th key' p)
    have "queue_depth (wq_items q) = queue_depth (wq_items r)"
      unfolding queue_depth_def using filter_alike[OF items alike_tests(3)[OF t]] by simp
    moreover have "alike now (new_job 0 k th key' p n (clock now)) (new_job 0 k th key' p n now)" for n
      using clock by (simp add: alike_fields[OF t] new_job_def)
    then have "list_all2 (alike now) (wq_items q @ [new_job 0 k th key' p n (clock now)]) (wq_items r @ [new_job 0 k th key' p n now])" for n
      by (intro list_all2_appendI items) simp
    moreover have "due now (new_job 0 k th key' p n (clock now))" for n by (simp add: due_def new_job_def)
    moreover have "(by_key key' (wq_items q) = None) = (by_key key' (wq_items r) = None)"
      using key[of key'] by (auto simp: option_rel_Some1 option_rel_Some2 rel_option_iff split: option.splits)
    ultimately show ?thesis using s
      by (simp add: Put abstract_do_def abstract_put_def sim_def set report_current_def)
  next
    case (Take w l)
    then show ?thesis using sim_take[OF t s u] by (simp add: abstract_do_def report_current_def)
  next
    case (Keep key' w l)
    have "list_all2 (alike now) (map (\<lambda>j. if beats key' w j then extend_lease l now j else j) (wq_items q))
        (map (\<lambda>j. if beats key' w j then extend_lease l now j else j) (wq_items r))"
      by (rule map_alike[OF items]) (use t in \<open>auto simp: alike_tests alike_updates\<close>)
    moreover have "list_all (due now) (map (\<lambda>j. if beats key' w j then extend_lease l now j else j) (wq_items q))"
      using d by (auto simp: list_all_iff due_updates)
    moreover have "list_ex (beats key' w) (wq_items q) = list_ex (beats key' w) (wq_items r)"
      by (rule ex_alike[OF items alike_tests(4)[OF t]])
    ultimately show ?thesis using key[of key'] s
      by (auto simp: Keep abstract_do_def abstract_keep_def report_current_def sim_def rel_option_iff split: option.splits)
  next
    case (Finish key')
    have "list_all2 (alike now) (at_key key' succeed (wq_items q)) (at_key key' succeed (wq_items r))"
      by (rule at_key_alike[OF t items]) (simp add: alike_updates t)
    moreover have "list_all (due now) (at_key key' succeed (wq_items q))"
      by (rule due_at_key[OF d]) (simp add: due_updates)
    ultimately show ?thesis using key[of key'] s
      by (auto simp: Finish abstract_do_def abstract_finish_def report_current_def sim_def rel_option_iff split: option.splits)
  next
    case (Report key' n e delay)
    have "list_all2 (alike now) (at_key key' f (wq_items q)) (at_key key' f (wq_items r)) \<and>
        list_all (due now) (at_key key' f (wq_items q))" if "f \<in> {bury e, requeue e (now + delay)}" for f
      using that by (auto intro!: at_key_alike[OF t items] due_at_key[OF d] alike_updates[OF t] due_updates)
    then show ?thesis using key[of key'] s alike_tests(6,7)[OF t]
      by (auto simp: Report abstract_do_def abstract_report_def report_current_def sim_def rel_option_iff split: option.splits)
  next
    case Reclaim
    have "list_all2 (alike now) (map (lapse now) (wq_items q)) (map (expire now) (wq_items r))"
      by (rule map_alike[OF items]) (use t d lapse in \<open>auto simp: alike_updates list_all_iff\<close>)
    moreover have "list_all (due now) (map (lapse now) (wq_items q))"
      using d lapse by (auto simp: list_all_iff due_updates)
    moreover have "length (filter (lease_expired now) (wq_items q)) = length (filter (lease_expired now) (wq_items r))"
      by (rule filter_alike[OF items alike_tests(2)[OF t]])
    ultimately show ?thesis using s
      by (simp add: Reclaim abstract_do_def abstract_reclaim_def report_current_def sim_def)
  qed
qed

lemma sim_later: "sim t q r \<Longrightarrow> 0 \<le> t \<Longrightarrow> t \<le> t' \<Longrightarrow> sim t' q r"
  unfolding sim_def by (auto elim!: list_all2_mono intro: alike_later simp: list_all_iff due_def)

lemma history_sim:
  assumes "0 \<le> t" and "sim t q r" and "distinct (map jb_key (wq_items q))" and "sorted (t # map fst cs)"
    and "\<And>now. 0 \<le> now \<Longrightarrow> clock now \<le> now" and "lapse = expire \<or> lapse = mem_expire"
  shows "fst (history (timed_do clock lapse) cs q) = fst (history abstract_do cs r) \<and>
    sim (last (t # map fst cs)) (snd (history (timed_do clock lapse) cs q)) (snd (history abstract_do cs r)) \<and>
    reports_current (timed_do clock lapse) cs q = reports_current abstract_do cs r"
  using assms(1-4)
proof (induction cs arbitrary: t q r)
  case (Cons c cs)
  obtain now cmd where c: "c = (now, cmd)" by (cases c)
  have t: "0 \<le> now" "t \<le> now" and sorted: "sorted (now # map fst cs)" using Cons.prems(1,4) c by auto
  have s: "sim now q r" by (rule sim_later[OF Cons.prems(2,1) t(2)])
  note step = sim_step[where clock = clock and lapse = lapse and c = cmd, OF t(1) s Cons.prems(3) assms(5)[OF t(1)] assms(6)]
  have "distinct (map jb_key (wq_items (snd (timed_do clock lapse now cmd q))))"
    by (rule keys_step[OF Cons.prems(3)]) (use assms(6) in auto)
  from Cons.IH[OF t(1) conjunct1[OF conjunct2[OF step]] this sorted] show ?case
    using step by (simp add: c case_prod_beta)
qed simp

lemma sim_settled: "sim t q r \<Longrightarrow> settled t q = settled t r"
  by (cases q, cases r) (auto simp: sim_def settled_def alike_def list_eq_iff_nth_eq list_all2_conv_all_nth)

section \<open>Properties\<close>

definition pg_empty :: "int \<Rightarrow> int \<Rightarrow> int \<Rightarrow> pg_queue" where
  "pg_empty n capacity tries = \<lparr>jt_rows = [], jt_next = n, pg_capacity = capacity, pg_max_attempts = tries\<rparr>"

definition mem_empty :: "int \<Rightarrow> int \<Rightarrow> int \<Rightarrow> mem_queue" where
  "mem_empty n capacity tries =
     \<lparr>mq_jobs = [], mq_by_key = [], mq_next = n, mq_capacity = capacity, mq_max_attempts = tries\<rparr>"

definition work_empty :: "int \<Rightarrow> int \<Rightarrow> work_queue" where
  "work_empty capacity tries = \<lparr>wq_items = [], wq_capacity = capacity, wq_attempts = tries\<rparr>"

text \<open>C7. Both dispatchers refine one abstract work queue. Along any history of enqueues, claims, heartbeats,
  completions, failures and reclaims whose times do not go back and in which every failure is reported under the
  latest claim of its job, both give exactly the answers of the list of jobs without numbers, and leave exactly its
  jobs in its order; only since when a job that is due is available, and whether an expired lease was noted, may
  differ.\<close>

theorem dispatchers_refine_work_queue:
  assumes "sorted (0 # map fst cs)" and "reports_current abstract_do cs (work_empty capacity tries)"
  shows "map_prod id (\<lambda>s. settled (last (0 # map fst cs)) (seen pg_dispatcher pg_capacity pg_max_attempts s))
        (history (dispatch pg_dispatcher) cs (pg_empty n capacity tries)) =
      map_prod id (settled (last (0 # map fst cs))) (history abstract_do cs (work_empty capacity tries)) \<and>
    map_prod id (\<lambda>s. settled (last (0 # map fst cs)) (seen mem_dispatcher mq_capacity mq_max_attempts s))
        (history (dispatch mem_dispatcher) cs (mem_empty n capacity tries)) =
      map_prod id (settled (last (0 # map fst cs))) (history abstract_do cs (work_empty capacity tries))"
proof -
  let ?q = "work_empty capacity tries"
  have start: "sim 0 ?q ?q" "distinct (map jb_key (wq_items ?q))" by (simp_all add: sim_def work_empty_def)
  have seen: "seen pg_dispatcher pg_capacity pg_max_attempts (pg_empty n capacity tries) = ?q"
    "seen mem_dispatcher mq_capacity mq_max_attempts (mem_empty n capacity tries) = ?q"
    by (simp_all add: seen_def pg_dispatcher_def mem_dispatcher_def pg_empty_def mem_empty_def work_empty_def)
  have inv: "pg_numbered (pg_empty n capacity tries)" "mem_numbered (mem_empty n capacity tries)"
    by (simp_all add: pg_numbered_def mem_numbered_def pg_inv_def mem_inv_def queue_ok_def pg_empty_def mem_empty_def)
  note pg = history_sim[OF _ start assms(1), of "\<lambda>now. now" expire]
  note mem = history_sim[OF _ start assms(1), of "\<lambda>now. 0" mem_expire]
  have "reports_current (timed_do (\<lambda>now. now) expire) cs ?q" "reports_current (timed_do (\<lambda>now. 0) mem_expire) cs ?q"
    using pg mem assms(2) by simp_all
  note refines = pgq.history_refines[OF inv(1), unfolded seen, OF this(1)] memq.history_refines[OF inv(2), unfolded seen, OF this(2)]
  show ?thesis using pg mem sim_settled refines by (simp add: prod_eq_iff)
qed

text \<open>A history in which a lease runs out, is reclaimed, and the job fails twice under its later claims.\<close>

definition demo_commands :: "(int \<times> command) list" where
  "demo_commands = [(1, Put KStart ''INC-1'' ''k'' JNull), (2, Take ''a'' 10), (20, Reclaim), (21, Take ''b'' 10),
     (25, Keep ''k'' ''a'' 10), (26, Report ''k'' 2 ''e'' 5), (31, Take ''a'' 10), (32, Report ''k'' 3 ''e'' 5)]"

lemma dispatchers_refine_work_queue_witness:
  "fst (history (dispatch pg_dispatcher) demo_commands (pg_empty 1 5 3)) =
     fst (history (dispatch mem_dispatcher) demo_commands (mem_empty 7 5 3)) \<and>
   last (fst (history (dispatch pg_dispatcher) demo_commands (pg_empty 1 5 3))) = Reported Dead"
proof -
  have "sorted (0 # map fst demo_commands)" "reports_current abstract_do demo_commands (work_empty 5 3)"
    "last (fst (history abstract_do demo_commands (work_empty 5 3))) = Reported Dead"
    by code_simp+
  then show ?thesis
    using dispatchers_refine_work_queue[of demo_commands 5 3 1] dispatchers_refine_work_queue[of demo_commands 5 3 7]
    by (simp add: prod_eq_iff)
qed

text \<open>Under an older claim they differ: the table decides by the attempts of the job it is handed, the in-memory
  dispatcher by those it has stored, so that one queues the job again and the other buries it.\<close>

theorem stale_report_differs:
  "fst (history (dispatch pg_dispatcher) [(0, Put KStart ''I'' ''k'' JNull), (0, Take ''a'' 1), (5, Take ''b'' 1),
       (6, Report ''k'' 1 ''e'' 1)] (pg_empty 1 5 2)) ! 3 = Reported Queued \<and>
   fst (history (dispatch mem_dispatcher) [(0, Put KStart ''I'' ''k'' JNull), (0, Take ''a'' 1), (5, Take ''b'' 1),
       (6, Report ''k'' 1 ''e'' 1)] (mem_empty 1 5 2)) ! 3 = Reported Dead"
  by code_simp



end
