(* ===== verification/Render.thy ===== *)
theory Render
  imports Verify
begin

text \<open>
  \<open>app/execute/guard.py\<close>, \<open>render.py\<close> and \<open>session.py\<close>: the preconditions of execution, the
  lines a device is sent for an approved action, and the screen every pushed line passes.
\<close>

section \<open>Approved actions\<close>

record eaction = action +
  ea_rollback :: string
  ea_verified :: bool
  ea_rollback_verified :: bool

section \<open>The preconditions\<close>

definition is_policy_command :: "string \<Rightarrow> bool" where
  "is_policy_command command =
     (let text = strip command
      in text \<noteq> [] \<and>
         parse_acl_command (if starts_with ''no '' (lower text) then drop 3 text else text) \<noteq> None)"

datatype reason =
    Nothing_to_execute
  | No_evidence
  | Not_allowed string
  | Not_simulated string
  | No_rollback string
  | Not_an_acl_line string string
  | Rollback_not_an_acl_line string string

definition guard_action :: "string list \<Rightarrow> eaction \<Rightarrow> reason list" where
  "guard_action allowed a =
     (if act_device a \<notin> set allowed then [Not_allowed (act_device a)] else [])
     @ (if \<not> ea_verified a then [Not_simulated (act_device a)] else [])
     @ (if \<not> ea_rollback_verified a \<or> ea_rollback a = [] then [No_rollback (act_device a)] else [])
     @ (if \<not> is_policy_command (act_command a) then [Not_an_acl_line (act_device a) (act_command a)] else [])
     @ (if ea_rollback a \<noteq> [] \<and> \<not> is_policy_command (ea_rollback a)
        then [Rollback_not_an_acl_line (act_device a) (ea_rollback a)] else [])"

definition guard_check :: "eaction list \<Rightarrow> flow list \<Rightarrow> string list \<Rightarrow> reason list" where
  "guard_check actions flows allowed =
     (if actions = [] then [Nothing_to_execute] else [])
     @ (if flows = [] then [No_evidence] else [])
     @ concat (map (guard_action allowed) actions)"

text \<open>\<open>GuardResult.ok\<close>\<close>

definition guard_ok :: "eaction list \<Rightarrow> flow list \<Rightarrow> string list \<Rightarrow> bool" where
  "guard_ok actions flows allowed = (guard_check actions flows allowed = [])"

section \<open>Rendering\<close>

text \<open>\<open>ASA_RE\<close> (1: \<open>head\<close>, 2: \<open>acl\<close>, 3: \<open>rest\<close>) and \<open>HAS_LINE\<close>.\<close>

definition asa_re :: rx where
  "asa_re = rseq [RBol, RGrp 1 (rseq [r_lit_ci ''access-list'', RPlus r_space, RGrp 2 (RPlus r_nonspace)]),
     RPlus r_space,
     RGrp 3 (RSeq (ROpt (rseq [r_lit_ci ''line'', RPlus r_space, RPlus r_digit, RPlus r_space])) (RStar r_dot)),
     REol]"

definition has_line_re :: rx where
  "has_line_re = rseq [RBol, r_lit_ci ''line'', RPlus r_space, RPlus r_digit, RBound]"

definition asa_command :: "string \<Rightarrow> int option \<Rightarrow> string" where
  "asa_command command position =
     (case (rx_match asa_re (strip command), position) of
        (Some m, Some n) \<Rightarrow>
          let rest = strip (group_or [] 3 m)
          in if rx_match has_line_re rest \<noteq> None then strip command
             else group_or [] 1 m @ '' line '' @ show_int n @ '' '' @ rest
      | _ \<Rightarrow> strip command)"

definition positioned :: "int option \<Rightarrow> string \<Rightarrow> string" where
  "positioned position body =
     (case position of Some n \<Rightarrow> show_int n @ '' '' @ body | None \<Rightarrow> body)"

definition ios_commands :: "string \<Rightarrow> int option \<Rightarrow> string list" where
  "ios_commands command position =
     (case rx_match ios_acl_re (strip command) of
        None \<Rightarrow> [strip command]
      | Some m \<Rightarrow> [''ip access-list extended '' @ group_or [] 1 m,
                   positioned position (strip (group_or [] 2 m))])"

definition eos_commands :: "string \<Rightarrow> int option \<Rightarrow> bool \<Rightarrow> string list" where
  "eos_commands command position removal =
     (case rx_match eos_acl_re (strip command) of
        None \<Rightarrow> [if removal then ''no '' @ strip command else strip command]
      | Some m \<Rightarrow>
          let ctx = ''ip access-list '' @ group_or [] 1 m;
              entry = positioned position (strip (group_or [] 2 m))
          in if removal \<and> position \<noteq> None then [ctx, ''no '' @ show_int (the position)]
             else [ctx, if removal then ''no '' @ entry else entry])"

definition srl_prefix :: "string \<Rightarrow> string res" where
  "srl_prefix v =
     (if v \<in> set [''any'', ''any4'', ''*''] then Inr ''0.0.0.0/0''
      else case as_network v of None \<Rightarrow> Inl ValueError | Some n \<Rightarrow> Inr (show_network n))"

definition srlinux_commands :: "string \<Rightarrow> int option \<Rightarrow> bool \<Rightarrow> string list res" where
  "srlinux_commands command position removal =
     (case (rx_match ios_acl_re (strip command), position) of
        (Some m, Some n) \<Rightarrow>
          let base = ''/ acl acl-filter '' @ group_or [] 1 m @ '' type ipv4 entry '' @ show_int n
          in if removal then Inr [''delete '' @ base]
             else (case parse_acl_command command of
               None \<Rightarrow> Inr [strip command]
             | Some rule \<Rightarrow>
                 res_bind (srl_prefix (ar_src rule)) (\<lambda>src.
                 res_bind (srl_prefix (ar_dst rule)) (\<lambda>dst.
                   Inr ([''set '' @ base @ '' match ipv4 protocol '' @ ar_proto rule,
                         ''set '' @ base @ '' match ipv4 source-ip prefix '' @ src,
                         ''set '' @ base @ '' match ipv4 destination-ip prefix '' @ dst]
                        @ (case ar_port rule of None \<Rightarrow> []
                           | Some p \<Rightarrow> [''set '' @ base @ '' match transport destination-port value '' @ show_int p])
                        @ [''set '' @ base @ '' action '' @
                           (if ar_action rule = ''permit'' then ''accept'' else ''drop'')]))))
      | _ \<Rightarrow> Inr [strip command])"

definition device_commands :: "string \<Rightarrow> int option \<Rightarrow> string \<Rightarrow> string list res" where
  "device_commands command position platform =
     (let text = strip command
      in if text = [] then Inr []
         else
           let removal = starts_with ''no '' (lower text);
               body = (if removal then strip (drop 3 text) else text)
           in if platform = ''nokia_srl'' then srlinux_commands body position removal
              else if platform = ''arista_eos'' then Inr (eos_commands body position removal)
              else if platform = ''cisco_ios'' then
                Inr (case ios_commands body position of
                       [] \<Rightarrow> []
                     | [l] \<Rightarrow> [if removal then ''no '' @ l else l]
                     | l # l' # ls \<Rightarrow> if removal then [l, ''no '' @ l'] else l # l' # ls)
              else Inr [if removal then ''no '' @ asa_command body position else asa_command body position])"

definition rendered_for :: "eaction \<Rightarrow> string \<Rightarrow> bool \<Rightarrow> string list res" where
  "rendered_for a platform rollback =
     device_commands (if rollback then ea_rollback a else act_command a) (act_position a) platform"

section \<open>The screen\<close>

definition forbidden :: "string list" where
  "forbidden = [''reload'', ''erase'', ''format'', ''delete'', ''boot '', ''shutdown'', ''clear config'',
     ''write erase'', ''copy '', ''username'', ''aaa '', ''crypto '']"

definition safe_srl_delete_re :: rx where
  "safe_srl_delete_re = rseq [RBol, r_lit_ci ''delete / acl acl-filter '',
     RPlus (RSet (\<lambda>c. is_alnum c \<or> c \<in> set ''_.:-'')), r_lit_ci '' type ipv4 entry '', RPlus r_digit, REol]"

definition word_refused :: "string \<Rightarrow> string \<Rightarrow> bool" where
  "word_refused command w =
     (is_substring w (lower command) \<and>
      \<not> (w = ''delete'' \<and> rx_fullmatch safe_srl_delete_re (strip command) \<noteq> None))"

definition screen :: "string list \<Rightarrow> unit res" where
  "screen commands =
     (case List.find (\<lambda>c. list_ex (word_refused c) forbidden) commands of
        Some c \<Rightarrow> Inl (UnsafeCommand c)
      | None \<Rightarrow> Inr ())"

section \<open>Facts\<close>

lemma guard_ok_iff:
  "guard_ok actions flows allowed \<longleftrightarrow> actions \<noteq> [] \<and> flows \<noteq> [] \<and>
     (\<forall>a\<in>set actions. act_device a \<in> set allowed \<and> ea_verified a \<and> ea_rollback_verified a \<and>
        ea_rollback a \<noteq> [] \<and> is_policy_command (act_command a) \<and> is_policy_command (ea_rollback a))"
  by (auto simp: guard_ok_def guard_check_def guard_action_def split: if_splits)

lemma screen_ok: "screen cs = Inr () \<longleftrightarrow> (\<forall>c\<in>set cs. \<forall>w\<in>set forbidden. \<not> word_refused c w)"
proof (cases "List.find (\<lambda>c. list_ex (word_refused c) forbidden) cs")
  case None
  then have "\<forall>c\<in>set cs. \<forall>w\<in>set forbidden. \<not> word_refused c w"
    by (simp add: find_None_iff list_ex_iff)
  with None show ?thesis by (simp add: screen_def)
next
  case (Some c)
  then have "c \<in> set cs" "list_ex (word_refused c) forbidden"
    by (auto simp: find_Some_iff in_set_conv_nth)
  with Some show ?thesis by (auto simp: screen_def list_ex_iff)
qed

end
