(* ===== verification/Executor.thy ===== *)
theory Executor
  imports Render
begin

text \<open>
  \<open>app/execute/base.py\<close>, \<open>live.py\<close>, \<open>device.py\<close>, \<open>idempotent.py\<close> and \<open>dryrun.py\<close>: carrying out an
  approved change on a device, reading the policy back, and undoing the change when it did not
  work. The devices are a parameter: a record of what the code calls on the read backend and on a
  configuration session, each a function on the world \<open>'w\<close>.
\<close>

section \<open>The plant\<close>

record 'w plant =
  pl_refresh :: "string \<Rightarrow> 'w \<Rightarrow> 'w"                              \<comment> \<open>\<open>firewall.refresh\<close>\<close>
  pl_policy :: "string \<Rightarrow> 'w \<Rightarrow> acl_rule list res \<times> 'w"            \<comment> \<open>\<open>firewall.acl_policy\<close>\<close>
  pl_connect :: "string \<Rightarrow> 'w \<Rightarrow> unit res \<times> 'w"                   \<comment> \<open>\<open>ConfigSession._connect\<close>\<close>
  pl_set :: "string \<Rightarrow> string list \<Rightarrow> 'w \<Rightarrow> string res \<times> 'w"      \<comment> \<open>\<open>conn.send_config_set\<close>\<close>
  pl_commit :: "string \<Rightarrow> 'w \<Rightarrow> string res \<times> 'w"                  \<comment> \<open>\<open>conn.commit\<close>\<close>
  pl_disconnect :: "string \<Rightarrow> 'w \<Rightarrow> 'w"

record exec_cfg =
  ec_devices :: "string list"
  ec_auto_rollback :: bool
  ec_platform :: string

section \<open>Results\<close>

datatype exec_state = LOGGED | APPLIED | REFUSED | ROLLED_BACK | ROLLBACK_FAILED

record exec_step =
  es_command :: string
  es_output :: string
  es_error :: "py_exn option"               \<comment> \<open>the text of the exception; \<open>None\<close>: the empty text\<close>

datatype live_line =
    Live_missing string
  | Live_present string int
  | Live_elsewhere string int int
  | Live_permitted flow
  | Live_denied flow string "(string \<times> int) option"
  | Revert_present string
  | Revert_permitted flow
  | Revert_pass flow string

datatype cause = Send_failed string py_exn | Verification_failed

datatype exec_line =
    Logged_for_human
  | Refused_for "reason list"
  | Applied_confirmed
  | Rolling_back cause
  | Rollback_disabled cause
  | Raw_command string                       \<comment> \<open>a rendered command, where the code puts one among the lines\<close>
  | Rollback_also_failed string py_exn
  | Back_in_place
  | Not_back

record exec_result =
  xr_mode :: string
  xr_state :: exec_state
  xr_lines :: "exec_line list"
  xr_steps :: "exec_step list"
  xr_verification :: "live_line list"

definition xr_touched_device :: "exec_result \<Rightarrow> bool" where
  "xr_touched_device r = (xr_state r \<in> set [APPLIED, ROLLED_BACK, ROLLBACK_FAILED])"

definition xr_ok :: "exec_result \<Rightarrow> bool" where
  "xr_ok r = (xr_state r \<in> set [LOGGED, APPLIED])"

definition xr_needs_attention :: "exec_result \<Rightarrow> bool" where
  "xr_needs_attention r = (xr_state r = ROLLBACK_FAILED)"

definition device_result :: "exec_state \<Rightarrow> exec_line list \<Rightarrow> exec_step list \<Rightarrow> live_line list \<Rightarrow> exec_result" where
  "device_result s ls steps ver = \<lparr>xr_mode = ''device'', xr_state = s, xr_lines = ls, xr_steps = steps,
     xr_verification = ver\<rparr>"

section \<open>Reading back\<close>

definition same_endpoint :: "string \<Rightarrow> string \<Rightarrow> bool" where
  "same_endpoint first second =
     (if is_any first \<and> is_any second then True
      else case (as_network first, as_network second) of
             (Some a, Some b) \<Rightarrow> a = b
           | _ \<Rightarrow> first = second)"

definition live_same_rule :: "acl_rule \<Rightarrow> acl_rule \<Rightarrow> bool" where
  "live_same_rule l r =
     ((ar_action l, ar_proto l, ar_port l) = (ar_action r, ar_proto r, ar_port r) \<and>
      same_endpoint (ar_src l) (ar_src r) \<and> same_endpoint (ar_dst l) (ar_dst r))"

definition live_refresh :: "'w plant \<Rightarrow> string \<Rightarrow> 'w \<Rightarrow> acl_rule list res \<times> 'w" where
  "live_refresh pl device w = pl_policy pl device (pl_refresh pl device w)"

definition applied_flow_line :: "acl_rule list \<Rightarrow> flow \<Rightarrow> bool \<times> live_line" where
  "applied_flow_line policy f =
     (case evaluate_flow policy (fl_src f) (fl_dst f) (fl_port f) (fl_proto f) of
        (v, hit) \<Rightarrow> if v = ''permit'' then (True, Live_permitted f)
                    else (False, Live_denied f v (map_option (\<lambda>(_, h). (ar_id h, ar_line h)) hit)))"

definition applied_rule_lines :: "eaction \<Rightarrow> acl_rule list \<Rightarrow> bool \<times> live_line list" where
  "applied_rule_lines a policy =
     (case parse_acl_command (act_command a) of
        None \<Rightarrow> (True, [])
      | Some expected \<Rightarrow> (case List.find (\<lambda>r. live_same_rule r expected) policy of
            None \<Rightarrow> (False, [Live_missing (act_device a)])
          | Some landed \<Rightarrow> (True, Live_present (act_device a) (ar_line landed)
              # (case act_position a of
                   None \<Rightarrow> []
                 | Some n \<Rightarrow> if ar_line landed \<noteq> n then [Live_elsewhere (act_device a) (ar_line landed) n]
                             else []))))"

definition applied_action ::
  "eaction \<Rightarrow> flow list \<Rightarrow> acl_rule list \<Rightarrow> bool \<times> live_line list" where
  "applied_action a flows policy =
     (let (ok, ls) = applied_rule_lines a policy; fs = map (applied_flow_line policy) flows
      in (ok \<and> list_all fst fs, ls @ map snd fs))"

definition reverted_flow_line :: "acl_rule list \<Rightarrow> flow \<Rightarrow> bool \<times> live_line" where
  "reverted_flow_line policy f =
     (if verdict policy f = ''permit'' then (False, Revert_permitted f)
      else (True, Revert_pass f (verdict policy f)))"

definition reverted_action ::
  "eaction \<Rightarrow> flow list \<Rightarrow> acl_rule list \<Rightarrow> bool \<times> live_line list" where
  "reverted_action a flows policy =
     (let gone = (case parse_acl_command (act_command a) of
                    None \<Rightarrow> True | Some expected \<Rightarrow> \<not> list_ex (\<lambda>r. live_same_rule r expected) policy);
          fs = map (reverted_flow_line policy) flows
      in (gone \<and> list_all fst fs, (if gone then [] else [Revert_present (act_device a)]) @ map snd fs))"

text \<open>The loop of \<open>verify_applied\<close> and of \<open>verify_reverted\<close>: one refreshed read per action.\<close>

fun read_back ::
  "'w plant \<Rightarrow> (eaction \<Rightarrow> acl_rule list \<Rightarrow> bool \<times> live_line list) \<Rightarrow> eaction list \<Rightarrow> 'w
    \<Rightarrow> (bool \<times> live_line list) res \<times> 'w" where
  "read_back pl judge [] w = (Inr (True, []), w)"
| "read_back pl judge (a # as) w =
     (case live_refresh pl (act_device a) w of
        (Inl e, w') \<Rightarrow> (Inl e, w')
      | (Inr policy, w') \<Rightarrow>
          (case read_back pl judge as w' of
             (Inl e, w'') \<Rightarrow> (Inl e, w'')
           | (Inr (ok, ls), w'') \<Rightarrow>
               (Inr (fst (judge a policy) \<and> ok, snd (judge a policy) @ ls), w'')))"

definition verify_applied ::
  "'w plant \<Rightarrow> eaction list \<Rightarrow> flow list \<Rightarrow> 'w \<Rightarrow> (bool \<times> live_line list) res \<times> 'w" where
  "verify_applied pl actions flows w = read_back pl (\<lambda>a. applied_action a flows) actions w"

definition verify_reverted ::
  "'w plant \<Rightarrow> eaction list \<Rightarrow> flow list \<Rightarrow> 'w \<Rightarrow> (bool \<times> live_line list) res \<times> 'w" where
  "verify_reverted pl actions flows w = read_back pl (\<lambda>a. reverted_action a flows) actions w"

section \<open>Configuration sessions\<close>

text \<open>The dict \<open>self._sessions\<close>: the devices with a session, and whether it is connected.\<close>

type_synonym 'w exec = "(string \<times> bool) list \<times> 'w"

text \<open>\<open>self._session(device).send_config(lines)\<close>\<close>

definition send_config ::
  "'w plant \<Rightarrow> string \<Rightarrow> string \<Rightarrow> string list \<Rightarrow> 'w exec \<Rightarrow> string res \<times> 'w exec" where
  "send_config pl platform device cmds st = (case st of (ss, w) \<Rightarrow>
     (let conn = (map_of ss device = Some True);
          ss = (if map_of ss device = None then al_put device False ss else ss)
      in case screen cmds of
           Inl e \<Rightarrow> (Inl e, ss, w)
         | Inr _ \<Rightarrow>
             (case (if conn then (Inr (), w) else pl_connect pl device w) of
                (Inl e, w1) \<Rightarrow> (Inl e, ss, w1)
              | (Inr _, w1) \<Rightarrow>
                  let ss = al_put device True ss
                  in (case pl_set pl device cmds w1 of
                        (Inl e, w2) \<Rightarrow> (Inl e, ss, w2)
                      | (Inr out, w2) \<Rightarrow>
                          if platform = ''nokia_srl''
                          then (case pl_commit pl device w2 of
                                  (Inl e, w3) \<Rightarrow> (Inl e, ss, w3)
                                | (Inr out', w3) \<Rightarrow> (Inr (out @ out'), ss, w3))
                          else (Inr out, ss, w2)))))"

definition close_session :: "'w plant \<Rightarrow> 'w \<Rightarrow> string \<times> bool \<Rightarrow> 'w" where
  "close_session pl w s = (if snd s then pl_disconnect pl (fst s) w else w)"

definition close_all :: "'w plant \<Rightarrow> 'w exec \<Rightarrow> 'w" where
  "close_all pl st = foldl (close_session pl) (snd st) (fst st)"

section \<open>Applying and reverting\<close>

definition step_ok :: "string list \<Rightarrow> string \<Rightarrow> exec_step" where
  "step_ok ls out = \<lparr>es_command = join ''; '' ls, es_output = out, es_error = None\<rparr>"

definition step_failed :: "string list \<Rightarrow> py_exn \<Rightarrow> exec_step" where
  "step_failed ls e = \<lparr>es_command = join ''; '' ls, es_output = [], es_error = Some e\<rparr>"

text \<open>The rollback loop of \<open>_revert\<close> over the reversed actions: (the variable \<open>lines\<close>, steps, and the
  failure, if a reversal could not be sent).\<close>

fun revert_loop ::
  "exec_cfg \<Rightarrow> 'w plant \<Rightarrow> eaction list \<Rightarrow> exec_line list \<Rightarrow> exec_step list \<Rightarrow> 'w exec
    \<Rightarrow> (exec_line list \<times> exec_step list \<times> (string \<times> py_exn) option) res \<times> 'w exec" where
  "revert_loop cfg pl [] ls steps st = (Inr (ls, steps, None), st)"
| "revert_loop cfg pl (a # as) ls steps st =
     (case rendered_for a (ec_platform cfg) True of
        Inl e \<Rightarrow> (Inl e, st)
      | Inr cmds \<Rightarrow>
          if cmds = [] then revert_loop cfg pl as [] steps st
          else (case send_config pl (ec_platform cfg) (act_device a) cmds st of
                  (Inl e, st1) \<Rightarrow>
                    (Inr (map Raw_command cmds, steps @ [step_failed cmds e], Some (act_device a, e)), st1)
                | (Inr out, st1) \<Rightarrow>
                    revert_loop cfg pl as (map Raw_command cmds) (steps @ [step_ok cmds out]) st1))"

definition revert ::
  "exec_cfg \<Rightarrow> 'w plant \<Rightarrow> eaction list \<Rightarrow> flow list \<Rightarrow> exec_step list \<Rightarrow> cause \<Rightarrow> live_line list
    \<Rightarrow> 'w exec \<Rightarrow> exec_result res \<times> 'w exec" where
  "revert cfg pl actions flows steps why ver st =
     (if \<not> ec_auto_rollback cfg
      then (Inr (device_result ROLLBACK_FAILED [Rollback_disabled why] steps ver), st)
      else case revert_loop cfg pl (rev actions) [Rolling_back why] steps st of
        (Inl e, st1) \<Rightarrow> (Inl e, st1)
      | (Inr (ls, steps, Some (d, e)), st1) \<Rightarrow>
          (Inr (device_result ROLLBACK_FAILED (ls @ [Rollback_also_failed d e]) steps ver), st1)
      | (Inr (ls, steps, None), ss, w) \<Rightarrow>
          (case verify_reverted pl actions flows w of
             (Inl e, w') \<Rightarrow> (Inl e, ss, w')
           | (Inr (ok, rls), w') \<Rightarrow>
               (Inr (if ok then device_result ROLLED_BACK (ls @ [Back_in_place]) steps (ver @ rls)
                     else device_result ROLLBACK_FAILED (ls @ [Not_back]) steps (ver @ rls)), ss, w')))"

text \<open>\<open>_already_landed\<close> of the idempotent executor.\<close>

definition already_landed :: "'w plant \<Rightarrow> eaction \<Rightarrow> 'w \<Rightarrow> bool res \<times> 'w" where
  "already_landed pl a w =
     (case parse_acl_command (act_command a) of
        None \<Rightarrow> (Inr False, w)
      | Some expected \<Rightarrow>
          (case live_refresh pl (act_device a) w of
             (Inl e, w') \<Rightarrow> (Inl e, w')
           | (Inr policy, w') \<Rightarrow> (Inr (list_ex (\<lambda>r. live_same_rule r expected) policy), w')))"

text \<open>How the sending loop ended: all sent, or stopped at a failed push.\<close>

datatype pushed = All_sent "exec_step list" | Stopped "exec_step list" string py_exn

definition skipped_step :: "string list \<Rightarrow> exec_step" where
  "skipped_step cmds = step_ok cmds ''skipped: rule already present on device''"

fun push_loop ::
  "exec_cfg \<Rightarrow> 'w plant \<Rightarrow> bool \<Rightarrow> eaction list \<Rightarrow> exec_step list \<Rightarrow> 'w exec \<Rightarrow> pushed res \<times> 'w exec" where
  "push_loop cfg pl idem [] steps st = (Inr (All_sent steps), st)"
| "push_loop cfg pl idem (a # as) steps (ss, w) =
     (case (if idem then already_landed pl a w else (Inr False, w)) of
        (Inl e, w1) \<Rightarrow> (Inl e, ss, w1)
      | (Inr landed, w1) \<Rightarrow>
          (case rendered_for a (ec_platform cfg) False of
             Inl e \<Rightarrow> (Inl e, ss, w1)
           | Inr cmds \<Rightarrow>
               if landed then push_loop cfg pl idem as (steps @ [skipped_step cmds]) (ss, w1)
               else (case send_config pl (ec_platform cfg) (act_device a) cmds (ss, w1) of
                       (Inl e, st2) \<Rightarrow>
                         (Inr (Stopped (steps @ [step_failed cmds e]) (join ''; '' cmds) e), st2)
                     | (Inr out, st2) \<Rightarrow> push_loop cfg pl idem as (steps @ [step_ok cmds out]) st2)))"

text \<open>\<open>_apply\<close>: with \<open>idem\<close> that of \<open>IdempotentDeviceExecutor\<close>, without that of \<open>DeviceExecutor\<close>.\<close>

definition apply_body ::
  "exec_cfg \<Rightarrow> 'w plant \<Rightarrow> bool \<Rightarrow> eaction list \<Rightarrow> flow list \<Rightarrow> 'w exec \<Rightarrow> exec_result res \<times> 'w exec" where
  "apply_body cfg pl idem actions flows st =
     (case push_loop cfg pl idem actions [] st of
        (Inl e, st1) \<Rightarrow> (Inl e, st1)
      | (Inr (Stopped steps cmd e), st1) \<Rightarrow>
          revert cfg pl actions flows steps (Send_failed cmd e) [] st1
      | (Inr (All_sent steps), ss, w) \<Rightarrow>
          (case verify_applied pl actions flows w of
             (Inl e, w1) \<Rightarrow> (Inl e, ss, w1)
           | (Inr (ok, ls), w1) \<Rightarrow>
               if ok then (Inr (device_result APPLIED [Applied_confirmed] steps ls), ss, w1)
               else revert cfg pl actions flows steps Verification_failed ls (ss, w1)))"

text \<open>\<open>apply\<close>: the guard, a fresh set of sessions, and the \<open>finally\<close> that closes them.\<close>

definition device_apply ::
  "exec_cfg \<Rightarrow> 'w plant \<Rightarrow> bool \<Rightarrow> eaction list \<Rightarrow> flow list \<Rightarrow> 'w \<Rightarrow> exec_result res \<times> 'w" where
  "device_apply cfg pl idem actions flows w =
     (if \<not> guard_ok actions flows (ec_devices cfg)
      then (Inr (device_result REFUSED [Refused_for (guard_check actions flows (ec_devices cfg))] [] []), w)
      else (case apply_body cfg pl idem actions flows ([], w) of
              (r, st) \<Rightarrow> (r, close_all pl st)))"

section \<open>Replay\<close>

text \<open>\<open>as_dict()\<close> and the record rebuilt from it; the table of stored results is keyed by the operation.\<close>

type_synonym exec_store = "(string \<times> exec_result) list"

definition apply_once ::
  "exec_cfg \<Rightarrow> 'w plant \<Rightarrow> eaction list \<Rightarrow> flow list \<Rightarrow> string \<Rightarrow> exec_store \<times> 'w
    \<Rightarrow> exec_result res \<times> exec_store \<times> 'w" where
  "apply_once cfg pl actions flows key st = (case st of (db, w) \<Rightarrow>
     (case (if key = [] then None else map_of db key) of
        Some cached \<Rightarrow> (Inr cached, db, w)
      | None \<Rightarrow>
          (case device_apply cfg pl True actions flows w of
             (Inl e, w') \<Rightarrow> (Inl e, db, w')
           | (Inr r, w') \<Rightarrow>
               (Inr r, if key \<noteq> [] \<and> xr_state r \<noteq> REFUSED then al_put key r db else db, w'))))"

section \<open>The dry run, and which executor is used\<close>

definition dry_run :: "eaction list \<Rightarrow> exec_result" where
  "dry_run actions = \<lparr>xr_mode = ''dry-run'', xr_state = LOGGED, xr_lines = [Logged_for_human],
     xr_steps = map (\<lambda>c. \<lparr>es_command = c, es_output = [], es_error = None\<rparr>)
                  (filter (\<lambda>c. c \<noteq> []) (map (\<lambda>a. strip (act_command a)) actions)),
     xr_verification = []\<rparr>"

record exec_settings =
  xs_enabled :: bool
  xs_devices :: string
  xs_backend :: string
  xs_auto_rollback :: bool

definition named_devices :: "string \<Rightarrow> string list" where
  "named_devices s = remdups (filter (\<lambda>n. n \<noteq> []) (map strip (split_on (CHR '','') s)))"

definition backend_name :: "string \<Rightarrow> string" where
  "backend_name s = lower (strip (if s = [] then ''mock'' else s))"

text \<open>\<open>make_executor\<close>: \<open>None\<close> is the dry run. \<open>session_factory\<close> raises for a backend it does not know.\<close>

definition device_types :: "string list" where
  "device_types = [''cisco_asa'', ''cisco_ios'', ''arista_eos'', ''nokia_srl'']"

definition make_executor :: "exec_settings \<Rightarrow> exec_cfg option res" where
  "make_executor s =
     (if \<not> xs_enabled s then Inr None
      else if named_devices (xs_devices s) = [] then Inr None
      else if backend_name (xs_backend s) = ''mock'' then Inr None
      else if backend_name (xs_backend s) \<notin> set device_types
      then Inl (RuntimeError (backend_name (xs_backend s) @ '' cannot execute changes''))
      else Inr (Some \<lparr>ec_devices = named_devices (xs_devices s), ec_auto_rollback = xs_auto_rollback s,
                      ec_platform = backend_name (xs_backend s)\<rparr>))"

end
