(* ===== verification/Agent.thy ===== *)
theory Agent
  imports Executor Topology
begin

text \<open>
  The investigation: the tools of \<open>app/tools/topology.py\<close>, a turn of a model and the three nodes of
  \<open>app/graph/nodes.py\<close>, and the graph of \<open>app/graph/builder.py\<close> with its interrupt before the
  execution. What the model answers is a list of replies, consumed one by one: prompts and hints
  only shape the answers, so they are left out, and every theorem holds for any list. The texts of
  tool results are constructors. \<open>cf_parse\<close> is \<open>parse_tool_call\<close> and \<open>cf_infer\<close> is \<open>infer_tool_call\<close> of
  \<open>app/graph/parser.py\<close>; \<open>cf_int\<close> is pydantic's reading of an \<open>int\<close> field.
\<close>

section \<open>State\<close>

datatype node = Supervisor | Specialist | Execute

datatype goto = Goto node | Goto_end

record tool_call =
  tc_name :: string
  tc_args :: "(string \<times> json) list"

text \<open>One answer of the model: its text, its native tool calls, and the seconds it took.\<close>

record reply =
  re_content :: string
  re_calls :: "tool_call list"
  re_seconds :: int

datatype tool_text =
    Unknown_tool string
  | Invalid_arguments string
  | Unknown_device string
  | No_path string string
  | Path_found "string list"
  | No_neighbors string
  | Blast_of string "impact list"
  | No_zone string string
  | Zones boundary
  | Query_topology_first
  | Delegated "string list"
  | Marked_resolved
  | No_address string
  | No_denied_flows string string int
  | Denied_rows "flow list"
  | No_hits string
  | Hit_rows "json list"
  | Not_restored report
  | Not_reversible rollback_report
  | Queued_for_approval bool string

datatype message =
    User_text string
  | Ai_text string
  | Ai_call string tool_call
  | Tool_result tool_text
  | Format_nudge
  | Rejected_by string string

datatype log_entry = Inferred string | Parse_error string | Called string tool_text

datatype summary = Text string | Executed exec_state string bool string

record agent_state =
  ag_messages :: "message list"
  ag_incident :: string
  ag_worker :: string
  ag_summary :: summary
  ag_pending :: "eaction list"
  ag_denied :: "flow list"
  ag_verification :: "line list"
  ag_attempts :: int
  ag_execution :: "exec_result option"
  ag_topology :: string
  ag_zone :: string
  ag_flags :: "string list"
  ag_log :: "log_entry list"
  ag_brief :: string
  ag_decision :: string
  ag_feedback :: string
  ag_actor :: string
  ag_key :: string
  ag_site :: string
  ag_elapsed :: int
  ag_by_node :: "(node \<times> int) list"

record flow_request =
  fq_source_device :: string
  fq_source_ip :: string
  fq_target_device :: string
  fq_target_ip :: string
  fq_port :: int

text \<open>A backend as the tools see it.\<close>

record backend = firewall +
  bk_denied :: "flow_request \<Rightarrow> flow list res"
  bk_hits :: "string \<Rightarrow> string option \<Rightarrow> json list res"
  bk_platform :: string

record agent_cfg =
  cf_parse :: "string \<Rightarrow> tool_call option"
  cf_infer :: "string list \<Rightarrow> agent_state \<Rightarrow> tool_call option"
  cf_int :: "json \<Rightarrow> int option"
  cf_fallback :: bool
  cf_node_budget :: int
  cf_incident_budget :: int
  cf_store :: store

section \<open>Arguments\<close>

datatype tool_args =
    Path_args string string
  | Blast_args string
  | Boundary_args string string
  | Delegate_args string "string list"
  | Resolve_args string
  | Denied_args string string int
  | Hits_args string "string option"
  | Propose_args string string string "int option" string

definition device_name :: "string \<Rightarrow> bool" where
  "device_name s = (case s of [] \<Rightarrow> False
     | c # cs \<Rightarrow> is_alpha c \<and> list_all (\<lambda>d. is_alnum d \<or> d = CHR ''_'' \<or> d = CHR ''-'') cs)"

definition str_field :: "string \<Rightarrow> (string \<times> json) list \<Rightarrow> string option" where
  "str_field k args = (case map_of args k of Some (JStr s) \<Rightarrow> Some s | _ \<Rightarrow> None)"

definition device_field :: "string \<Rightarrow> (string \<times> json) list \<Rightarrow> string option" where
  "device_field k args = Option.bind (str_field k args) (\<lambda>s. if device_name s then Some s else None)"

definition optional_field :: "string \<Rightarrow> 'a \<Rightarrow> (json \<Rightarrow> 'a option) \<Rightarrow> (string \<times> json) list \<Rightarrow> 'a option" where
  "optional_field k d f args = (case map_of args k of None \<Rightarrow> Some d | Some v \<Rightarrow> f v)"

definition j_string :: "json \<Rightarrow> string option" where
  "j_string v = (case v of JStr s \<Rightarrow> Some s | _ \<Rightarrow> None)"

definition j_nullable :: "(json \<Rightarrow> 'a option) \<Rightarrow> json \<Rightarrow> 'a option option" where
  "j_nullable f v = (if v = JNull then Some None else map_option Some (f v))"

fun j_strings :: "json list \<Rightarrow> string list option" where
  "j_strings [] = Some []"
| "j_strings (v # vs) = Option.bind (j_string v) (\<lambda>s. map_option (\<lambda>ss. s # ss) (j_strings vs))"

definition supervisor_tools :: "string list" where
  "supervisor_tools = [''trace_network_path'', ''blast_radius'', ''security_boundary_check'',
     ''delegate_to_firewall_specialist'', ''mark_incident_resolved'']"

definition firewall_tools :: "string list" where
  "firewall_tools = [''get_denied_flows'', ''get_acl_hits'', ''propose_policy_change'', ''resolve_without_change'']"

definition two_devices :: "(string \<times> json) list \<Rightarrow> (string \<Rightarrow> string \<Rightarrow> 'a) \<Rightarrow> 'a option" where
  "two_devices args f = Option.bind (device_field ''source_device'' args) (\<lambda>s.
     map_option (f s) (device_field ''target_device'' args))"

definition port_field :: "(json \<Rightarrow> int option) \<Rightarrow> (string \<times> json) list \<Rightarrow> int option" where
  "port_field as_int args = Option.bind (optional_field ''port'' 443 as_int args)
     (\<lambda>p. if 1 \<le> p \<and> p \<le> 65535 then Some p else None)"

definition propose_args :: "(json \<Rightarrow> int option) \<Rightarrow> (string \<times> json) list \<Rightarrow> tool_args option" where
  "propose_args as_int args =
     Option.bind (device_field ''device_id'' args) (\<lambda>d.
     Option.bind (str_field ''command'' args) (\<lambda>c.
     Option.bind (str_field ''rationale'' args) (\<lambda>r.
     Option.bind (optional_field ''position'' None (j_nullable as_int) args) (\<lambda>p.
     map_option (Propose_args d c r p) (optional_field ''rollback'' [] j_string args)))))"

text \<open>\<open>args_model.model_validate\<close>, by the name of the tool; \<open>None\<close> is a \<open>ValidationError\<close>.\<close>

definition validate_args :: "(json \<Rightarrow> int option) \<Rightarrow> tool_call \<Rightarrow> tool_args option" where
  "validate_args as_int call =
     (let n = tc_name call; args = tc_args call
      in if n = ''trace_network_path'' then two_devices args Path_args
         else if n = ''blast_radius'' then map_option Blast_args (device_field ''device_name'' args)
         else if n = ''security_boundary_check'' then two_devices args Boundary_args
         else if n = ''delegate_to_firewall_specialist''
           then Option.bind (str_field ''context'' args) (\<lambda>c.
             case map_of args ''target_devices'' of Some (JArr vs) \<Rightarrow> map_option (Delegate_args c) (j_strings vs) | _ \<Rightarrow> None)
         else if n = ''mark_incident_resolved'' \<or> n = ''resolve_without_change''
           then map_option Resolve_args (str_field ''summary'' args)
         else if n = ''get_denied_flows''
           then Option.bind (two_devices args Denied_args) (\<lambda>f. map_option f (port_field as_int args))
         else if n = ''get_acl_hits''
           then Option.bind (device_field ''device_id'' args) (\<lambda>d.
             map_option (Hits_args d) (optional_field ''rule_id'' None (j_nullable j_string) args))
         else if n = ''propose_policy_change'' then propose_args as_int args
         else None)"

section \<open>Tool handlers\<close>

record tool_result =
  tr_text :: tool_text
  tr_update :: "agent_state \<Rightarrow> agent_state"
  tr_goto :: "goto option"

definition only_text :: "tool_text \<Rightarrow> tool_result" where
  "only_text t = \<lparr>tr_text = t, tr_update = (\<lambda>st. st), tr_goto = None\<rparr>"

definition path_text :: "string list \<Rightarrow> string" where
  "path_text p = ''Path Trace Success. Traffic flows through: '' @ join '' -> '' p"

definition handle_path_trace :: "topology \<Rightarrow> string \<Rightarrow> string \<Rightarrow> tool_result res" where
  "handle_path_trace tp s t =
     (if s \<notin> set (tp_known tp) then Inr (only_text (Unknown_device s))
      else if t \<notin> set (tp_known tp) then Inr (only_text (Unknown_device t))
      else res_bind (tp_path tp s t) (\<lambda>p. case p of
             None \<Rightarrow> Inr (only_text (No_path s t))
           | Some hops \<Rightarrow>
               if hops = [] then Inr (only_text (No_path s t))
               else Inr \<lparr>tr_text = Path_found hops, tr_update = (\<lambda>st. st\<lparr>ag_topology := path_text hops\<rparr>),
                         tr_goto = None\<rparr>))"

definition handle_blast_radius :: "topology \<Rightarrow> string \<Rightarrow> tool_result res" where
  "handle_blast_radius tp d =
     (if d \<notin> set (tp_known tp) then Inr (only_text (Unknown_device d))
      else res_bind (tp_blast tp d) (\<lambda>is. Inr (only_text (if is = [] then No_neighbors d else Blast_of d is))))"

definition zone_text :: "boundary \<Rightarrow> string" where
  "zone_text b = ''source_zone='' @ bd_source_zone b @ '' dest_zone='' @ bd_dest_zone b
     @ '' crosses_boundary='' @ (if bd_crosses b then ''true'' else ''false'')"

definition handle_security_boundary :: "topology \<Rightarrow> string \<Rightarrow> string \<Rightarrow> tool_result res" where
  "handle_security_boundary tp s t =
     (if s \<notin> set (tp_known tp) then Inr (only_text (Unknown_device s))
      else if t \<notin> set (tp_known tp) then Inr (only_text (Unknown_device t))
      else case tp_boundary tp s t of
             None \<Rightarrow> Inr (only_text (No_zone s t))
           | Some b \<Rightarrow> Inr \<lparr>tr_text = Zones b, tr_update = (\<lambda>st. st\<lparr>ag_zone := zone_text b\<rparr>), tr_goto = None\<rparr>)"

definition handle_delegate :: "agent_state \<Rightarrow> string \<Rightarrow> string list \<Rightarrow> tool_result" where
  "handle_delegate st context devices =
     (if strip (ag_topology st @ ag_zone st) = [] then only_text Query_topology_first
      else \<lparr>tr_text = Delegated devices,
            tr_update = (\<lambda>st. st\<lparr>ag_worker := ''firewall'',
              ag_brief := ''Task delegated from Supervisor. Context: '' @ context @ ''. Target devices: '' @ py_repr_list devices\<rparr>),
            tr_goto = Some (Goto Specialist)\<rparr>)"

definition handle_resolve :: "string \<Rightarrow> tool_result" where
  "handle_resolve s = \<lparr>tr_text = Marked_resolved, tr_update = (\<lambda>st. st\<lparr>ag_summary := Text s, ag_worker := []\<rparr>),
     tr_goto = Some Goto_end\<rparr>"

definition known_ip :: "topology \<Rightarrow> string \<Rightarrow> string option" where
  "known_ip tp d = (case tp_ip tp d of None \<Rightarrow> None | Some a \<Rightarrow> if a = [] then None else Some a)"

definition handle_denied_flows :: "topology \<Rightarrow> backend \<Rightarrow> string \<Rightarrow> string \<Rightarrow> int \<Rightarrow> tool_result res" where
  "handle_denied_flows tp bk s t port =
     (case (known_ip tp s, known_ip tp t) of
        (None, _) \<Rightarrow> Inr (only_text (No_address s))
      | (Some _, None) \<Rightarrow> Inr (only_text (No_address t))
      | (Some a, Some b) \<Rightarrow>
          res_bind (bk_denied bk \<lparr>fq_source_device = s, fq_source_ip = a, fq_target_device = t, fq_target_ip = b, fq_port = port\<rparr>)
            (\<lambda>rows. Inr (if rows = [] then only_text (No_denied_flows s t port)
                       else \<lparr>tr_text = Denied_rows rows, tr_update = (\<lambda>st. st\<lparr>ag_denied := rows\<rparr>), tr_goto = None\<rparr>)))"

definition handle_acl_hits :: "backend \<Rightarrow> string \<Rightarrow> string option \<Rightarrow> tool_result res" where
  "handle_acl_hits bk d r =
     res_bind (bk_hits bk d r) (\<lambda>rows. Inr (only_text (if rows = [] then No_hits d else Hit_rows rows)))"

definition max_verify_attempts :: int where
  "max_verify_attempts = 3"

definition proposed_action :: "backend \<Rightarrow> string \<Rightarrow> string \<Rightarrow> int option \<Rightarrow> action" where
  "proposed_action bk d c p = \<lparr>act_device = d, act_command = c, act_vendor = bk_platform bk, act_position = p\<rparr>"

definition judged_action :: "action \<Rightarrow> report \<Rightarrow> rollback_report \<Rightarrow> eaction" where
  "judged_action a report rollback = action.extend a
     \<lparr>ea_rollback = rb_command rollback, ea_verified = (rp_ok report \<and> rb_ok rollback),
      ea_rollback_verified = rb_ok rollback\<rparr>"

text \<open>\<open>handle_propose_change\<close>: after three refusals a proposal is queued whatever the simulation says.\<close>

definition handle_propose ::
  "topology \<Rightarrow> backend \<Rightarrow> agent_state \<Rightarrow> string \<Rightarrow> string \<Rightarrow> string \<Rightarrow> int option \<Rightarrow> string \<Rightarrow> tool_result res" where
  "handle_propose tp bk st d c rationale p rollback =
     (if d \<notin> set (tp_known tp) then Inr (only_text (Unknown_device d))
      else let a = proposed_action bk d c p; attempts = ag_attempts st
           in res_bind (verify_change [a] (ag_denied st) (firewall.truncate bk)) (\<lambda>report.
                if \<not> rp_ok report \<and> attempts < max_verify_attempts
                then Inr \<lparr>tr_text = Not_restored report,
                          tr_update = (\<lambda>st. st\<lparr>ag_attempts := attempts + 1, ag_verification := rp_lines report\<rparr>),
                          tr_goto = None\<rparr>
                else res_bind (verify_rollback a (ag_denied st) (firewall.truncate bk) rollback) (\<lambda>rb.
                  if \<not> rb_ok rb \<and> attempts < max_verify_attempts
                  then Inr \<lparr>tr_text = Not_reversible rb,
                            tr_update = (\<lambda>st. st\<lparr>ag_attempts := attempts + 1, ag_verification := rb_lines rb\<rparr>),
                            tr_goto = None\<rparr>
                  else Inr \<lparr>tr_text = Queued_for_approval (rp_ok report \<and> rb_ok rb) (rb_command rb),
                            tr_update = (\<lambda>st. st\<lparr>ag_pending := [judged_action a report rb], ag_summary := Text rationale,
                              ag_verification := rp_lines report @ rb_lines rb\<rparr>),
                            tr_goto = Some (Goto Execute)\<rparr>)))"

definition run_tool :: "topology \<Rightarrow> backend \<Rightarrow> agent_state \<Rightarrow> tool_args \<Rightarrow> tool_result res" where
  "run_tool tp bk st args = (case args of
       Path_args s t \<Rightarrow> handle_path_trace tp s t
     | Blast_args d \<Rightarrow> handle_blast_radius tp d
     | Boundary_args s t \<Rightarrow> handle_security_boundary tp s t
     | Delegate_args c ds \<Rightarrow> Inr (handle_delegate st c ds)
     | Resolve_args s \<Rightarrow> Inr (handle_resolve s)
     | Denied_args s t port \<Rightarrow> handle_denied_flows tp bk s t port
     | Hits_args d r \<Rightarrow> handle_acl_hits bk d r
     | Propose_args d c r p rb \<Rightarrow> handle_propose tp bk st d c r p rb)"


section \<open>A turn\<close>

text \<open>The latency budgets: zero is no budget.\<close>

definition node_seconds :: "node \<Rightarrow> agent_state \<Rightarrow> int" where
  "node_seconds n st = (case map_of (ag_by_node st) n of None \<Rightarrow> 0 | Some s \<Rightarrow> s)"

definition check_budgets :: "agent_cfg \<Rightarrow> agent_state \<Rightarrow> node \<Rightarrow> unit res" where
  "check_budgets cfg st n =
     (if 0 < cf_incident_budget cfg \<and> cf_incident_budget cfg \<le> ag_elapsed st
      then Inl (RuntimeError ''incident model budget exceeded'')
      else if 0 < cf_node_budget cfg \<and> cf_node_budget cfg \<le> node_seconds n st
      then Inl (RuntimeError ''node model budget exceeded'')
      else Inr ())"

definition close_tag :: "string \<Rightarrow> string" where
  "close_tag content =
     (if is_substring ''<tool_call>'' (lower content) \<and> \<not> is_substring ''</tool_call>'' (lower content)
      then rstrip content @ [CHR 0x0A] @ ''</tool_call>'' else content)"

text \<open>\<open>_parse_model_response\<close>: the first native call, or the call in the text.\<close>

definition parse_response :: "agent_cfg \<Rightarrow> reply \<Rightarrow> tool_call option" where
  "parse_response cfg r = (case re_calls r of c # _ \<Rightarrow> Some c | [] \<Rightarrow> cf_parse cfg (close_tag (re_content r)))"

text \<open>\<open>agent.llm.invoke\<close>, by the number of the attempt; a second one follows only where nothing is inferred.\<close>

definition ask_model :: "agent_cfg \<Rightarrow> (nat \<Rightarrow> reply res) \<Rightarrow> (reply \<times> int) res" where
  "ask_model cfg ask = res_bind (ask 0) (\<lambda>r.
     if parse_response cfg r \<noteq> None \<or> cf_fallback cfg then Inr (r, re_seconds r)
     else res_bind (ask 1) (\<lambda>r'. Inr (r', re_seconds r + re_seconds r')))"

text \<open>The reducers \<open>add_elapsed\<close> and \<open>merge_node_seconds\<close> over \<open>_timing_update\<close>.\<close>

definition add_timing :: "node \<Rightarrow> int \<Rightarrow> agent_state \<Rightarrow> agent_state" where
  "add_timing n s st = st\<lparr>ag_elapsed := ag_elapsed st + s,
     ag_by_node := al_put n (node_seconds n st + s) (ag_by_node st)\<rparr>"

definition say :: "message list \<Rightarrow> log_entry list \<Rightarrow> agent_state \<Rightarrow> agent_state" where
  "say ms ls st = st\<lparr>ag_messages := ag_messages st @ ms, ag_log := ag_log st @ ls\<rparr>"

definition tools_of :: "node \<Rightarrow> string list" where
  "tools_of n = (case n of Supervisor \<Rightarrow> supervisor_tools | Specialist \<Rightarrow> firewall_tools | Execute \<Rightarrow> [])"

text \<open>\<open>tool_context\<close>: the topology narrowed to the site of the incident.\<close>

definition context_topology :: "agent_cfg \<Rightarrow> agent_state \<Rightarrow> topology" where
  "context_topology cfg st = topology_of (scoped_topology (cf_store cfg) (strip (ag_site st)))"

text \<open>What a turn does with the chosen call; \<open>st\<close> is the state the handler sees, \<open>st'\<close> the one with the
  timing, and \<open>inferred\<close> the log of an inferred call.\<close>

definition run_call ::
  "agent_cfg \<Rightarrow> node \<Rightarrow> backend \<Rightarrow> string \<Rightarrow> tool_call \<Rightarrow> log_entry list \<Rightarrow> agent_state \<Rightarrow> agent_state
    \<Rightarrow> (goto \<times> agent_state) res" where
  "run_call cfg n bk content call inferred st st' =
     (if tc_name call \<notin> set (tools_of n)
      then Inr (Goto n, say [Ai_call content call, Tool_result (Unknown_tool (tc_name call))] inferred st')
      else case validate_args (cf_int cfg) call of
        None \<Rightarrow> Inr (Goto n, say [Ai_call content call, Tool_result (Invalid_arguments (tc_name call))] inferred st')
      | Some args \<Rightarrow> res_bind (run_tool (context_topology cfg st) bk st args) (\<lambda>t.
          Inr (case tr_goto t of None \<Rightarrow> Goto n | Some g \<Rightarrow> g,
               say [Ai_call content call, Tool_result (tr_text t)]
                 (inferred @ [Called (tc_name call) (tr_text t)]) (tr_update t st'))))"

text \<open>\<open>run_xml_turn\<close>, which is \<open>supervisor_node\<close> and \<open>firewall_node\<close>.\<close>

definition run_xml_turn ::
  "agent_cfg \<Rightarrow> node \<Rightarrow> (nat \<Rightarrow> reply res) \<Rightarrow> backend \<Rightarrow> agent_state \<Rightarrow> (goto \<times> agent_state) res" where
  "run_xml_turn cfg n ask bk st =
     res_bind (check_budgets cfg st n) (\<lambda>_.
     res_bind (ask_model cfg ask) (\<lambda>(r, secs).
       let content = close_tag (re_content r); st' = add_timing n secs st
       in case parse_response cfg r of
            Some call \<Rightarrow> run_call cfg n bk content call [] st st'
          | None \<Rightarrow>
              if \<not> cf_fallback cfg then Inl (RuntimeError ''inference fallback is disabled'')
              else (case cf_infer cfg (tools_of n) st of
                      Some call \<Rightarrow> run_call cfg n bk content call [Inferred (tc_name call)] st st'
                    | None \<Rightarrow> Inr (Goto n, say [Ai_text content, Format_nudge]
                        [Parse_error (replace_char (CHR 0x0A) (CHR '' '') (take 400 content))] st'))))"

section \<open>The execution node\<close>

definition decision_of :: "agent_state \<Rightarrow> string" where
  "decision_of st = lower (strip (ag_decision st))"

definition actor_of :: "agent_state \<Rightarrow> string" where
  "actor_of st = strip (if ag_actor st = [] then ''unattributed'' else ag_actor st)"

text \<open>The executor of \<open>make_executor\<close> (\<open>None\<close>: the dry run), called with the approved actions.\<close>

definition run_executor ::
  "exec_cfg option \<Rightarrow> 'w plant \<Rightarrow> eaction list \<Rightarrow> flow list \<Rightarrow> string \<Rightarrow> exec_store \<times> 'w
    \<Rightarrow> exec_result res \<times> exec_store \<times> 'w" where
  "run_executor ex pl actions flows key es = (case ex of
       None \<Rightarrow> (Inr (dry_run actions), es)
     | Some cfg \<Rightarrow>
         if key \<noteq> [] then apply_once cfg pl actions flows key es
         else (case device_apply cfg pl True actions flows (snd es) of (r, w) \<Rightarrow> (r, fst es, w)))"

definition reject_change :: "agent_state \<Rightarrow> agent_state" where
  "reject_change st =
     (let note = (if strip (ag_feedback st) = [] then ''no details'' else strip (ag_feedback st))
      in (say [Rejected_by (actor_of st) note] [] st)
           \<lparr>ag_pending := [], ag_decision := [], ag_feedback := [], ag_actor := [],
            ag_brief := ''Rejected. Engineer feedback: '' @ note\<rparr>)"

definition execute_change ::
  "exec_cfg option \<Rightarrow> 'w plant \<Rightarrow> firewall \<Rightarrow> agent_state \<Rightarrow> exec_store \<times> 'w
    \<Rightarrow> (goto \<times> agent_state) res \<times> exec_store \<times> 'w" where
  "execute_change ex pl fw st es =
     (if decision_of st = ''reject'' then (Inr (Goto Specialist, reject_change st), es)
      else case verify_change (map action.truncate (ag_pending st)) (ag_denied st) fw of
        Inl e \<Rightarrow> (Inl e, es)
      | Inr report \<Rightarrow>
          (case run_executor ex pl (ag_pending st) (ag_denied st) (strip (ag_key st)) es of
             (Inl e, es') \<Rightarrow> (Inl e, es')
           | (Inr r, es') \<Rightarrow>
               (Inr (Goto_end, st\<lparr>ag_summary := Executed (xr_state r) (actor_of st) (rp_ok report) (strip (ag_feedback st)),
                  ag_verification := rp_lines report, ag_execution := Some r, ag_worker := []\<rparr>), es')))"

section \<open>The graph\<close>

text \<open>
  A compiled graph runs one node after the other, at most \<open>recursion_limit\<close> of them per invocation,
  saves a checkpoint after each, and stops before \<open>execute_change\<close>. \<open>env\<close> gives the model and the
  backend of each step. A run ends with the last checkpoint and the exception, if there was one.
\<close>

record thread =
  th_state :: agent_state
  th_next :: "node option"

type_synonym turns = "nat \<Rightarrow> (nat \<Rightarrow> reply res) \<times> backend"

definition recursion_limit :: nat where
  "recursion_limit = 16"

fun run_graph :: "agent_cfg \<Rightarrow> turns \<Rightarrow> nat \<Rightarrow> node \<Rightarrow> agent_state \<Rightarrow> thread \<times> py_exn option" where
  "run_graph cfg env fuel Execute st = (\<lparr>th_state = st, th_next = Some Execute\<rparr>, None)"
| "run_graph cfg env 0 n st = (\<lparr>th_state = st, th_next = Some n\<rparr>, Some (RuntimeError ''recursion limit reached''))"
| "run_graph cfg env (Suc fuel) n st =
     (case run_xml_turn cfg n (fst (env fuel)) (snd (env fuel)) st of
        Inl e \<Rightarrow> (\<lparr>th_state = st, th_next = Some n\<rparr>, Some e)
      | Inr (Goto_end, st') \<Rightarrow> (\<lparr>th_state = st', th_next = None\<rparr>, None)
      | Inr (Goto n', st') \<Rightarrow> run_graph cfg env fuel n' st')"

text \<open>\<open>ainvoke(initial)\<close> and \<open>ainvoke(Command(resume=True, update=...))\<close>; the latter runs the node the
  thread stopped at, the interrupted one included.\<close>

definition start_graph :: "agent_cfg \<Rightarrow> turns \<Rightarrow> agent_state \<Rightarrow> thread \<times> py_exn option" where
  "start_graph cfg env st = run_graph cfg env recursion_limit Supervisor st"

record decision =
  de_decision :: string
  de_feedback :: string
  de_actor :: string
  de_key :: string

definition with_decision :: "decision \<Rightarrow> agent_state \<Rightarrow> agent_state" where
  "with_decision d st = st\<lparr>ag_decision := de_decision d, ag_feedback := de_feedback d,
     ag_actor := de_actor d, ag_key := de_key d\<rparr>"

definition resume_graph ::
  "agent_cfg \<Rightarrow> exec_cfg option \<Rightarrow> 'w plant \<Rightarrow> firewall \<Rightarrow> turns \<Rightarrow> decision \<Rightarrow> thread \<Rightarrow> exec_store \<times> 'w
    \<Rightarrow> (thread \<times> py_exn option) \<times> exec_store \<times> 'w" where
  "resume_graph cfg ex pl fw env d th es =
     (let st = with_decision d (th_state th)
      in case th_next th of
           None \<Rightarrow> ((\<lparr>th_state = st, th_next = None\<rparr>, None), es)
         | Some Execute \<Rightarrow>
             (case execute_change ex pl fw st es of
                (Inl e, es') \<Rightarrow> ((\<lparr>th_state = st, th_next = Some Execute\<rparr>, Some e), es')
              | (Inr (Goto_end, st'), es') \<Rightarrow> ((\<lparr>th_state = st', th_next = None\<rparr>, None), es')
              | (Inr (Goto n, st'), es') \<Rightarrow> (run_graph cfg env (recursion_limit - 1) n st', es'))
         | Some n \<Rightarrow> (run_graph cfg env recursion_limit n st, es))"

end
