(* ===== verification/Access.thy ===== *)
theory Access
  imports Throttle "HOL-Library.Word"
begin

text \<open>
  Who may act: the role ladder (\<open>app/auth/models.py\<close>), the session tokens (\<open>tokens.py\<close>), the
  request checks (\<open>deps.py\<close>, \<open>webhook_auth.py\<close>), one-time passwords (\<open>totp.py\<close>), the user table
  (\<open>store.py\<close>) and the login and second-factor handlers (\<open>app/routers/auth.py\<close>). PyJWT, argon2 and
  the HMAC of the standard library are the record of functions \<open>authlib\<close>. Times are whole seconds.
\<close>

section \<open>Roles and principals\<close>

datatype role = Viewer | Operator | Approver | Admin

fun rank :: "role \<Rightarrow> int" where
  "rank Viewer = 0"
| "rank Operator = 1"
| "rank Approver = 2"
| "rank Admin = 3"

definition can :: "role \<Rightarrow> role \<Rightarrow> bool" where
  "can r required = (rank r \<ge> rank required)"

fun role_value :: "role \<Rightarrow> string" where
  "role_value Viewer = ''viewer''"
| "role_value Operator = ''operator''"
| "role_value Approver = ''approver''"
| "role_value Admin = ''admin''"

text \<open>\<open>Role(value)\<close>\<close>

definition role_of :: "string \<Rightarrow> role option" where
  "role_of v = List.find (\<lambda>r. role_value r = v) [Viewer, Operator, Approver, Admin]"

record principal =
  pr_subject :: string
  pr_role :: role
  pr_kind :: string
  pr_mfa :: bool
  pr_csrf :: string

definition is_service :: "principal \<Rightarrow> bool" where
  "is_service p = (pr_kind p = ''service'')"

definition anonymous :: principal where
  "anonymous = \<lparr>pr_subject = ''auth-disabled'', pr_role = Admin, pr_kind = ''anonymous'', pr_mfa = False, pr_csrf = []\<rparr>"

definition service_principal :: principal where
  "service_principal = \<lparr>pr_subject = ''service-token'', pr_role = Operator, pr_kind = ''service'', pr_mfa = False, pr_csrf = []\<rparr>"

text \<open>An HTTP error: the status and the detail.\<close>

type_synonym 'a http = "(int \<times> string) + 'a"

definition http_bind :: "'a http \<Rightarrow> ('a \<Rightarrow> 'b http) \<Rightarrow> 'b http" where
  "http_bind m f = (case m of Inl e \<Rightarrow> Inl e | Inr x \<Rightarrow> f x)"

lemma http_bind_simps [simp]: "http_bind (Inl e) f = Inl e" "http_bind (Inr x) f = f x"
  by (simp_all add: http_bind_def)

lemma http_bind_Inr: "http_bind m f = Inr y \<longleftrightarrow> (\<exists>x. m = Inr x \<and> f x = Inr y)"
  by (cases m) auto

section \<open>Session tokens\<close>

text \<open>The payload of a token, a key that is not there being \<open>None\<close>.\<close>

record claims =
  cl_sub :: "string option"
  cl_role :: "string option"
  cl_kind :: "string option"
  cl_iss :: string
  cl_iat :: int
  cl_exp :: int
  cl_mfa :: "bool option"
  cl_csrf :: "string option"

text \<open>\<open>jwt.encode\<close>, \<open>jwt.decode\<close> with the issuer check, at a moment, argon2's \<open>hash\<close> and \<open>verify\<close>, and
  HMAC-SHA1.\<close>

record authlib =
  au_encode :: "claims \<Rightarrow> string \<Rightarrow> string"
  au_decode :: "int \<Rightarrow> string \<Rightarrow> string \<Rightarrow> string \<Rightarrow> string + claims"
  au_hash :: "string \<Rightarrow> string"
  au_verify :: "string \<Rightarrow> string \<Rightarrow> bool"
  au_hmac :: "8 word list \<Rightarrow> 8 word list \<Rightarrow> 8 word list"

definition issuer :: string where
  "issuer = ''zeronode''"

definition issue_token :: "authlib \<Rightarrow> int \<Rightarrow> principal \<Rightarrow> string \<Rightarrow> int \<Rightarrow> string \<Rightarrow> bool \<Rightarrow> string \<times> int" where
  "issue_token au now p secret ttl_minutes csrf mfa =
     (au_encode au
        \<lparr>cl_sub = Some (pr_subject p), cl_role = Some (role_value (pr_role p)), cl_kind = Some (pr_kind p),
         cl_iss = issuer, cl_iat = now, cl_exp = now + ttl_minutes * 60, cl_mfa = Some mfa,
         cl_csrf = (if csrf \<noteq> [] then Some csrf else None)\<rparr> secret,
      ttl_minutes * 60)"

definition decode_token :: "authlib \<Rightarrow> int \<Rightarrow> string \<Rightarrow> string \<Rightarrow> string + principal" where
  "decode_token au now token secret =
     (case au_decode au now issuer token secret of
        Inl e \<Rightarrow> Inl e
      | Inr c \<Rightarrow>
          (case Option.bind (cl_role c) role_of of
             None \<Rightarrow> Inl ''token carries no usable role''
           | Some r \<Rightarrow>
               (case cl_sub c of
                  None \<Rightarrow> Inl ''token carries no subject''
                | Some s \<Rightarrow>
                    if s = [] then Inl ''token carries no subject''
                    else Inr \<lparr>pr_subject = s, pr_role = r,
                              pr_kind = (case cl_kind c of None \<Rightarrow> ''user'' | Some k \<Rightarrow> k),
                              pr_mfa = (case cl_mfa c of None \<Rightarrow> False | Some b \<Rightarrow> b),
                              pr_csrf = (case cl_csrf c of None \<Rightarrow> [] | Some x \<Rightarrow> x)\<rparr>)))"

section \<open>Request checks\<close>

record request =
  rq_method :: string
  rq_authorization :: string
  rq_cookie :: "string option"
  rq_csrf_header :: string
  rq_forwarded :: string
  rq_client :: "string option"

record auth_state =
  as_enabled :: bool
  as_service_token :: string
  as_jwt_secret :: string
  as_mfa_required :: bool

definition bearer :: "request \<Rightarrow> string option" where
  "bearer rq = (case partition_at (CHR '' '') (rq_authorization rq) of
     (scheme, _, token) \<Rightarrow>
       if lower scheme \<noteq> ''bearer'' \<or> strip token = [] then None else Some (strip token))"

definition unsafe_methods :: "string list" where
  "unsafe_methods = [''POST'', ''PUT'', ''PATCH'', ''DELETE'']"

definition check_csrf :: "request \<Rightarrow> principal \<Rightarrow> unit http" where
  "check_csrf rq p =
     (if upper (rq_method rq) \<notin> set unsafe_methods then Inr ()
      else if pr_csrf p = [] then Inl (403, ''Session predates CSRF protection; sign in again'')
      else if rq_csrf_header rq = [] \<or> rq_csrf_header rq \<noteq> pr_csrf p
        then Inl (403, ''Missing or invalid CSRF token'')
      else Inr ())"

definition decode_principal :: "authlib \<Rightarrow> int \<Rightarrow> string \<Rightarrow> string \<Rightarrow> principal http" where
  "decode_principal au now token secret =
     (case decode_token au now token secret of
        Inl e \<Rightarrow> Inl (401, ''Invalid token: '' @ e) | Inr p \<Rightarrow> Inr p)"

definition current_principal :: "authlib \<Rightarrow> auth_state \<Rightarrow> int \<Rightarrow> request \<Rightarrow> principal http" where
  "current_principal au st now rq =
     (if \<not> as_enabled st then Inr anonymous
      else case bearer rq of
        Some b \<Rightarrow>
          if as_service_token st \<noteq> [] \<and> b = as_service_token st then Inr service_principal
          else decode_principal au now b (as_jwt_secret st)
      | None \<Rightarrow>
          (case rq_cookie rq of
             None \<Rightarrow> Inl (401, ''Not authenticated'')
           | Some cookie \<Rightarrow>
               if cookie = [] then Inl (401, ''Not authenticated'')
               else http_bind (decode_principal au now cookie (as_jwt_secret st))
                 (\<lambda>p. http_bind (check_csrf rq p) (\<lambda>_. Inr p))))"

definition role_refused :: "role \<Rightarrow> role \<Rightarrow> int \<times> string" where
  "role_refused r required = (403, ''Role '' @ [CHR 0x27] @ role_value r @ [CHR 0x27] @ '' cannot perform this action; ''
     @ [CHR 0x27] @ role_value required @ [CHR 0x27] @ '' or higher is required'')"

definition mfa_missing :: "int \<times> string" where
  "mfa_missing = (403, ''This action requires a second factor. Enrol at ''
     @ ''/api/v1/auth/mfa/enrol and sign in again with your code.'')"

definition require_role ::
  "authlib \<Rightarrow> auth_state \<Rightarrow> role \<Rightarrow> bool \<Rightarrow> bool \<Rightarrow> int \<Rightarrow> request \<Rightarrow> principal http" where
  "require_role au st required human_only mfa now rq =
     http_bind (current_principal au st now rq) (\<lambda>p.
       if \<not> can (pr_role p) required then Inl (role_refused (pr_role p) required)
       else if human_only \<and> is_service p
         then Inl (403, ''This action requires an authenticated human, not a machine credential'')
       else if mfa \<and> pr_kind p = ''user'' \<and> as_mfa_required st \<and> \<not> pr_mfa p then Inl mfa_missing
       else Inr p)"

text \<open>\<open>_client_key\<close> and \<open>require_webhook_principal\<close>; \<open>None\<close> is a deployment without a limiter.\<close>

definition client_key :: "request \<Rightarrow> string" where
  "client_key rq =
     (if rq_forwarded rq \<noteq> [] then strip (hd (split_on (CHR '','') (rq_forwarded rq)))
      else case rq_client rq of Some h \<Rightarrow> if h \<noteq> [] then h else ''unknown'' | None \<Rightarrow> ''unknown'')"

definition require_webhook_principal ::
  "authlib \<Rightarrow> auth_state \<Rightarrow> int \<Rightarrow> request \<Rightarrow> limiter option \<Rightarrow> principal http res \<times> limiter option" where
  "require_webhook_principal au st now rq lm =
     (case current_principal au st now rq of
        Inl e \<Rightarrow> (Inr (Inl e), lm)
      | Inr p \<Rightarrow>
          if \<not> can (pr_role p) Operator then (Inr (Inl (role_refused (pr_role p) Operator)), lm)
          else (case lm of
                  None \<Rightarrow> (Inr (Inr p), None)
                | Some l \<Rightarrow>
                    (case limiter_check (client_key rq) now l of
                       (Inl e, l') \<Rightarrow> (Inl e, Some l')
                     | (Inr (ok, retry), l') \<Rightarrow>
                         (Inr (if ok then Inr p
                               else Inl (429, ''Webhook rate limit exceeded; retry in '' @ show_int retry @ ''s'')),
                          Some l'))))"

section \<open>One-time passwords\<close>

definition b32_value :: "char \<Rightarrow> int option" where
  "b32_value c = (let n = (of_char c :: int)
     in if 65 \<le> n \<and> n \<le> 90 then Some (n - 65) else if 50 \<le> n \<and> n \<le> 55 then Some (n - 24) else None)"

definition bits_of :: "nat \<Rightarrow> int \<Rightarrow> bool list" where
  "bits_of w v = map (\<lambda>i. odd (v div 2 ^ (w - 1 - i))) [0..<w]"

fun bytes_of_bits :: "bool list \<Rightarrow> 8 word list" where
  "bytes_of_bits (b7 # b6 # b5 # b4 # b3 # b2 # b1 # b0 # bs) =
     word_of_int (foldl (\<lambda>n b. 2 * n + of_bool b) 0 [b7, b6, b5, b4, b3, b2, b1, b0]) # bytes_of_bits bs"
| "bytes_of_bits bs = []"

text \<open>\<open>base64.b32decode(secret.upper() + padding, casefold=True)\<close>: the bits that do not fill a byte are
  dropped; a number of padding characters base32 does not have, and a character outside the
  alphabet, raise.\<close>

definition b32_decode :: "string \<Rightarrow> 8 word list res" where
  "b32_decode secret =
     (let padded = upper secret @ replicate (nat (- int (length secret) mod 8)) (CHR ''='');
          body = rev (dropWhile (\<lambda>c. c = CHR ''='') (rev padded))
      in if length padded - length body \<notin> {0, 1, 3, 4, 6} then Inl ValueError
         else if list_ex (\<lambda>c. b32_value c = None) body then Inl ValueError
         else Inr (bytes_of_bits (concat (map (\<lambda>c. bits_of 5 (the (b32_value c))) body))))"

definition counter_bytes :: "int \<Rightarrow> 8 word list" where
  "counter_bytes n = bytes_of_bits (bits_of 64 n)"

definition big_endian :: "8 word list \<Rightarrow> int" where
  "big_endian bs = foldl (\<lambda>n b. 256 * n + uint b) 0 bs"

definition zfill6 :: "string \<Rightarrow> string" where
  "zfill6 s = replicate (6 - length s) (CHR ''0'') @ s"

definition hotp :: "authlib \<Rightarrow> string \<Rightarrow> int \<Rightarrow> string res" where
  "hotp au secret counter =
     res_bind (b32_decode secret) (\<lambda>key.
       if counter < 0 \<or> counter \<ge> 2 ^ 64 then Inl ValueError
       else let digest = au_hmac au key (counter_bytes counter)
            in if digest = [] then Inl IndexError
               else let offset = nat (uint (last digest) mod 16);
                        part = take 4 (drop offset digest)
                    in if length part \<noteq> 4 then Inl ValueError
                       else Inr (zfill6 (show_int ((big_endian part mod 2 ^ 31) mod 1000000))))"

definition code_at :: "authlib \<Rightarrow> string \<Rightarrow> int \<Rightarrow> string res" where
  "code_at au secret timestamp = hotp au secret (timestamp div 30)"

fun try_codes :: "authlib \<Rightarrow> string \<Rightarrow> string \<Rightarrow> int list \<Rightarrow> bool res" where
  "try_codes au secret candidate [] = Inr False"
| "try_codes au secret candidate (c # cs) =
     res_bind (hotp au secret c) (\<lambda>code. if code = candidate then Inr True else try_codes au secret candidate cs)"

definition totp_verify :: "authlib \<Rightarrow> string \<Rightarrow> string \<Rightarrow> int \<Rightarrow> bool res" where
  "totp_verify au secret code timestamp =
     (let candidate = filter (\<lambda>c. c \<noteq> CHR '' '') (strip code)
      in if \<not> all_digits candidate \<or> length candidate \<noteq> 6 then Inr False
         else try_codes au secret candidate (map (\<lambda>d. timestamp div 30 + d) [-1, 0, 1]))"

end
