(* ===== verification/Accounts.thy ===== *)
theory Accounts
  imports Access
begin

text \<open>
  The user table (\<open>app/auth/store.py\<close>) and the handlers of \<open>app/routers/auth.py\<close>: login with its
  throttle, lock and second factor, enrolment, and user administration. An address is the key of
  the table, in lower case; a statement that names no row does nothing.
\<close>

section \<open>The user table\<close>

record user =
  us_hash :: string
  us_role :: string
  us_active :: bool
  us_totp_secret :: string
  us_totp_enabled :: bool
  us_failed :: int
  us_locked :: "int option"

type_synonym users = "(string \<times> user) list"

definition get_user :: "string \<Rightarrow> users \<Rightarrow> user option" where
  "get_user email us = map_of us (lower email)"

definition update_user :: "string \<Rightarrow> (user \<Rightarrow> user) \<Rightarrow> users \<Rightarrow> users" where
  "update_user email f us = map (\<lambda>(k, u). (k, if k = lower email then f u else u)) us"

definition fail_once :: "int \<Rightarrow> int \<Rightarrow> int \<Rightarrow> user \<Rightarrow> user" where
  "fail_once threshold lock_minutes now u =
     u\<lparr>us_failed := us_failed u + 1,
       us_locked := if us_failed u + 1 \<ge> threshold then Some (now + lock_minutes * 60) else us_locked u\<rparr>"

definition register_failure :: "string \<Rightarrow> int \<Rightarrow> int \<Rightarrow> int \<Rightarrow> users \<Rightarrow> int \<times> users" where
  "register_failure email threshold lock_minutes now us =
     ((case get_user email us of None \<Rightarrow> 0 | Some u \<Rightarrow> us_failed u + 1),
      update_user email (fail_once threshold lock_minutes now) us)"

definition clear_failures :: "string \<Rightarrow> users \<Rightarrow> users" where
  "clear_failures email us = update_user email (\<lambda>u. u\<lparr>us_failed := 0, us_locked := None\<rparr>) us"

definition set_totp_secret :: "string \<Rightarrow> string \<Rightarrow> users \<Rightarrow> users" where
  "set_totp_secret email secret us =
     update_user email (\<lambda>u. u\<lparr>us_totp_secret := secret, us_totp_enabled := False\<rparr>) us"

definition set_totp_enabled :: "string \<Rightarrow> bool \<Rightarrow> users \<Rightarrow> users" where
  "set_totp_enabled email enabled us =
     update_user email (\<lambda>u. u\<lparr>us_totp_enabled := enabled,
       us_totp_secret := if enabled then us_totp_secret u else []\<rparr>) us"

definition create_if_absent :: "string \<Rightarrow> string \<Rightarrow> role \<Rightarrow> users \<Rightarrow> bool \<times> users" where
  "create_if_absent email hash r us =
     (if map_of us (lower email) \<noteq> None then (False, us)
      else (True, us @ [(lower email,
        \<lparr>us_hash = hash, us_role = role_value r, us_active = True, us_totp_secret = [], us_totp_enabled = False,
         us_failed = 0, us_locked = None\<rparr>)]))"

section \<open>Login\<close>

record login_cfg =
  lc_threshold :: int
  lc_lock_minutes :: int
  lc_ttl_minutes :: int

record login_state =
  ls_users :: users
  ls_limiter :: "limiter option"

record login_body =
  lb_email :: string
  lb_password :: string
  lb_totp_code :: string

record session_grant =
  gr_email :: string
  gr_role :: role
  gr_token :: string
  gr_expires_in :: int
  gr_csrf :: string
  gr_mfa :: bool

definition limit_keys :: "string option \<Rightarrow> string \<Rightarrow> string list" where
  "limit_keys client email =
     [''ip:'' @ (case client of None \<Rightarrow> ''unknown'' | Some h \<Rightarrow> h), ''user:'' @ lower email]"

text \<open>\<open>_throttle\<close>: the keys in turn, up to the first that is refused.\<close>

fun check_keys :: "string list \<Rightarrow> int \<Rightarrow> limiter \<Rightarrow> unit http res \<times> limiter" where
  "check_keys [] now l = (Inr (Inr ()), l)"
| "check_keys (k # ks) now l =
     (case limiter_check k now l of
        (Inl e, l') \<Rightarrow> (Inl e, l')
      | (Inr (ok, retry), l') \<Rightarrow>
          if ok then check_keys ks now l' else (Inr (Inl (429, ''Too many login attempts; try again shortly'')), l'))"

definition throttle :: "string option \<Rightarrow> string \<Rightarrow> int \<Rightarrow> limiter option \<Rightarrow> unit http res \<times> limiter option" where
  "throttle client email now lm =
     (case lm of None \<Rightarrow> (Inr (Inr ()), None)
      | Some l \<Rightarrow> (case check_keys (limit_keys client email) now l of (r, l') \<Rightarrow> (r, Some l')))"

definition locked :: "int \<Rightarrow> user \<Rightarrow> bool" where
  "locked now u = (case us_locked u of None \<Rightarrow> False | Some t \<Rightarrow> t > now)"

text \<open>What the handler decides once the address is known; \<open>csrf\<close> is the random value of this session.
  The result is the session, or the error, with the users as they are left.\<close>

definition grant_session :: "authlib \<Rightarrow> login_cfg \<Rightarrow> string \<Rightarrow> int \<Rightarrow> string \<Rightarrow> string \<Rightarrow> user \<Rightarrow> session_grant http res" where
  "grant_session au cfg secret now csrf email u =
     (case role_of (us_role u) of
        None \<Rightarrow> Inl ValueError
      | Some r \<Rightarrow>
          (case issue_token au now
                  \<lparr>pr_subject = email, pr_role = r, pr_kind = ''user'', pr_mfa = False, pr_csrf = []\<rparr>
                  secret (lc_ttl_minutes cfg) csrf (us_totp_enabled u) of
             (token, expires) \<Rightarrow>
               Inr (Inr \<lparr>gr_email = email, gr_role = r, gr_token = token, gr_expires_in = expires,
                         gr_csrf = csrf, gr_mfa = us_totp_enabled u\<rparr>)))"

definition bad_credentials :: "int \<times> string" where
  "bad_credentials = (401, ''Invalid credentials'')"

definition login_user ::
  "authlib \<Rightarrow> login_cfg \<Rightarrow> string \<Rightarrow> int \<Rightarrow> string \<Rightarrow> login_body \<Rightarrow> users \<Rightarrow> session_grant http res \<times> users" where
  "login_user au cfg secret now csrf body us =
     (let failed = snd (register_failure (lb_email body) (lc_threshold cfg) (lc_lock_minutes cfg) now us)
      in case get_user (lb_email body) us of
           None \<Rightarrow> (Inr (Inl bad_credentials), us)
         | Some u \<Rightarrow>
             if locked now u
             then (Inr (Inl (423, ''Account is temporarily locked after repeated failures'')), us)
             else if \<not> au_verify au (us_hash u) (lb_password body) \<or> \<not> us_active u
             then (Inr (Inl bad_credentials), failed)
             else if us_totp_enabled u \<and> lb_totp_code body = []
             then (Inr (Inl (401, ''mfa_required'')), us)
             else (case (if us_totp_enabled u then totp_verify au (us_totp_secret u) (lb_totp_code body) now
                         else Inr True) of
                     Inl e \<Rightarrow> (Inl e, us)
                   | Inr ok \<Rightarrow>
                       if \<not> ok then (Inr (Inl bad_credentials), failed)
                       else (grant_session au cfg secret now csrf (lower (lb_email body)) u,
                             clear_failures (lb_email body) us)))"

definition login ::
  "authlib \<Rightarrow> login_cfg \<Rightarrow> string \<Rightarrow> int \<Rightarrow> string \<Rightarrow> string option \<Rightarrow> login_body \<Rightarrow> login_state \<Rightarrow>
   session_grant http res \<times> login_state" where
  "login au cfg secret now csrf client body st =
     (case throttle client (lb_email body) now (ls_limiter st) of
        (Inl e, lm) \<Rightarrow> (Inl e, st\<lparr>ls_limiter := lm\<rparr>)
      | (Inr (Inl e), lm) \<Rightarrow> (Inr (Inl e), st\<lparr>ls_limiter := lm\<rparr>)
      | (Inr (Inr _), lm) \<Rightarrow>
          (case login_user au cfg secret now csrf body (ls_users st) of
             (r, us) \<Rightarrow> (r, st\<lparr>ls_limiter := lm, ls_users := us\<rparr>)))"

section \<open>The second factor\<close>

definition can_approve :: "auth_state \<Rightarrow> principal \<Rightarrow> bool" where
  "can_approve st p = (can (pr_role p) Approver \<and> pr_kind p \<noteq> ''service'' \<and>
     (pr_mfa p \<or> \<not> as_mfa_required st \<or> pr_kind p = ''anonymous''))"

definition enrol_mfa :: "principal \<Rightarrow> string \<Rightarrow> users \<Rightarrow> string http \<times> users" where
  "enrol_mfa p secret us =
     (if pr_kind p \<noteq> ''user'' then (Inl (403, ''Only a signed-in person can enrol a second factor''), us)
      else (Inr secret, set_totp_secret (pr_subject p) secret us))"

definition activate_mfa :: "authlib \<Rightarrow> int \<Rightarrow> principal \<Rightarrow> string \<Rightarrow> users \<Rightarrow> unit http res \<times> users" where
  "activate_mfa au now p code us =
     (case get_user (pr_subject p) us of
        None \<Rightarrow> (Inr (Inl (400, ''Enrol before activating'')), us)
      | Some u \<Rightarrow>
          if us_totp_secret u = [] then (Inr (Inl (400, ''Enrol before activating'')), us)
          else case totp_verify au (us_totp_secret u) code now of
                 Inl e \<Rightarrow> (Inl e, us)
               | Inr ok \<Rightarrow>
                   if ok then (Inr (Inr ()), set_totp_enabled (pr_subject p) True us)
                   else (Inr (Inl (400, ''That code is not valid'')), us))"

definition disable_mfa :: "authlib \<Rightarrow> int \<Rightarrow> principal \<Rightarrow> string \<Rightarrow> users \<Rightarrow> unit http res \<times> users" where
  "disable_mfa au now p code us =
     (case get_user (pr_subject p) us of
        None \<Rightarrow> (Inr (Inl (400, ''No second factor is active'')), us)
      | Some u \<Rightarrow>
          if \<not> us_totp_enabled u then (Inr (Inl (400, ''No second factor is active'')), us)
          else case totp_verify au (us_totp_secret u) code now of
                 Inl e \<Rightarrow> (Inl e, us)
               | Inr ok \<Rightarrow>
                   if ok then (Inr (Inr ()), set_totp_enabled (pr_subject p) False us)
                   else (Inr (Inl (400, ''That code is not valid'')), us))"

section \<open>Administration\<close>

definition create_user :: "authlib \<Rightarrow> string \<Rightarrow> string \<Rightarrow> role \<Rightarrow> users \<Rightarrow> (string \<times> role) http \<times> users" where
  "create_user au email password r us =
     (case create_if_absent email (au_hash au password) r us of
        (created, us') \<Rightarrow> (if created then Inr (email, r) else Inl (409, ''User exists''), us'))"

definition unlock_user :: "string \<Rightarrow> users \<Rightarrow> users" where
  "unlock_user email us = clear_failures email us"

section \<open>Facts\<close>

lemma map_of_update_user:
  "map_of (update_user email f us) k = (if k = lower email then map_option f (map_of us k) else map_of us k)"
  by (induction us) (auto simp: update_user_def)

lemma lower_char_idem [simp]: "lower_char (lower_char c) = lower_char c"
proof -
  define n where "n = (of_char c :: nat)"
  have c: "c = char_of n" and n: "n < 256" by (simp_all add: n_def)
  show ?thesis
    by (cases "65 \<le> n \<and> n \<le> 90") (auto simp: lower_char_def c n Let_def)
qed

lemma lower_idem [simp]: "lower (lower s) = lower s"
  by (simp add: lower_def comp_def)

lemma get_update_user: "get_user email (update_user email f us) = map_option f (get_user email us)"
  by (simp add: get_user_def map_of_update_user)

lemma role_of_value [simp]: "role_of (role_value r) = Some r"
  by (cases r) (simp_all add: role_of_def)

lemma grant_session_Inr:
  "grant_session au cfg secret now csrf email u = Inr (Inr g) \<longleftrightarrow>
     (\<exists>r. role_of (us_role u) = Some r \<and>
        g = \<lparr>gr_email = email, gr_role = r,
             gr_token = fst (issue_token au now
               \<lparr>pr_subject = email, pr_role = r, pr_kind = ''user'', pr_mfa = False, pr_csrf = []\<rparr>
               secret (lc_ttl_minutes cfg) csrf (us_totp_enabled u)),
             gr_expires_in = lc_ttl_minutes cfg * 60, gr_csrf = csrf, gr_mfa = us_totp_enabled u\<rparr>)"
  by (auto simp: grant_session_def issue_token_def split: option.splits)

text \<open>The conditions under which an account is let in.\<close>

definition credentials_ok :: "authlib \<Rightarrow> int \<Rightarrow> login_body \<Rightarrow> user \<Rightarrow> bool" where
  "credentials_ok au now body u =
     (\<not> locked now u \<and> us_active u \<and> au_verify au (us_hash u) (lb_password body) \<and>
      (us_totp_enabled u \<longrightarrow> lb_totp_code body \<noteq> [] \<and> totp_verify au (us_totp_secret u) (lb_totp_code body) now = Inr True))"

lemma login_user_grants:
  "fst (login_user au cfg secret now csrf body us) = Inr (Inr g) \<longleftrightarrow>
     (\<exists>u. get_user (lb_email body) us = Some u \<and> credentials_ok au now body u \<and>
          grant_session au cfg secret now csrf (lower (lb_email body)) u = Inr (Inr g))"
  by (auto simp: login_user_def Let_def credentials_ok_def split: option.splits sum.splits)

lemma login_grants:
  "fst (login au cfg secret now csrf client body st) = Inr (Inr g) \<longleftrightarrow>
     fst (throttle client (lb_email body) now (ls_limiter st)) = Inr (Inr ()) \<and>
     fst (login_user au cfg secret now csrf body (ls_users st)) = Inr (Inr g)"
  by (auto simp: login_def split: prod.splits sum.splits)

text \<open>The law of JSON web tokens the program relies on: what was encoded under a secret decodes under it, from the
  moment it was issued to the end of its life, to the claims that were encoded.\<close>

definition tokens_decode :: "authlib \<Rightarrow> string \<Rightarrow> int \<Rightarrow> bool" where
  "tokens_decode au secret now =
     (\<forall>c. cl_iss c = issuer \<and> cl_iat c \<le> now \<and> now < cl_exp c \<longrightarrow> au_decode au now issuer (au_encode au c secret) secret = Inr c)"

lemma decode_issued:
  assumes "tokens_decode au secret now'" and "now \<le> now'" and "now' < now + ttl * 60" and "pr_subject p \<noteq> []"
  shows "decode_token au now' (fst (issue_token au now p secret ttl csrf mfa)) secret =
    Inr (p\<lparr>pr_mfa := mfa, pr_csrf := csrf\<rparr>)"
  using assms by (auto simp: tokens_decode_def issue_token_def decode_token_def)

lemma length_show_digits_le: "0 \<le> i \<Longrightarrow> i < 10 ^ Suc n \<Longrightarrow> length (show_digits i) \<le> Suc n"
proof (induction n arbitrary: i)
  case (Suc n)
  then have "i div 10 < 10 ^ Suc n" by simp
  with Suc have "length (show_digits (i div 10)) \<le> Suc n" by simp
  then show ?case by (subst show_digits.simps) simp
qed (subst show_digits.simps, simp)

lemma zfill6_digits:
  assumes "0 \<le> i" "i < 1000000"
  shows "all_digits (zfill6 (show_int i))" "length (zfill6 (show_int i)) = 6"
  using length_show_digits_le[of i 5] show_digits_all[of i] assms
  by (auto simp: zfill6_def show_int_nonneg all_digits_def list_all_iff is_digit_def)

lemma try_codes_hit:
  "\<forall>c\<in>set cs. \<exists>x. hotp au secret c = Inr x \<Longrightarrow> c \<in> set cs \<Longrightarrow> hotp au secret c = Inr code \<Longrightarrow>
     try_codes au secret code cs = Inr True"
  by (induction cs) auto

lemma hotp_code:
  assumes "hotp au secret c = Inr code"
  shows "all_digits code" and "length code = 6"
proof -
  have "\<exists>n. code = zfill6 (show_int (n mod 1000000))"
    using assms unfolding hotp_def Let_def res_bind_Inr by (elim exE conjE) (auto split: if_split_asm)
  then obtain n where "code = zfill6 (show_int (n mod 1000000))" ..
  then show "all_digits code" "length code = 6" using zfill6_digits by simp_all
qed

lemma digits_plain: "all_digits s \<Longrightarrow> filter (\<lambda>c. c \<noteq> CHR '' '') s = s"
  by (intro filter_True) (auto simp: all_digits_def list_all_iff is_digit_def)

lemma strip_spaces:
  assumes "all_digits code" and "length code = 6"
  shows "filter (\<lambda>c. c \<noteq> CHR '' '') (strip (CHR '' '' # code @ '' '')) = code"
proof -
  have "\<forall>c\<in>set code. \<not> is_space c"
    using assms(1) by (force simp: all_digits_def list_all_iff is_digit_def is_space_def Let_def)
  then have ends: "\<not> is_space (hd code)" "\<not> is_space (last code)"
    using assms(2) by (metis hd_in_set last_in_set length_0_conv zero_neq_numeral)+
  have sp: "is_space (CHR '' '')" by (simp add: is_space_def)
  have l: "lstrip (CHR '' '' # code @ '' '') = code @ '' ''"
    using ends(1) assms(2) by (cases code) (auto simp: lstrip_def sp)
  have r: "dropWhile is_space (rev code) = rev code"
    using ends(2) by (cases code rule: rev_cases) auto
  have "strip (CHR '' '' # code @ '' '') = code" by (simp add: strip_def l rstrip_def sp r)
  then show ?thesis using digits_plain[OF assms(1)] by simp
qed

section \<open>Properties\<close>

text \<open>A login is granted exactly when the throttle lets it through and the account exists, is active and
  not locked, the password is right and, where a second factor is active, a valid code comes with
  it; the session carries the second factor exactly when the account has one.\<close>

theorem login_admits_exactly:
  "fst (login au cfg secret now csrf client body st) = Inr (Inr g) \<longleftrightarrow>
     fst (throttle client (lb_email body) now (ls_limiter st)) = Inr (Inr ()) \<and>
     (\<exists>u. get_user (lb_email body) (ls_users st) = Some u \<and> credentials_ok au now body u \<and>
        gr_mfa g = us_totp_enabled u \<and>
        grant_session au cfg secret now csrf (lower (lb_email body)) u = Inr (Inr g))"
  by (auto simp: login_grants login_user_grants grant_session_Inr)

lemma granted_decodes:
  assumes "fst (login au cfg secret now csrf client body ls) = Inr (Inr g)" and "tokens_decode au secret now'"
    and "now \<le> now'" and "now' < now + gr_expires_in g" and "lb_email body \<noteq> []"
  shows "decode_token au now' (gr_token g) secret =
    Inr \<lparr>pr_subject = lower (lb_email body), pr_role = gr_role g, pr_kind = ''user'', pr_mfa = gr_mfa g, pr_csrf = csrf\<rparr>"
proof -
  from assms(1) obtain u :: user and r where eq: "g = \<lparr>gr_email = lower (lb_email body), gr_role = r,
       gr_token = fst (issue_token au now
         \<lparr>pr_subject = lower (lb_email body), pr_role = r, pr_kind = ''user'', pr_mfa = False, pr_csrf = []\<rparr>
         secret (lc_ttl_minutes cfg) csrf (us_totp_enabled u)),
       gr_expires_in = lc_ttl_minutes cfg * 60, gr_csrf = csrf, gr_mfa = us_totp_enabled u\<rparr>"
    unfolding login_grants login_user_grants grant_session_Inr by blast
  then show ?thesis
    using decode_issued[OF assms(2,3), of "lc_ttl_minutes cfg"] assms(4,5) by (simp add: lower_def)
qed

text \<open>The session of a login can approve changes, as long as its token lives and the request echoes its CSRF
  value, exactly when its user is an approver or above and signed in with a second factor, where
  the deployment asks for one.\<close>

theorem session_approves_iff:
  assumes "fst (login au cfg (as_jwt_secret st) now csrf client body ls) = Inr (Inr g)"
    and "tokens_decode au (as_jwt_secret st) now'" and "now \<le> now'" and "now' < now + gr_expires_in g"
    and "as_enabled st" and "bearer rq = None" and "rq_cookie rq = Some (gr_token g)" and "gr_token g \<noteq> []"
    and "rq_csrf_header rq = csrf" and "csrf \<noteq> []" and "lb_email body \<noteq> []"
  shows "(\<exists>p. require_role au st Approver True True now' rq = Inr p \<and> pr_subject p = lower (lb_email body)) \<longleftrightarrow>
    can (gr_role g) Approver \<and> (gr_mfa g \<or> \<not> as_mfa_required st)"
proof -
  note granted_decodes[OF assms(1-4,11)]
  then have "current_principal au st now' rq =
      Inr \<lparr>pr_subject = lower (lb_email body), pr_role = gr_role g, pr_kind = ''user'', pr_mfa = gr_mfa g, pr_csrf = csrf\<rparr>"
    using assms(5-10) by (simp add: current_principal_def decode_principal_def check_csrf_def)
  then show ?thesis
    by (auto simp: require_role_def is_service_def)
qed

text \<open>C38. Enrolment takes the second factor away: any signed-in session, whether or not it was established with
  the second factor, can enrol a new secret for its account, and from then on the password alone
  signs in where a code was needed.\<close>

theorem enrolment_drops_second_factor:
  assumes "get_user (pr_subject p) us = Some u" and "us_totp_enabled u" and "us_active u" and "\<not> locked now u"
    and "au_verify au (us_hash u) (lb_password body)" and "pr_kind p = ''user''" and "lb_email body = pr_subject p"
    and "role_of (us_role u) = Some r"
  shows "\<exists>g. fst (login_user au cfg secret now csrf body (snd (enrol_mfa p new_secret us))) = Inr (Inr g)"
proof -
  have "get_user (pr_subject p) (snd (enrol_mfa p new_secret us)) =
      Some (u\<lparr>us_totp_secret := new_secret, us_totp_enabled := False\<rparr>)"
    using assms(1,6) by (simp add: enrol_mfa_def set_totp_secret_def get_update_user)
  then show ?thesis
    using assms by (auto simp: login_user_grants credentials_ok_def grant_session_Inr locked_def)
qed

text \<open>The code an authenticator shows is accepted through the whole step before and after the one it was
  computed in, whatever spaces are typed around it.\<close>

theorem totp_accepts_drift:
  assumes "code_at au secret t = Inr code" and "\<bar>t div 30 - now div 30\<bar> \<le> 1"
    and "\<forall>d\<in>{-1, 0, 1}. \<exists>c. hotp au secret (now div 30 + d) = Inr c"
  shows "totp_verify au secret (CHR '' '' # code @ '' '') now = Inr True"
proof -
  have code: "all_digits code" "length code = 6" by (rule hotp_code[OF assms(1)[unfolded code_at_def]])+
  have plain: "filter (\<lambda>c. c \<noteq> CHR '' '') (strip (CHR '' '' # code @ '' '')) = code"
    using code by (rule strip_spaces)
  let ?cs = "map (\<lambda>d. now div 30 + d) [-1, 0, 1]"
  have "t div 30 - now div 30 \<in> {-1, 0, 1}" using assms(2) by auto
  then have "t div 30 \<in> set ?cs" by (auto simp: image_iff)
  moreover have "\<forall>c\<in>set ?cs. \<exists>x. hotp au secret c = Inr x" using assms(3) by auto
  ultimately have "try_codes au secret code ?cs = Inr True"
    using assms(1) try_codes_hit[of ?cs au secret "t div 30" code] by (simp add: code_at_def)
  then show ?thesis using code by (simp add: totp_verify_def plain Let_def)
qed

section \<open>Witnesses\<close>

text \<open>A concrete \<open>authlib\<close>: a token is its claims written field by field, every character marked, the
  password is its own hash, and the HMAC of a message is made of its bytes.\<close>

fun pack :: "string list \<Rightarrow> string" where
  "pack [] = []"
| "pack (s # ss) = concat (map (\<lambda>c. [CHR ''c'', c]) s) @ CHR ''.'' # pack ss"

fun unpack :: "string \<Rightarrow> string \<Rightarrow> string list" where
  "unpack acc [] = []"
| "unpack acc (x # r) = (if x = CHR ''.'' then acc # unpack [] r
     else case r of [] \<Rightarrow> [] | c # r' \<Rightarrow> unpack (acc @ [c]) r')"

lemma unpack_marked: "unpack acc (concat (map (\<lambda>c. [CHR ''c'', c]) s) @ CHR ''.'' # r) = (acc @ s) # unpack [] r"
  by (induction s arbitrary: acc) auto

lemma unpack_pack [simp]: "unpack [] (pack ss) = ss"
  by (induction ss) (simp_all add: unpack_marked)

definition opt_text :: "string option \<Rightarrow> string" where
  "opt_text x = (case x of None \<Rightarrow> [] | Some s \<Rightarrow> CHR ''S'' # s)"

definition text_opt :: "string \<Rightarrow> string option" where
  "text_opt s = (case s of [] \<Rightarrow> None | _ # t \<Rightarrow> Some t)"

definition text_int :: "string \<Rightarrow> int" where
  "text_int s = (if s \<noteq> [] \<and> hd s = CHR ''-'' then - parse_int (tl s) else parse_int s)"

lemma text_opt_text [simp]: "text_opt (opt_text x) = x"
  by (cases x) (simp_all add: opt_text_def text_opt_def)

lemma text_int_show [simp]: "text_int (show_int i) = i"
proof (cases "i < 0")
  case False
  then have "hd (show_digits i) \<noteq> CHR ''-''"
    using show_digits_all[of i] by (cases "show_digits i") (auto simp: all_digits_def is_digit_def)
  then show ?thesis using False by (simp add: text_int_def show_int_def parse_show_digits)
qed (simp add: text_int_def show_int_def parse_show_digits)

definition plain_encode :: "claims \<Rightarrow> string \<Rightarrow> string" where
  "plain_encode c secret = pack [opt_text (cl_sub c), opt_text (cl_role c), opt_text (cl_kind c), cl_iss c,
     show_int (cl_iat c), show_int (cl_exp c),
     opt_text (map_option (\<lambda>b. if b then ''1'' else ''0'') (cl_mfa c)), opt_text (cl_csrf c), secret]"

definition plain_decode :: "int \<Rightarrow> string \<Rightarrow> string \<Rightarrow> string \<Rightarrow> string + claims" where
  "plain_decode now iss token secret =
     (case unpack [] token of
        [sub, r, k, i, iat, e, m, x, key] \<Rightarrow>
          if i \<noteq> iss then Inl ''Invalid issuer'' else if key \<noteq> secret then Inl ''Signature verification failed''
          else if text_int e \<le> now then Inl ''Signature has expired''
          else Inr \<lparr>cl_sub = text_opt sub, cl_role = text_opt r, cl_kind = text_opt k, cl_iss = i,
                    cl_iat = text_int iat, cl_exp = text_int e,
                    cl_mfa = map_option (\<lambda>t. t = ''1'') (text_opt m), cl_csrf = text_opt x\<rparr>
      | _ \<Rightarrow> Inl ''Not enough segments'')"

definition plain_auth :: authlib where
  "plain_auth = \<lparr>au_encode = plain_encode, au_decode = plain_decode, au_hash = (\<lambda>p. p), au_verify = (\<lambda>h p. h = p),
     au_hmac = (\<lambda>k m. take 20 (rev m @ rev m @ rev m))\<rparr>"

lemma plain_tokens_decode: "tokens_decode plain_auth secret now"
proof -
  have "map_option (\<lambda>t. t = ''1'') (map_option (\<lambda>b. if b then ''1'' else ''0'') m) = m" for m
    by (cases m) auto
  then show ?thesis by (auto simp: tokens_decode_def plain_auth_def plain_encode_def plain_decode_def issuer_def simp del: pack.simps)
qed

definition demo_user :: user where
  "demo_user = \<lparr>us_hash = ''pw'', us_role = ''approver'', us_active = True, us_totp_secret = ''JBSWY3DP'',
     us_totp_enabled = True, us_failed = 0, us_locked = None\<rparr>"

definition demo_login :: "string \<Rightarrow> login_body" where
  "demo_login code = \<lparr>lb_email = ''ann'', lb_password = ''pw'', lb_totp_code = code\<rparr>"

definition demo_auth :: auth_state where
  "demo_auth = \<lparr>as_enabled = True, as_service_token = [], as_jwt_secret = ''key'', as_mfa_required = True\<rparr>"

definition demo_code :: string where
  "demo_code = (case code_at plain_auth ''JBSWY3DP'' 60 of Inr c \<Rightarrow> c | Inl _ \<Rightarrow> [])"

definition demo_grant :: session_grant where
  "demo_grant = (case fst (login plain_auth \<lparr>lc_threshold = 5, lc_lock_minutes = 15, lc_ttl_minutes = 60\<rparr> ''key'' 60
       ''csrf'' None (demo_login demo_code) \<lparr>ls_users = [(''ann'', demo_user)], ls_limiter = None\<rparr>) of
     Inr (Inr g) \<Rightarrow> g)"

definition demo_request :: request where
  "demo_request = \<lparr>rq_method = ''POST'', rq_authorization = [], rq_cookie = Some (gr_token demo_grant),
     rq_csrf_header = ''csrf'', rq_forwarded = [], rq_client = None\<rparr>"

lemma demo_code_eq: "code_at plain_auth ''JBSWY3DP'' 60 = Inr ''554432''"
  by code_simp

lemma demo_login_granted:
  "fst (login plain_auth \<lparr>lc_threshold = 5, lc_lock_minutes = 15, lc_ttl_minutes = 60\<rparr> ''key'' 60
     ''csrf'' None (demo_login demo_code) \<lparr>ls_users = [(''ann'', demo_user)], ls_limiter = None\<rparr>) = Inr (Inr demo_grant)"
  by code_simp

lemma session_approves_iff_witness:
  "\<exists>p. require_role plain_auth demo_auth Approver True True 120 demo_request = Inr p \<and> pr_subject p = ''ann''"
proof -
  have facts: "gr_token demo_grant \<noteq> []" "120 < 60 + gr_expires_in demo_grant" "gr_role demo_grant = Approver"
    "gr_mfa demo_grant" "bearer demo_request = None"
    by code_simp+
  have body: "lower (lb_email (demo_login demo_code)) = ''ann''" "lb_email (demo_login demo_code) \<noteq> []"
    by (simp_all add: demo_login_def lower_def lower_char_def)
  have granted: "fst (login plain_auth \<lparr>lc_threshold = 5, lc_lock_minutes = 15, lc_ttl_minutes = 60\<rparr>
     (as_jwt_secret demo_auth) 60 ''csrf'' None (demo_login demo_code)
     \<lparr>ls_users = [(''ann'', demo_user)], ls_limiter = None\<rparr>) = Inr (Inr demo_grant)"
    using demo_login_granted by (simp add: demo_auth_def)
  have st: "as_enabled demo_auth" "rq_cookie demo_request = Some (gr_token demo_grant)"
    "rq_csrf_header demo_request = ''csrf''" "''csrf'' \<noteq> []"
    by (simp_all add: demo_auth_def demo_request_def)
  show ?thesis
    using session_approves_iff[OF granted plain_tokens_decode _ facts(2) st(1) facts(5) st(2) facts(1) st(3,4) body(2)]
      facts(3,4) body(1) by (simp add: can_def)
qed

lemma enrolment_drops_second_factor_witness:
  "\<exists>g. fst (login_user plain_auth \<lparr>lc_threshold = 5, lc_lock_minutes = 15, lc_ttl_minutes = 60\<rparr> ''key'' 60 ''csrf''
     (demo_login []) (snd (enrol_mfa
       \<lparr>pr_subject = ''ann'', pr_role = Approver, pr_kind = ''user'', pr_mfa = False, pr_csrf = []\<rparr> ''GEZDGNBV''
       [(''ann'', demo_user)]))) = Inr (Inr g)"
  using enrolment_drops_second_factor[of "\<lparr>pr_subject = ''ann'', pr_role = Approver, pr_kind = ''user'',
      pr_mfa = False, pr_csrf = []\<rparr>" "[(''ann'', demo_user)]" demo_user 60 plain_auth "demo_login []"]
  by (simp add: get_user_def lower_def lower_char_def demo_user_def locked_def plain_auth_def demo_login_def
      role_of_def)

lemma totp_accepts_drift_witness:
  "totp_verify plain_auth ''JBSWY3DP'' (CHR '' '' # ''554432'' @ '' '') 95 = Inr True"
proof -
  have "hotp plain_auth ''JBSWY3DP'' (95 div 30 + -1) = Inr ''554432''"
    "hotp plain_auth ''JBSWY3DP'' (95 div 30 + 0) = Inr ''331648''"
    "hotp plain_auth ''JBSWY3DP'' (95 div 30 + 1) = Inr ''108864''"
    by code_simp+
  then show ?thesis by (intro totp_accepts_drift[OF demo_code_eq]) auto
qed

end
