(* ===== verification/Schedule.thy ===== *)
theory Schedule
  imports Regex
begin

text \<open>
  \<open>app/schedule.py\<close>: change windows and freeze periods. A day is its proleptic Gregorian ordinal, as
  \<open>date.toordinal\<close> counts, and the time of day is in seconds: the program compares times with whole
  minutes only, so nothing below a second matters. A moment is given in the time zone of the
  schedule; every comparison the code makes is between times of that one zone, which Python makes
  on the wall clock. The texts of a decision are constructors.
\<close>

section \<open>Dates\<close>

definition is_leap :: "int \<Rightarrow> bool" where
  "is_leap y = (y mod 4 = 0 \<and> (y mod 100 \<noteq> 0 \<or> y mod 400 = 0))"

definition days_before_year :: "int \<Rightarrow> int" where
  "days_before_year y = (y - 1) * 365 + (y - 1) div 4 - (y - 1) div 100 + (y - 1) div 400"

definition days_in_month :: "int \<Rightarrow> int \<Rightarrow> int" where
  "days_in_month y m = (if m = 2 \<and> is_leap y then 29 else [31, 28, 31, 30, 31, 30, 31, 31, 30, 31, 30, 31] ! nat (m - 1))"

definition ymd_ordinal :: "int \<Rightarrow> int \<Rightarrow> int \<Rightarrow> int" where
  "ymd_ordinal y m d = days_before_year y + sum_list (map (days_in_month y) [1..m - 1]) + d"

definition weekday :: "int \<Rightarrow> int" where
  "weekday n = (n + 6) mod 7"

text \<open>\<open>date(y, m, d)\<close>\<close>

definition make_date :: "int \<Rightarrow> int \<Rightarrow> int \<Rightarrow> int res" where
  "make_date y m d =
     (if 1 \<le> y \<and> y \<le> 9999 \<and> 1 \<le> m \<and> m \<le> 12 \<and> 1 \<le> d \<and> d \<le> days_in_month y m
      then Inr (ymd_ordinal y m d) else Inl ValueError)"

text \<open>The Monday of the first ISO week of a year, and a day of a week.\<close>

definition iso_week1_monday :: "int \<Rightarrow> int" where
  "iso_week1_monday y =
     (let first = ymd_ordinal y 1 1; w = (first + 6) mod 7; monday = first - w
      in if w > 3 then monday + 7 else monday)"

definition make_iso_week :: "int \<Rightarrow> int \<Rightarrow> int \<Rightarrow> int res" where
  "make_iso_week y w d =
     (let first = ymd_ordinal y 1 1 mod 7;
          ok = (0 < w \<and> w < 53 \<or> w = 53 \<and> (first = 4 \<or> first = 3 \<and> is_leap y))
      in if 1 \<le> y \<and> y \<le> 9999 \<and> ok \<and> 0 < d \<and> d < 8
         then Inr (iso_week1_monday y + (w - 1) * 7 + (d - 1)) else Inl ValueError)"

definition slice :: "nat \<Rightarrow> nat \<Rightarrow> string \<Rightarrow> string" where
  "slice a b s = take (b - a) (drop a s)"

definition digits_at :: "nat \<Rightarrow> nat \<Rightarrow> string \<Rightarrow> int res" where
  "digits_at a b s = (if all_digits (slice a b s) \<and> length (slice a b s) = b - a
     then Inr (parse_int (slice a b s)) else Inl ValueError)"

text \<open>\<open>date.fromisoformat\<close>: a calendar date or a week date, with or without separators.\<close>

definition date_fromisoformat :: "string \<Rightarrow> int res" where
  "date_fromisoformat s =
     (if length s \<notin> {7, 8, 10} then Inl ValueError
      else res_bind (digits_at 0 4 s) (\<lambda>y.
        let sep = (s ! 4 = CHR ''-''); p = (if sep then 5 else 4)
        in if s ! p = CHR ''W''
           then res_bind (digits_at (p + 1) (p + 3) s) (\<lambda>w.
                  if length s = p + 3 then make_iso_week y w 1
                  else if (s ! (p + 3) = CHR ''-'') \<noteq> sep then Inl ValueError
                  else let q = (if sep then p + 4 else p + 3)
                       in if length s \<noteq> q + 1 then Inl ValueError
                          else res_bind (digits_at q (q + 1) s) (\<lambda>d. make_iso_week y w d))
           else res_bind (digits_at p (p + 2) s) (\<lambda>m.
                  if length s \<le> p + 2 \<or> (s ! (p + 2) = CHR ''-'') \<noteq> sep then Inl ValueError
                  else let q = (if sep then p + 3 else p + 2)
                       in if length s \<noteq> q + 2 then Inl ValueError
                          else res_bind (digits_at q (q + 2) s) (\<lambda>d. make_date y m d))))"

section \<open>Windows\<close>

record window =
  wn_days :: "int set"
  wn_start :: int
  wn_end :: int

record moment =
  mo_day :: int
  mo_clock :: int

definition wraps :: "window \<Rightarrow> bool" where
  "wraps w = (wn_end w \<le> wn_start w)"

definition window_contains :: "window \<Rightarrow> moment \<Rightarrow> bool" where
  "window_contains w t =
     (if \<not> wraps w then weekday (mo_day t) \<in> wn_days w \<and> wn_start w \<le> mo_clock t \<and> mo_clock t < wn_end w
      else if weekday (mo_day t) \<in> wn_days w \<and> mo_clock t \<ge> wn_start w then True
      else (weekday (mo_day t) - 1) mod 7 \<in> wn_days w \<and> mo_clock t < wn_end w)"

definition day_names :: "string list" where
  "day_names = [''mon'', ''tue'', ''wed'', ''thu'', ''fri'', ''sat'', ''sun'']"

definition day_index :: "string \<Rightarrow> int option" where
  "day_index s = map_option int (first_index (\<lambda>d. d = s) day_names)"

definition day_span :: "int \<Rightarrow> int \<Rightarrow> int set" where
  "day_span a b = (if a \<le> b then {a..b} else {a..6} \<union> {0..b})"

definition parse_day_part :: "string \<Rightarrow> int set res" where
  "parse_day_part part =
     (case partition_at (CHR ''-'') part of (first, found, final) \<Rightarrow>
        if found
        then (case (day_index first, day_index final) of
                (Some a, Some b) \<Rightarrow> Inr (day_span a b)
              | _ \<Rightarrow> Inl ValueError)
        else (case day_index part of Some d \<Rightarrow> Inr {d} | None \<Rightarrow> Inl ValueError))"

definition parse_days :: "string \<Rightarrow> int set res" where
  "parse_days text =
     res_bind (fold_res (\<lambda>days part. let p = strip part
          in if p = [] then Inr days else res_bind (parse_day_part p) (\<lambda>d. Inr (days \<union> d)))
        {} (split_on (CHR '','') (lower text)))
       (\<lambda>days. if days = {} then Inl ValueError else Inr days)"

text \<open>The two numbers come from groups of digits.\<close>

definition parse_time :: "string \<Rightarrow> int res" where
  "parse_time text =
     (case partition_at (CHR '':'') text of (hour, _, minute) \<Rightarrow>
        if parse_int hour \<le> 23 \<and> parse_int minute \<le> 59
        then Inr (parse_int hour * 3600 + parse_int minute * 60) else Inl ValueError)"

definition clock_rx :: rx where
  "clock_rx = rseq [r_digit, ROpt r_digit, r_lit '':'', r_digit, r_digit]"

definition window_re :: rx where
  "window_re = rseq [RBol, RGrp 1 (RPlus (RSet (\<lambda>c. is_alpha c \<or> c = CHR '','' \<or> c = CHR ''-''))), RPlus r_space,
     RGrp 2 clock_rx, RStar r_space, r_lit ''-'', RStar r_space, RGrp 3 clock_rx, REol]"

definition parse_window :: "string \<Rightarrow> window res" where
  "parse_window text =
     (case rx_match window_re text of
        None \<Rightarrow> Inl ValueError
      | Some m \<Rightarrow>
          res_bind (parse_days (group_or [] 1 m)) (\<lambda>days.
          res_bind (parse_time (group_or [] 2 m)) (\<lambda>a.
          res_bind (parse_time (group_or [] 3 m)) (\<lambda>b.
            Inr \<lparr>wn_days = days, wn_start = a, wn_end = b\<rparr>))))"

text \<open>The pieces between semicolons, the blank ones left out.\<close>

definition chunks :: "string \<Rightarrow> string list" where
  "chunks spec = filter (\<lambda>t. t \<noteq> []) (map strip (split_on (CHR '';'') spec))"

fun map_res :: "('a \<Rightarrow> 'b res) \<Rightarrow> 'a list \<Rightarrow> 'b list res" where
  "map_res f [] = Inr []"
| "map_res f (x # xs) = res_bind (f x) (\<lambda>y. res_bind (map_res f xs) (\<lambda>ys. Inr (y # ys)))"

definition parse_windows :: "string \<Rightarrow> window list res" where
  "parse_windows spec = map_res parse_window (chunks spec)"

section \<open>Freezes\<close>

text \<open>\<open>text.partition("..")\<close>\<close>

fun partition_dots :: "string \<Rightarrow> string \<times> bool \<times> string" where
  "partition_dots [] = ([], False, [])"
| "partition_dots (c # s) =
     (if starts_with ''..'' (c # s) then ([], True, drop 1 s)
      else case partition_dots s of (a, found, b) \<Rightarrow> (c # a, found, b))"

definition parse_freeze :: "string \<Rightarrow> (int \<times> int) res" where
  "parse_freeze text =
     (case partition_dots text of (first, found, final) \<Rightarrow>
        res_bind (date_fromisoformat (strip first)) (\<lambda>start.
        res_bind (if found then date_fromisoformat (strip final) else Inr start) (\<lambda>stop.
          if stop < start then Inl ValueError else Inr (start, stop))))"

definition parse_freezes :: "string \<Rightarrow> (int \<times> int) list res" where
  "parse_freezes spec = map_res parse_freeze (chunks spec)"

section \<open>The schedule\<close>

record schedule =
  sc_windows :: "window list"
  sc_freezes :: "(int \<times> int) list"

text \<open>The time zone is looked up by the caller: \<open>known_zone\<close> is whether the name is one.\<close>

definition change_schedule :: "string \<Rightarrow> string \<Rightarrow> bool \<Rightarrow> schedule res" where
  "change_schedule windows freezes known_zone =
     res_bind (parse_windows windows) (\<lambda>ws. res_bind (parse_freezes freezes) (\<lambda>fs.
       if known_zone then Inr \<lparr>sc_windows = ws, sc_freezes = fs\<rparr> else Inl ValueError))"

definition frozen :: "schedule \<Rightarrow> int \<Rightarrow> (int \<times> int) option" where
  "frozen s day = List.find (\<lambda>(a, b). a \<le> day \<and> day \<le> b) (sc_freezes s)"

datatype next_open = No_next | Next_day int | Next_at moment

datatype window_reason = Open_now | In_freeze int int | Outside_window moment

record window_decision =
  wd_open :: bool
  wd_reason :: window_reason
  wd_next :: next_open

definition before :: "moment \<Rightarrow> moment \<Rightarrow> bool" where
  "before a b = (mo_day a < mo_day b \<or> mo_day a = mo_day b \<and> mo_clock a < mo_clock b)"

definition day_starts :: "schedule \<Rightarrow> moment \<Rightarrow> nat \<Rightarrow> moment list" where
  "day_starts s now offset =
     (let day = mo_day now + int offset
      in if frozen s day \<noteq> None then []
         else filter (before now)
           (map (\<lambda>w. \<lparr>mo_day = day, mo_clock = wn_start w\<rparr>)
              (filter (\<lambda>w. weekday day \<in> wn_days w) (sc_windows s))))"

definition candidates :: "schedule \<Rightarrow> moment \<Rightarrow> nat \<Rightarrow> moment list" where
  "candidates s now horizon = concat (map (day_starts s now) [0..<horizon + 1])"

definition earlier :: "moment \<Rightarrow> moment \<Rightarrow> moment" where
  "earlier a b = (if before b a then b else a)"

definition next_start :: "schedule \<Rightarrow> moment \<Rightarrow> next_open" where
  "next_start s now = (case candidates s now 14 of [] \<Rightarrow> No_next | c # cs \<Rightarrow> Next_at (foldl earlier c cs))"

definition evaluate_schedule :: "schedule \<Rightarrow> moment \<Rightarrow> window_decision" where
  "evaluate_schedule s now =
     (case frozen s (mo_day now) of
        Some (a, b) \<Rightarrow> \<lparr>wd_open = False, wd_reason = In_freeze a b, wd_next = Next_day (b + 1)\<rparr>
      | None \<Rightarrow>
          if sc_windows s = [] \<or> list_ex (\<lambda>w. window_contains w now) (sc_windows s)
          then \<lparr>wd_open = True, wd_reason = Open_now, wd_next = No_next\<rparr>
          else \<lparr>wd_open = False, wd_reason = Outside_window now, wd_next = next_start s now\<rparr>)"

section \<open>Facts\<close>

text \<open>Moments as seconds on one line, and when a window that starts on a day is over.\<close>

definition seconds :: "moment \<Rightarrow> int" where
  "seconds t = mo_day t * 86400 + mo_clock t"

definition on_clock :: "moment \<Rightarrow> bool" where
  "on_clock t = (0 \<le> mo_clock t \<and> mo_clock t < 86400)"

definition window_opens :: "window \<Rightarrow> int \<Rightarrow> int" where
  "window_opens w day = day * 86400 + wn_start w"

definition window_closes :: "window \<Rightarrow> int \<Rightarrow> int" where
  "window_closes w day = (if wraps w then day + 1 else day) * 86400 + wn_end w"

definition window_ok :: "window \<Rightarrow> bool" where
  "window_ok w = (0 \<le> wn_start w \<and> wn_start w < 86400 \<and> 0 \<le> wn_end w \<and> wn_end w < 86400 \<and> wn_days w \<subseteq> {0..6})"

lemma weekday_pred: "(weekday n - 1) mod 7 = weekday (n - 1)"
  by (simp add: weekday_def mod_simps)

lemma weekday_bounds: "0 \<le> weekday n" "weekday n < 7"
  by (simp_all add: weekday_def)

lemma window_contains_iff:
  assumes "on_clock t" and "window_ok w"
  shows "window_contains w t \<longleftrightarrow>
    (\<exists>day. weekday day \<in> wn_days w \<and> window_opens w day \<le> seconds t \<and> seconds t < window_closes w day)"
proof -
  have today: "window_opens w (mo_day t) \<le> seconds t \<longleftrightarrow> wn_start w \<le> mo_clock t"
    by (simp add: window_opens_def seconds_def)
  have unique: "day = mo_day t \<or> wraps w \<and> day = mo_day t - 1"
    if "window_opens w day \<le> seconds t" "seconds t < window_closes w day" for day
  proof -
    have "day * 86400 \<le> mo_day t * 86400 + mo_clock t" "mo_clock t < 86400" "0 \<le> mo_clock t"
      using that(1) assms by (simp_all add: window_opens_def seconds_def window_ok_def on_clock_def)
    moreover have "mo_day t * 86400 + mo_clock t < (if wraps w then day + 1 else day) * 86400 + 86400"
      using that(2) assms by (simp add: window_closes_def seconds_def window_ok_def)
    ultimately show ?thesis by (auto split: if_splits)
  qed
  show ?thesis
  proof (cases "wraps w")
    case False
    then have "window_contains w t \<longleftrightarrow> weekday (mo_day t) \<in> wn_days w \<and>
        window_opens w (mo_day t) \<le> seconds t \<and> seconds t < window_closes w (mo_day t)"
      by (simp add: window_contains_def window_opens_def window_closes_def seconds_def)
    then show ?thesis using unique False by blast
  next
    case True
    have now: "seconds t < window_closes w (mo_day t)"
      using True assms by (simp add: window_closes_def seconds_def on_clock_def window_ok_def)
    have yesterday: "window_opens w (mo_day t - 1) \<le> seconds t"
      "seconds t < window_closes w (mo_day t - 1) \<longleftrightarrow> mo_clock t < wn_end w"
      using True assms by (auto simp: window_closes_def window_opens_def seconds_def on_clock_def window_ok_def)
    have "window_contains w t \<longleftrightarrow>
        weekday (mo_day t) \<in> wn_days w \<and> window_opens w (mo_day t) \<le> seconds t \<or>
        weekday (mo_day t - 1) \<in> wn_days w \<and> seconds t < window_closes w (mo_day t - 1)"
      using True by (auto simp: window_contains_def today yesterday(2) weekday_pred)
    then show ?thesis using unique now yesterday(1) True by blast
  qed
qed

lemma frozen_iff: "frozen s day = None \<longleftrightarrow> (\<forall>(a, b)\<in>set (sc_freezes s). \<not> (a \<le> day \<and> day \<le> b))"
  by (auto simp: frozen_def find_None_iff)

lemma before_seconds: "on_clock a \<Longrightarrow> on_clock b \<Longrightarrow> before a b \<longleftrightarrow> seconds a < seconds b"
  by (auto simp: before_def seconds_def on_clock_def)

lemma day_starts_iff:
  "c \<in> set (day_starts s now n) \<longleftrightarrow> mo_day c = mo_day now + int n \<and> frozen s (mo_day c) = None \<and> before now c \<and>
     (\<exists>w\<in>set (sc_windows s). weekday (mo_day c) \<in> wn_days w \<and> mo_clock c = wn_start w)"
  by (cases c; cases "frozen s (mo_day now + int n)") (auto simp: day_starts_def Let_def)

lemma candidates_iff:
  "c \<in> set (candidates s now horizon) \<longleftrightarrow>
     (\<exists>w\<in>set (sc_windows s). weekday (mo_day c) \<in> wn_days w \<and> mo_clock c = wn_start w) \<and>
     frozen s (mo_day c) = None \<and> before now c \<and> mo_day now \<le> mo_day c \<and> mo_day c \<le> mo_day now + int horizon"
proof -
  have "(\<exists>n\<in>{0..<horizon + 1}. mo_day c = mo_day now + int n) \<longleftrightarrow>
      mo_day now \<le> mo_day c \<and> mo_day c \<le> mo_day now + int horizon"
    by (auto intro!: bexI[of _ "nat (mo_day c - mo_day now)"])
  moreover have "c \<in> set (candidates s now horizon) \<longleftrightarrow> (\<exists>n\<in>{0..<horizon + 1}. c \<in> set (day_starts s now n))"
    by (simp add: candidates_def del: upt_Suc)
  ultimately show ?thesis by (auto simp: day_starts_iff)
qed

lemma foldl_earlier:
  "foldl earlier c cs \<in> set (c # cs) \<and> (\<forall>x\<in>set (c # cs). \<not> before x (foldl earlier c cs))"
proof (induction cs arbitrary: c)
  case Nil
  then show ?case by (simp add: before_def)
next
  case (Cons d cs)
  let ?e = "earlier c d" and ?f = "foldl earlier (earlier c d) cs"
  have e: "?e = c \<or> ?e = d" "\<not> before c ?e" "\<not> before d ?e" by (auto simp: earlier_def before_def)
  from Cons[of ?e] have f: "?f = ?e \<or> ?f \<in> set cs" "\<not> before ?e ?f" "\<forall>x\<in>set cs. \<not> before x ?f" by auto
  from e(2,3) f(2) have "\<not> before c ?f" "\<not> before d ?f" by (auto simp: before_def)
  with e(1) f show ?case by auto
qed

lemma next_start_iff:
  "next_start s now = Next_at c \<Longrightarrow>
     c \<in> set (candidates s now 14) \<and> (\<forall>x\<in>set (candidates s now 14). \<not> before x c)"
  using foldl_earlier by (auto simp: next_start_def split: list.splits)

section \<open>Properties\<close>

text \<open>C15. The gate is open exactly when no freeze covers the day and either no window is configured or the
  moment lies inside a window that started on one of its days, today or, for an overnight window,
  the day before: a freeze always wins.\<close>

theorem schedule_open_iff:
  assumes "on_clock t" and "\<forall>w\<in>set (sc_windows s). window_ok w"
  shows "wd_open (evaluate_schedule s t) \<longleftrightarrow>
    (\<forall>(a, b)\<in>set (sc_freezes s). \<not> (a \<le> mo_day t \<and> mo_day t \<le> b)) \<and>
    (sc_windows s = [] \<or>
     (\<exists>w\<in>set (sc_windows s). \<exists>day. weekday day \<in> wn_days w \<and>
        window_opens w day \<le> seconds t \<and> seconds t < window_closes w day))"
proof -
  have windows: "list_ex (\<lambda>w. window_contains w t) (sc_windows s) \<longleftrightarrow>
      (\<exists>w\<in>set (sc_windows s). \<exists>day. weekday day \<in> wn_days w \<and>
        window_opens w day \<le> seconds t \<and> seconds t < window_closes w day)"
    using window_contains_iff[OF assms(1)] assms(2) by (auto simp: list_ex_iff)
  show ?thesis
    unfolding frozen_iff[symmetric] windows[symmetric]
    by (cases "frozen s (mo_day t)") (auto simp: evaluate_schedule_def)
qed

text \<open>The next opening a closed window is reported with is one: the schedule is open at that moment, it is
  after the present one, and no window starts in between on a day that is not frozen.\<close>

theorem next_opening_sound:
  assumes "on_clock t" and "\<forall>w\<in>set (sc_windows s). window_ok w"
    and "wd_next (evaluate_schedule s t) = Next_at c"
  shows "wd_open (evaluate_schedule s c) \<and> seconds t < seconds c \<and>
    (\<forall>w\<in>set (sc_windows s). \<forall>day. weekday day \<in> wn_days w \<and> frozen s day = None \<and>
       seconds t < window_opens w day \<longrightarrow> seconds c \<le> window_opens w day)"
proof -
  have "next_start s t = Next_at c"
    using assms(3) by (auto simp: evaluate_schedule_def split: option.splits if_splits)
  note next_start_iff[OF this]
  then have c: "c \<in> set (candidates s t 14)" and least: "\<forall>x\<in>set (candidates s t 14). \<not> before x c" by auto
  from c obtain w where w: "w \<in> set (sc_windows s)" "weekday (mo_day c) \<in> wn_days w" "mo_clock c = wn_start w"
    and free: "frozen s (mo_day c) = None" and after: "before t c"
    and range: "mo_day t \<le> mo_day c" "mo_day c \<le> mo_day t + 14"
    by (auto simp: candidates_iff)
  have clock: "on_clock c" using w assms(2) by (auto simp: on_clock_def window_ok_def)
  have "window_contains w c"
    using w assms(2) by (auto simp: window_contains_def window_ok_def wraps_def)
  then have "wd_open (evaluate_schedule s c)" using free w(1) by (auto simp: evaluate_schedule_def list_ex_iff)
  moreover have "seconds c \<le> window_opens v day"
    if v: "v \<in> set (sc_windows s)" "weekday day \<in> wn_days v" "frozen s day = None" "seconds t < window_opens v day"
    for v day
  proof (rule ccontr)
    let ?x = "\<lparr>mo_day = day, mo_clock = wn_start v\<rparr>"
    assume "\<not> seconds c \<le> window_opens v day"
    then have x: "seconds ?x < seconds c" "seconds t < seconds ?x"
      using v(4) by (simp_all add: window_opens_def seconds_def)
    have x_clock: "on_clock ?x" using v(1) assms(2) by (auto simp: on_clock_def window_ok_def)
    have "before ?x c" "before t ?x" using x x_clock clock assms(1) by (simp_all add: before_seconds)
    moreover have "mo_day t \<le> day" "day \<le> mo_day t + 14"
      using \<open>before t ?x\<close> \<open>before ?x c\<close> range by (auto simp: before_def)
    ultimately have "?x \<in> set (candidates s t 14)" using v by (auto simp: candidates_iff)
    then show False using least \<open>before ?x c\<close> by blast
  qed
  ultimately show ?thesis using after clock assms(1) by (auto simp: before_seconds)
qed

definition demo_schedule :: schedule where
  "demo_schedule = \<lparr>sc_windows = [\<lparr>wn_days = {0..4}, wn_start = 79200, wn_end = 14400\<rparr>], sc_freezes = [(739999, 740001)]\<rparr>"

definition demo_window :: window where
  "demo_window = \<lparr>wn_days = {0..4}, wn_start = 79200, wn_end = 14400\<rparr>"

lemma demo_window_ok: "\<forall>w\<in>set (sc_windows demo_schedule). window_ok w"
  by (auto simp: demo_schedule_def window_ok_def)

lemma schedule_open_iff_witness: "wd_open (evaluate_schedule demo_schedule \<lparr>mo_day = 740007, mo_clock = 3600\<rparr>)"
proof -
  have inside: "weekday 740006 \<in> wn_days demo_window" "window_opens demo_window 740006 \<le> seconds \<lparr>mo_day = 740007, mo_clock = 3600\<rparr>"
    "seconds \<lparr>mo_day = 740007, mo_clock = 3600\<rparr> < window_closes demo_window 740006"
    by (simp_all add: demo_window_def weekday_def window_opens_def window_closes_def wraps_def seconds_def)
  have "demo_window \<in> set (sc_windows demo_schedule)" by (simp add: demo_schedule_def demo_window_def)
  moreover have "\<forall>(a, b)\<in>set (sc_freezes demo_schedule). \<not> (a \<le> 740007 \<and> 740007 \<le> b)"
    by (simp add: demo_schedule_def)
  moreover have "on_clock \<lparr>mo_day = 740007, mo_clock = 3600\<rparr>" by (simp add: on_clock_def)
  ultimately show ?thesis using inside by (simp add: schedule_open_iff[OF _ demo_window_ok]) blast
qed

lemma next_opening_sound_witness: "wd_open (evaluate_schedule demo_schedule \<lparr>mo_day = 740002, mo_clock = 79200\<rparr>)"
proof -
  have "wd_next (evaluate_schedule demo_schedule \<lparr>mo_day = 740002, mo_clock = 50000\<rparr>) =
      Next_at \<lparr>mo_day = 740002, mo_clock = 79200\<rparr>"
    by code_simp
  moreover have "on_clock \<lparr>mo_day = 740002, mo_clock = 50000\<rparr>" by (simp add: on_clock_def)
  ultimately show ?thesis using next_opening_sound[OF _ demo_window_ok] by blast
qed

end
