(* ===== verification/Canonical.thy ===== *)
theory Canonical
  imports Prelude "HOL-Library.List_Lexorder"
begin

text \<open>
  The compact text \<open>json.dumps(..., separators=(",", ":"), ensure_ascii=False)\<close> writes, which the
  approval ledger hashes (\<open>canonical_bytes\<close> in \<open>app/audit/ledger.py\<close>) and the anchors digest, and
  the proof that no two values share a text.
\<close>

section \<open>The encoder\<close>

definition hex_digit :: "nat \<Rightarrow> char" where
  "hex_digit n = char_of (if n < 10 then 48 + n else 87 + n)"

definition hex_val :: "char \<Rightarrow> nat" where
  "hex_val c = (let n = of_char c in if n < 58 then n - 48 else n - 87)"

definition dump_char :: "char \<Rightarrow> string" where
  "dump_char c =
     (let n = of_char c :: nat
      in if n = 34 then [CHR 0x5C, CHR 0x22]
         else if n = 92 then [CHR 0x5C, CHR 0x5C]
         else if n = 10 then [CHR 0x5C, CHR ''n'']
         else if n = 13 then [CHR 0x5C, CHR ''r'']
         else if n = 9 then [CHR 0x5C, CHR ''t'']
         else if n = 12 then [CHR 0x5C, CHR ''f'']
         else if n = 8 then [CHR 0x5C, CHR ''b'']
         else if n < 32 then [CHR 0x5C, CHR ''u'', CHR ''0'', CHR ''0'', hex_digit (n div 16), hex_digit (n mod 16)]
         else [c])"

lemma dump_char_code [code]:
  "dump_char (Char b0 b1 b2 b3 b4 b5 b6 b7) =
     (if b5 \<or> b6 \<or> b7 then (if Char b0 b1 b2 b3 b4 b5 b6 b7 = CHR 0x22 then [CHR 0x5C, CHR 0x22]
        else if Char b0 b1 b2 b3 b4 b5 b6 b7 = CHR 0x5C then [CHR 0x5C, CHR 0x5C] else [Char b0 b1 b2 b3 b4 b5 b6 b7])
      else if Char b0 b1 b2 b3 b4 b5 b6 b7 = CHR 0x0A then [CHR 0x5C, CHR ''n'']
      else if Char b0 b1 b2 b3 b4 b5 b6 b7 = CHR 0x0D then [CHR 0x5C, CHR ''r'']
      else if Char b0 b1 b2 b3 b4 b5 b6 b7 = CHR 0x09 then [CHR 0x5C, CHR ''t'']
      else if Char b0 b1 b2 b3 b4 b5 b6 b7 = CHR 0x0C then [CHR 0x5C, CHR ''f'']
      else if Char b0 b1 b2 b3 b4 b5 b6 b7 = CHR 0x08 then [CHR 0x5C, CHR ''b'']
      else let n = of_char (Char b0 b1 b2 b3 b4 b5 b6 b7) in
        [CHR 0x5C, CHR ''u'', CHR ''0'', CHR ''0'', hex_digit (n div 16), hex_digit (n mod 16)])"
  by (cases b0; cases b1; cases b2; cases b3; cases b4; cases b5; cases b6; cases b7; simp add: dump_char_def)

definition dump_str :: "string \<Rightarrow> string" where
  "dump_str s = CHR 0x22 # concat (map dump_char s) @ [CHR 0x22]"

fun dump_json :: "json \<Rightarrow> string"
and dump_elems :: "json list \<Rightarrow> string"
and dump_members :: "(string \<times> json) list \<Rightarrow> string" where
  "dump_json JNull = ''null''"
| "dump_json (JBool b) = (if b then ''true'' else ''false'')"
| "dump_json (JInt i) = show_int i"
| "dump_json (JStr s) = dump_str s"
| "dump_json (JArr xs) = CHR ''['' # dump_elems xs @ '']''"
| "dump_json (JObj ms) = CHR ''{'' # dump_members ms @ ''}''"
| "dump_elems [] = []"
| "dump_elems (x # xs) = dump_json x @ (if xs = [] then [] else CHR '','' # dump_elems xs)"
| "dump_members [] = []"
| "dump_members ((k, x) # ms) =
     dump_str k @ CHR '':'' # dump_json x @ (if ms = [] then [] else CHR '','' # dump_members ms)"

text \<open>\<open>sort_keys=True\<close>, at every level.\<close>

fun sort_json :: "json \<Rightarrow> json" where
  "sort_json (JArr xs) = JArr (map sort_json xs)"
| "sort_json (JObj ms) = JObj (sort_key fst (map (\<lambda>(k, v). (k, sort_json v)) ms))"
| "sort_json JNull = JNull"
| "sort_json (JBool b) = JBool b"
| "sort_json (JInt i) = JInt i"
| "sort_json (JStr s) = JStr s"

section \<open>Reading a text back\<close>

definition undump_char :: "string \<Rightarrow> char \<times> string" where
  "undump_char s =
     (if hd s \<noteq> CHR 0x5C then (hd s, tl s)
      else let e = s ! 1
           in if e = CHR ''u'' then (char_of (16 * hex_val (s ! 4) + hex_val (s ! 5)), drop 6 s)
              else if e = CHR ''n'' then (CHR 0x0A, drop 2 s)
              else if e = CHR ''r'' then (CHR 0x0D, drop 2 s)
              else if e = CHR ''t'' then (CHR 0x09, drop 2 s)
              else if e = CHR ''f'' then (CHR 0x0C, drop 2 s)
              else if e = CHR ''b'' then (CHR 0x08, drop 2 s)
              else (e, drop 2 s))"

lemma char_code: "(of_char c :: nat) = n \<Longrightarrow> c = char_of n"
  by auto

lemma hex_val_digit: "n < 16 \<Longrightarrow> hex_val (hex_digit n) = n"
proof -
  assume "n < 16"
  then have "(of_char (hex_digit n) :: nat) = (if n < 10 then 48 + n else 87 + n)"
    by (simp add: hex_digit_def)
  with \<open>n < 16\<close> show ?thesis by (simp add: hex_val_def)
qed

lemma dump_char_cases:
  obtains "c \<in> {CHR 0x22, CHR 0x5C, CHR 0x0A, CHR 0x0D, CHR 0x09, CHR 0x0C, CHR 0x08}"
  | n where "c = char_of n" "n < 32"
      "dump_char c = [CHR 0x5C, CHR ''u'', CHR ''0'', CHR ''0'', hex_digit (n div 16), hex_digit (n mod 16)]"
  | "dump_char c = [c]" "c \<noteq> CHR 0x5C" "c \<noteq> CHR 0x22"
proof -
  define n where "n = (of_char c :: nat)"
  have c: "c = char_of n" by (simp add: n_def)
  have code: "char_of (34 :: nat) = CHR 0x22" "char_of (92 :: nat) = CHR 0x5C" "char_of (10 :: nat) = CHR 0x0A"
    "char_of (13 :: nat) = CHR 0x0D" "char_of (9 :: nat) = CHR 0x09" "char_of (12 :: nat) = CHR 0x0C"
    "char_of (8 :: nat) = CHR 0x08"
    by (rule char_code[symmetric]; simp)+
  show thesis
  proof (cases "n \<in> {34, 92, 10, 13, 9, 12, 8}")
    case True
    then show thesis using that(1) c code by auto
  next
    case special: False
    show thesis
    proof (cases "n < 32")
      case True
      then show thesis using special that(2)[of n] c by (simp add: dump_char_def n_def[symmetric])
    next
      case False
      moreover have "c \<noteq> CHR 0x5C" "c \<noteq> CHR 0x22" using special by (auto simp: n_def)
      ultimately show thesis using special that(3) by (simp add: dump_char_def n_def[symmetric])
    qed
  qed
qed

lemma undump_dump_char: "undump_char (dump_char c @ s) = (c, s)"
proof (cases c rule: dump_char_cases)
  case 1
  then show ?thesis by (auto simp: dump_char_def undump_char_def)
next
  case (2 n)
  have "16 * (n div 16) + n mod 16 = n" by simp
  with 2 show ?thesis by (simp add: undump_char_def hex_val_digit)
next
  case 3
  then show ?thesis by (simp add: undump_char_def)
qed

lemma dump_char_inj: "dump_char c @ s = dump_char d @ t \<longleftrightarrow> c = d \<and> s = t"
  by (metis undump_dump_char prod.inject)

lemma hd_dump_char: "dump_char c \<noteq> []" "hd (dump_char c) \<noteq> CHR 0x22"
  by (auto simp: dump_char_def Let_def)

lemma dump_char_not_quote: "dump_char c @ s \<noteq> CHR 0x22 # t"
  using hd_dump_char[of c] by (cases "dump_char c") auto

lemma dump_chars_inj:
  "concat (map dump_char a) @ CHR 0x22 # s = concat (map dump_char b) @ CHR 0x22 # t \<longleftrightarrow> a = b \<and> s = t"
proof (induction a arbitrary: b)
  case Nil
  show ?case using dump_char_not_quote by (cases b) (auto simp: eq_commute[of "CHR 0x22 # s"])
next
  case (Cons x xs)
  show ?case
    using dump_char_not_quote Cons.IH by (cases b) (auto simp: dump_char_inj)
qed

lemma dump_str_inj: "dump_str a @ s = dump_str b @ t \<longleftrightarrow> a = b \<and> s = t"
  by (simp add: dump_str_def dump_chars_inj)

section \<open>No two values share a text\<close>

definition numeric :: "char \<Rightarrow> bool" where
  "numeric c = (is_digit c \<or> c = CHR ''-'')"

lemma show_int_numeric: "\<forall>c\<in>set (show_int i). numeric c" "show_int i \<noteq> []"
  using show_digits_all[of i] show_digits_all[of "- i"]
  by (auto simp: show_int_def numeric_def all_digits_def list_all_iff)

lemma show_int_inj: "show_int i = show_int j \<longleftrightarrow> i = j"
proof -
  have minus: "show_digits k \<noteq> CHR ''-'' # s" if "0 \<le> k" for k s
    using show_digits_all[OF that] by (auto simp: all_digits_def is_digit_def)
  have "i = j" if eq: "show_int i = show_int j"
  proof (cases "i < 0"; cases "j < 0")
    assume "i < 0" "j < 0"
    with eq show "i = j" using show_digits_inj[of "- i" "- j"] by (simp add: show_int_def)
  next
    assume "i < 0" "\<not> j < 0"
    with eq show "i = j" using minus[of j] by (metis linorder_not_less show_int_def)
  next
    assume "\<not> i < 0" "j < 0"
    with eq show "i = j" using minus[of i] by (metis linorder_not_less show_int_def)
  next
    assume "\<not> i < 0" "\<not> j < 0"
    with eq show "i = j" using show_digits_inj[of i j] by (simp add: show_int_def)
  qed
  then show ?thesis by blast
qed

text \<open>What may follow a value inside a text.\<close>

definition stops :: "string \<Rightarrow> bool" where
  "stops s = (s = [] \<or> \<not> numeric (hd s))"

lemma stops_simps [simp]: "stops []" "stops (CHR '','' # s)" "stops (CHR '']'' # s)" "stops (CHR ''}'' # s)"
  by (simp_all add: stops_def numeric_def is_digit_def)

lemma takeWhile_numeric: "\<forall>c\<in>set a. numeric c \<Longrightarrow> stops s \<Longrightarrow> takeWhile numeric (a @ s) = a"
  by (induction a) (cases s, auto simp: stops_def)

lemma show_int_prefix: "stops s \<Longrightarrow> stops t \<Longrightarrow> show_int i @ s = show_int j @ t \<longleftrightarrow> i = j \<and> s = t"
  using takeWhile_numeric[OF show_int_numeric(1)] show_int_inj by (metis same_append_eq)

lemma hd_show_int: "\<exists>c u. show_int i = c # u \<and> numeric c"
  using show_int_numeric[of i] by (cases "show_int i") auto

lemma numeric_other [simp]: "\<not> numeric (CHR ''n'')" "\<not> numeric (CHR ''t'')" "\<not> numeric (CHR ''f'')"
  "\<not> numeric (CHR 0x22)" "\<not> numeric (CHR ''['')" "\<not> numeric (CHR ''{'')"
  "\<not> numeric (CHR '']'')" "\<not> numeric (CHR ''}'')"
  by (simp_all add: numeric_def is_digit_def)

text \<open>The first character tells the kind of a value.\<close>

datatype kind = KNull | KTrue | KFalse | KInt | KStr | KArr | KObj | KNone

fun kind_of :: "json \<Rightarrow> kind" where
  "kind_of JNull = KNull"
| "kind_of (JBool b) = (if b then KTrue else KFalse)"
| "kind_of (JInt i) = KInt"
| "kind_of (JStr s) = KStr"
| "kind_of (JArr xs) = KArr"
| "kind_of (JObj ms) = KObj"

definition kind_char :: "char \<Rightarrow> kind" where
  "kind_char c = (if c = CHR ''n'' then KNull else if c = CHR ''t'' then KTrue else if c = CHR ''f'' then KFalse
     else if c = CHR 0x22 then KStr else if c = CHR ''['' then KArr else if c = CHR ''{'' then KObj
     else if numeric c then KInt else KNone)"

lemma kind_numeric: "numeric c \<Longrightarrow> kind_char c = KInt"
proof -
  assume num: "numeric c"
  have "d \<noteq> c" if "\<not> numeric d" for d using num that by auto
  from this[OF numeric_other(1)] this[OF numeric_other(2)] this[OF numeric_other(3)] this[OF numeric_other(4)]
    this[OF numeric_other(5)] this[OF numeric_other(6)] num
  show ?thesis by (simp add: kind_char_def eq_commute[of c])
qed

lemma kind_first: "\<exists>c u. dump_json j = c # u \<and> kind_char c = kind_of j"
proof (cases j)
  case (JInt i)
  then show ?thesis using hd_show_int[of i] kind_numeric by fastforce
qed (auto simp: kind_char_def dump_str_def)

lemma kind_eq: "dump_json j @ s = dump_json j' @ t \<Longrightarrow> kind_of j = kind_of j'"
  using kind_first[of j] kind_first[of j'] by auto

lemma dump_json_not_stop: "dump_json j @ s \<noteq> CHR '']'' # t"
proof -
  obtain c u where "dump_json j = c # u" "kind_char c = kind_of j" using kind_first by blast
  moreover have "kind_char (CHR '']'') = KNone" by (simp add: kind_char_def)
  moreover have "kind_of j \<noteq> KNone" by (cases j) auto
  ultimately show ?thesis by auto
qed

lemma dump_json_prefix:
  "stops s \<Longrightarrow> stops t \<Longrightarrow> dump_json j @ s = dump_json j' @ t \<Longrightarrow> j = j' \<and> s = t"
  "dump_elems xs @ CHR '']'' # s = dump_elems xs' @ CHR '']'' # t \<Longrightarrow> xs = xs' \<and> s = t"
  "dump_members ms @ CHR ''}'' # s = dump_members ms' @ CHR ''}'' # t \<Longrightarrow> ms = ms' \<and> s = t"
proof (induction j and xs and ms arbitrary: j' s t and xs' s t and ms' s t
    rule: dump_json_dump_elems_dump_members.induct)
  case 1
  then show ?case using kind_eq[OF 1(3)] by (cases j') (auto split: if_splits)
next
  case (2 b)
  then show ?case using kind_eq[OF 2(3)] by (cases j') (auto split: if_splits)
next
  case (3 i)
  then show ?case using kind_eq[OF 3(3)] by (cases j') (auto simp: show_int_prefix split: if_splits)
next
  case (4 x)
  then show ?case using kind_eq[OF 4(3)] by (cases j') (auto simp: dump_str_inj split: if_splits)
next
  case (5 xs)
  show ?case using kind_eq[OF 5(4)] 5(4) 5(1)[of s _ t] by (cases j') (auto split: if_splits)
next
  case (6 ms)
  show ?case using kind_eq[OF 6(4)] 6(4) 6(1)[of s _ t] by (cases j') (auto split: if_splits)
next
  case 7
  then show ?case using dump_json_not_stop by (cases xs') (auto simp: eq_commute[of "CHR '']'' # s"])
next
  case (8 x xs)
  then obtain x' ys where xs': "xs' = x' # ys" using dump_json_not_stop[of x] by (cases xs') auto
  let ?s = "(if xs = [] then [] else CHR '','' # dump_elems xs) @ CHR '']'' # s"
  let ?t = "(if ys = [] then [] else CHR '','' # dump_elems ys) @ CHR '']'' # t"
  have "stops ?s" "stops ?t" by simp_all
  moreover have "dump_json x @ ?s = dump_json x' @ ?t" using 8(3) by (simp add: xs')
  ultimately have "x = x'" "?s = ?t" using 8(1) by blast+
  then show ?case using 8(2)[of s ys t] by (auto simp: xs' split: if_splits)
next
  case 9
  then show ?case by (cases ms') (auto simp: dump_str_def)
next
  case (10 k x ms)
  then obtain k' x' ns where ms': "ms' = (k', x') # ns" by (cases ms') (auto simp: dump_str_def)
  let ?s = "(if ms = [] then [] else CHR '','' # dump_members ms) @ CHR ''}'' # s"
  let ?t = "(if ns = [] then [] else CHR '','' # dump_members ns) @ CHR ''}'' # t"
  have k: "k = k'" and rest: "dump_json x @ ?s = dump_json x' @ ?t"
    using 10(3) by (auto simp: ms' dump_str_inj)
  have "stops ?s" "stops ?t" by simp_all
  with rest have "x = x'" "?s = ?t" using 10(1) by blast+
  then show ?case using 10(2)[of s ns t] k by (auto simp: ms' split: if_splits)
qed

lemma dump_json_inj: "dump_json j = dump_json j' \<longleftrightarrow> j = j'"
  using dump_json_prefix(1)[of "[]" "[]" j j'] by auto

end
