(* ===== verification/Ledger.thy ===== *)
theory Ledger
  imports Canonical
begin

text \<open>
  The approval ledger: \<open>app/audit/ledger.py\<close> (hash-chained, signed records), \<open>app/audit/store.py\<close>
  (the append-only table), \<open>app/audit/keys.py\<close> (trusted keys and rotation), \<open>app/audit/anchor.py\<close>
  (the external anchor) and \<open>app/audit/startup.py\<close>. SHA-256 and Ed25519 are the record of functions
  \<open>crypto\<close>: base64 is part of its keys and signatures. Reasons of a report are constructors.
\<close>

section \<open>Records\<close>

record 'k crypto =
  cr_sha256 :: "string \<Rightarrow> string"
  cr_load :: "string \<Rightarrow> 'k res"
  cr_public :: "'k \<Rightarrow> string"
  cr_sign :: "'k \<Rightarrow> string \<Rightarrow> string"
  cr_verify :: "string \<Rightarrow> string \<Rightarrow> string \<Rightarrow> bool"

record approval =
  ar_thread :: string
  ar_decision :: string
  ar_feedback :: string
  ar_actor :: string
  ar_role :: string
  ar_evidence :: json
  ar_created :: string
  ar_prev :: string

record ledger_row = approval +
  lr_hash :: string
  lr_signature :: string
  lr_key_id :: string

definition genesis_hash :: string where
  "genesis_hash = replicate 64 (CHR ''0'')"

definition record_json :: "approval \<Rightarrow> json" where
  "record_json r = JObj [(''thread_id'', JStr (ar_thread r)), (''decision'', JStr (ar_decision r)),
     (''feedback'', JStr (ar_feedback r)), (''actor'', JStr (ar_actor r)), (''actor_role'', JStr (ar_role r)),
     (''evidence'', ar_evidence r), (''created_at'', JStr (ar_created r)), (''prev_hash'', JStr (ar_prev r))]"

definition canonical_bytes :: "approval \<Rightarrow> string" where
  "canonical_bytes r = dump_json (sort_json (record_json r))"

definition record_hash :: "'k crypto \<Rightarrow> approval \<Rightarrow> string" where
  "record_hash c r = cr_sha256 c (canonical_bytes r)"

section \<open>Signing\<close>

record 'k signer =
  sg_key :: 'k
  sg_ephemeral :: bool

text \<open>\<open>fresh\<close> is the key \<open>generate()\<close> would draw.\<close>

definition make_signer :: "'k crypto \<Rightarrow> 'k \<Rightarrow> string \<Rightarrow> 'k signer res" where
  "make_signer c fresh seed =
     (if seed \<noteq> [] then res_bind (cr_load c seed) (\<lambda>k. Inr \<lparr>sg_key = k, sg_ephemeral = False\<rparr>)
      else Inr \<lparr>sg_key = fresh, sg_ephemeral = True\<rparr>)"

definition key_id_for :: "'k crypto \<Rightarrow> string \<Rightarrow> string" where
  "key_id_for c public = take 16 (cr_sha256 c public)"

definition signer_key_id :: "'k crypto \<Rightarrow> 'k signer \<Rightarrow> string" where
  "signer_key_id c s = key_id_for c (cr_public c (sg_key s))"

definition seal :: "'k crypto \<Rightarrow> 'k signer \<Rightarrow> approval \<Rightarrow> ledger_row" where
  "seal c s r = approval.extend r
     \<lparr>lr_hash = record_hash c r, lr_signature = cr_sign c (sg_key s) (record_hash c r),
      lr_key_id = signer_key_id c s\<rparr>"

record 'k keyset =
  ks_active :: "'k signer"
  ks_retired :: "(string \<times> string) list"

definition make_keyset :: "'k crypto \<Rightarrow> 'k signer \<Rightarrow> string list \<Rightarrow> 'k keyset" where
  "make_keyset c active retired =
     \<lparr>ks_active = active,
      ks_retired = foldl (\<lambda>d key. if strip key = [] then d else al_put (key_id_for c (strip key)) (strip key) d)
        [] retired\<rparr>"

definition keyset_from_settings :: "'k crypto \<Rightarrow> 'k \<Rightarrow> string \<Rightarrow> string \<Rightarrow> 'k keyset res" where
  "keyset_from_settings c fresh seed retired_csv =
     res_bind (make_signer c fresh seed)
       (\<lambda>s. Inr (make_keyset c s (filter (\<lambda>item. strip item \<noteq> []) (split_on (CHR '','') retired_csv))))"

definition trusted :: "'k crypto \<Rightarrow> 'k keyset \<Rightarrow> (string \<times> string) list" where
  "trusted c ks = al_put (signer_key_id c (ks_active ks)) (cr_public c (sg_key (ks_active ks))) (ks_retired ks)"

section \<open>Verifying the chain\<close>

datatype chain_fault = WrongPredecessor string string | ContentsChanged | UnknownKey string | InvalidSignature

record chain_report =
  ch_ok :: bool
  ch_checked :: nat
  ch_broken_at :: "nat option"
  ch_fault :: "chain_fault option"

definition chain_broken :: "nat \<Rightarrow> chain_fault \<Rightarrow> chain_report" where
  "chain_broken i f = \<lparr>ch_ok = False, ch_checked = i, ch_broken_at = Some i, ch_fault = Some f\<rparr>"

fun walk_chain :: "'k crypto \<Rightarrow> (string \<times> string) list \<Rightarrow> string \<Rightarrow> nat \<Rightarrow> ledger_row list \<Rightarrow> chain_report" where
  "walk_chain c keys previous i [] = \<lparr>ch_ok = True, ch_checked = i, ch_broken_at = None, ch_fault = None\<rparr>"
| "walk_chain c keys previous i (row # rows) =
     (if ar_prev row \<noteq> previous then chain_broken i (WrongPredecessor (take 12 (ar_prev row)) (take 12 previous))
      else if record_hash c (approval.truncate row) \<noteq> lr_hash row then chain_broken i ContentsChanged
      else case map_of keys (lr_key_id row) of
             None \<Rightarrow> chain_broken i (UnknownKey (lr_key_id row))
           | Some public \<Rightarrow>
               if public = [] then chain_broken i (UnknownKey (lr_key_id row))
               else if \<not> cr_verify c public (lr_hash row) (lr_signature row) then chain_broken i InvalidSignature
               else walk_chain c keys (lr_hash row) (Suc i) rows)"

definition verify_chain :: "'k crypto \<Rightarrow> ledger_row list \<Rightarrow> (string \<times> string) list \<Rightarrow> chain_report" where
  "verify_chain c rows keys = walk_chain c keys genesis_hash 0 rows"

section \<open>Anchors\<close>

record anchor =
  an_head :: string
  an_count :: nat
  an_at :: string
  an_key_id :: string
  an_signature :: string

definition anchor_payload :: "anchor \<Rightarrow> json" where
  "anchor_payload a = JObj [(''head_hash'', JStr (an_head a)), (''record_count'', JInt (int (an_count a))),
     (''anchored_at'', JStr (an_at a)), (''key_id'', JStr (an_key_id a))]"

definition anchor_digest :: "'k crypto \<Rightarrow> anchor \<Rightarrow> string" where
  "anchor_digest c a = cr_sha256 c (dump_json (sort_json (anchor_payload a)))"

definition seal_anchor :: "'k crypto \<Rightarrow> string \<Rightarrow> nat \<Rightarrow> 'k signer \<Rightarrow> string \<Rightarrow> anchor" where
  "seal_anchor c head n s now =
     (let a = \<lparr>an_head = head, an_count = n, an_at = now, an_key_id = signer_key_id c s, an_signature = []\<rparr>
      in a\<lparr>an_signature := cr_sign c (sg_key s) (anchor_digest c a)\<rparr>)"

text \<open>The two sinks; the file holds one anchor per line, \<open>None\<close> a line that does not parse.\<close>

datatype sink = NullSink | FileSink "anchor option list"

fun sink_write :: "anchor \<Rightarrow> sink \<Rightarrow> sink" where
  "sink_write a NullSink = NullSink"
| "sink_write a (FileSink ls) = FileSink (ls @ [Some a])"

fun sink_latest :: "sink \<Rightarrow> anchor option" where
  "sink_latest NullSink = None"
| "sink_latest (FileSink ls) = foldl (\<lambda>last l. case l of None \<Rightarrow> last | Some a \<Rightarrow> Some a) None ls"

datatype anchor_reason = Fine | NoAnchor | AnchorInvalid | RecordsMissing nat nat | HistoryRewritten nat
  | ChainFault "chain_fault option" | Unprotected

record anchor_check =
  ac_ok :: bool
  ac_reason :: anchor_reason
  ac_count :: "nat option"
  ac_head :: "string option"
  ac_present :: bool

definition anchored :: "bool \<Rightarrow> anchor_reason \<Rightarrow> anchor \<Rightarrow> anchor_check" where
  "anchored ok reason a = \<lparr>ac_ok = ok, ac_reason = reason, ac_count = Some (an_count a),
     ac_head = Some (an_head a), ac_present = True\<rparr>"

definition anchor_trusted :: "'k crypto \<Rightarrow> (string \<times> string) list \<Rightarrow> anchor \<Rightarrow> bool" where
  "anchor_trusted c keys a = (case map_of keys (an_key_id a) of None \<Rightarrow> False
     | Some public \<Rightarrow> public \<noteq> [] \<and> cr_verify c public (anchor_digest c a) (an_signature a))"

definition check_against_anchor ::
  "'k crypto \<Rightarrow> ledger_row list \<Rightarrow> anchor option \<Rightarrow> (string \<times> string) list \<Rightarrow> anchor_check" where
  "check_against_anchor c rows anchor keys =
     (case anchor of
        None \<Rightarrow> \<lparr>ac_ok = True, ac_reason = NoAnchor, ac_count = None, ac_head = None, ac_present = False\<rparr>
      | Some a \<Rightarrow>
          if \<not> anchor_trusted c keys a then anchored False AnchorInvalid a
          else if length rows < an_count a then anchored False (RecordsMissing (length rows) (an_count a)) a
          else if an_count a > 0 \<and> lr_hash (rows ! (an_count a - 1)) \<noteq> an_head a
            then anchored False (HistoryRewritten (an_count a)) a
          else anchored True Fine a)"

section \<open>The table\<close>

record ledger =
  lg_rows :: "ledger_row list"
  lg_sink :: sink

text \<open>\<open>_head\<close>: the last hash, the last key and the number of records.\<close>

definition ledger_head :: "ledger_row list \<Rightarrow> string \<times> string \<times> nat" where
  "ledger_head rows = (if rows = [] then (genesis_hash, [], 0)
     else (lr_hash (last rows), lr_key_id (last rows), length rows))"

text \<open>\<open>INSERT\<close> under \<open>hash TEXT NOT NULL UNIQUE\<close>.\<close>

definition insert_row :: "ledger_row \<Rightarrow> ledger_row list \<Rightarrow> ledger_row list res" where
  "insert_row row rows =
     (if lr_hash row \<in> lr_hash ` set rows then Inl (RuntimeError ''UniqueViolation'')
      else Inr (rows @ [row]))"

definition commit_record :: "'k crypto \<Rightarrow> 'k signer \<Rightarrow> string \<Rightarrow> approval \<Rightarrow> ledger \<Rightarrow> ledger_row res \<times> ledger" where
  "commit_record c s now r l =
     (let sealed = seal c s r; n = length (lg_rows l)
      in case insert_row sealed (lg_rows l) of
           Inl e \<Rightarrow> (Inl e, l)
         | Inr rows \<Rightarrow> (Inr sealed,
             \<lparr>lg_rows = rows, lg_sink = sink_write (seal_anchor c (lr_hash sealed) (n + 1) s now) (lg_sink l)\<rparr>))"

definition append_approval ::
  "'k crypto \<Rightarrow> 'k signer \<Rightarrow> string \<Rightarrow> string \<Rightarrow> string \<Rightarrow> string \<Rightarrow> string \<Rightarrow> string \<Rightarrow> json \<Rightarrow> ledger \<Rightarrow>
   ledger_row res \<times> ledger" where
  "append_approval c s now thread decision feedback actor role evidence l =
     commit_record c s now
       \<lparr>ar_thread = thread, ar_decision = decision, ar_feedback = feedback, ar_actor = actor, ar_role = role,
        ar_evidence = evidence, ar_created = now, ar_prev = fst (ledger_head (lg_rows l))\<rparr> l"

definition rotation_evidence :: "string \<Rightarrow> string \<Rightarrow> json" where
  "rotation_evidence old new = JObj [(''event'', JStr ''signing_key_rotation''), (''previous_key_id'', JStr old),
     (''new_key_id'', JStr new),
     (''note'', JStr (''Records before this point are signed with the previous key, which must ''
        @ ''stay in AUDIT_RETIRED_KEYS for the ledger to remain verifiable.''))]"

definition rotation_record :: "string \<Rightarrow> string \<Rightarrow> string \<Rightarrow> string \<Rightarrow> approval" where
  "rotation_record old new now prev =
     \<lparr>ar_thread = ''ledger'', ar_decision = ''key-rotation'', ar_feedback = [], ar_actor = ''system'',
      ar_role = ''system'', ar_evidence = rotation_evidence old new, ar_created = now, ar_prev = prev\<rparr>"

definition ensure_rotation_record ::
  "'k crypto \<Rightarrow> 'k keyset \<Rightarrow> string \<Rightarrow> ledger \<Rightarrow> ledger_row option res \<times> ledger" where
  "ensure_rotation_record c ks now l =
     (case ledger_head (lg_rows l) of
        (prev, last_key, count) \<Rightarrow>
          if last_key = [] \<or> last_key = signer_key_id c (ks_active ks) then (Inr None, l)
          else case commit_record c (ks_active ks) now
                 (rotation_record last_key (signer_key_id c (ks_active ks)) now prev) l of
               (Inl e, l') \<Rightarrow> (Inl e, l')
             | (Inr row, l') \<Rightarrow> (Inr (Some row), l'))"

definition list_approvals :: "string \<Rightarrow> ledger \<Rightarrow> ledger_row list" where
  "list_approvals thread l =
     (if thread = [] then lg_rows l else filter (\<lambda>row. ar_thread row = thread) (lg_rows l))"

section \<open>Startup\<close>

definition verify_ledger_at_startup :: "'k crypto \<Rightarrow> 'k keyset \<Rightarrow> ledger \<Rightarrow> anchor_check" where
  "verify_ledger_at_startup c ks l =
     (let rows = list_approvals [] l; chain = verify_chain c rows (trusted c ks)
      in if \<not> ch_ok chain
         then \<lparr>ac_ok = False, ac_reason = ChainFault (ch_fault chain), ac_count = None, ac_head = None, ac_present = False\<rparr>
         else let check = check_against_anchor c rows (sink_latest (lg_sink l)) (trusted c ks)
              in if rows \<noteq> [] \<and> \<not> ac_present check
                 then \<lparr>ac_ok = False, ac_reason = Unprotected, ac_count = None, ac_head = None, ac_present = False\<rparr>
                 else check)"

section \<open>The hash chain\<close>

fun chain_ok :: "'k crypto \<Rightarrow> (string \<times> string) list \<Rightarrow> string \<Rightarrow> ledger_row list \<Rightarrow> bool" where
  "chain_ok c keys previous [] = True"
| "chain_ok c keys previous (row # rows) =
     (ar_prev row = previous \<and> record_hash c (approval.truncate row) = lr_hash row \<and>
      (\<exists>public. map_of keys (lr_key_id row) = Some public \<and> public \<noteq> [] \<and>
         cr_verify c public (lr_hash row) (lr_signature row)) \<and>
      chain_ok c keys (lr_hash row) rows)"

definition end_hash :: "string \<Rightarrow> ledger_row list \<Rightarrow> string" where
  "end_hash previous rows = (if rows = [] then previous else lr_hash (last rows))"

lemma end_hash_simps [simp]: "end_hash p [] = p" "end_hash p (xs @ [x]) = lr_hash x"
  "end_hash p (x # xs) = end_hash (lr_hash x) xs"
  by (simp_all add: end_hash_def)

lemma ledger_head_hash: "fst (ledger_head rows) = end_hash genesis_hash rows"
  by (simp add: ledger_head_def end_hash_def)

lemma chain_broken_not_ok [simp]: "\<not> ch_ok (chain_broken i f)"
  by (simp add: chain_broken_def)

lemma walk_chain_ok: "ch_ok (walk_chain c keys p i rows) = chain_ok c keys p rows"
  by (induction rows arbitrary: p i) (auto split: option.splits)

lemma verify_chain_ok: "ch_ok (verify_chain c rows keys) = chain_ok c keys genesis_hash rows"
  by (simp add: verify_chain_def walk_chain_ok)

lemma chain_ok_append:
  "chain_ok c keys p (xs @ ys) \<longleftrightarrow> chain_ok c keys p xs \<and> chain_ok c keys (end_hash p xs) ys"
  by (induction xs arbitrary: p) auto

lemma record_json_inj:
  "sort_json (record_json r) = sort_json (record_json s) \<longleftrightarrow>
     r\<lparr>ar_evidence := sort_json (ar_evidence r)\<rparr> = s\<lparr>ar_evidence := sort_json (ar_evidence s)\<rparr>"
  by (cases r; cases s) (auto simp: record_json_def)

text \<open>What the hash of a row commits to.\<close>

definition row_bytes :: "ledger_row \<Rightarrow> string" where
  "row_bytes row = canonical_bytes (approval.truncate row)"

lemma same_head_same_records:
  assumes "chain_ok c keys p rows" and "chain_ok c keys' p' rows'" and "length rows = length rows'"
    and "end_hash p rows = end_hash p' rows'"
    and "inj_on (cr_sha256 c) (row_bytes ` (set rows \<union> set rows'))"
  shows "map row_bytes rows = map row_bytes rows'"
  using assms
proof (induction rows arbitrary: rows' rule: rev_induct)
  case (snoc x xs)
  obtain y ys where rows': "rows' = ys @ [y]"
    using snoc.prems(3) by (metis append_is_Nil_conv length_0_conv not_Cons_self2 rev_exhaust)
  have x: "chain_ok c keys p xs" "ar_prev x = end_hash p xs" "cr_sha256 c (row_bytes x) = lr_hash x"
    and y: "chain_ok c keys' p' ys" "ar_prev y = end_hash p' ys" "cr_sha256 c (row_bytes y) = lr_hash y"
    using snoc.prems(1,2) by (auto simp: rows' chain_ok_append record_hash_def row_bytes_def)
  have "cr_sha256 c (row_bytes x) = cr_sha256 c (row_bytes y)" using snoc.prems(4) x(3) y(3) by (simp add: rows')
  then have eq: "row_bytes x = row_bytes y" by (rule inj_onD[OF snoc.prems(5)]) (auto simp: rows')
  then have "sort_json (record_json (approval.truncate x)) = sort_json (record_json (approval.truncate y))"
    by (simp add: row_bytes_def canonical_bytes_def dump_json_inj)
  then have "ar_prev x = ar_prev y" by (simp add: record_json_inj approval.defs)
  then have "end_hash p xs = end_hash p' ys" using x(2) y(2) by simp
  moreover have "inj_on (cr_sha256 c) (row_bytes ` (set xs \<union> set ys))"
    by (rule inj_on_subset[OF snoc.prems(5)]) (auto simp: rows')
  moreover have "length xs = length ys" using snoc.prems(3) by (simp add: rows')
  ultimately have "map row_bytes xs = map row_bytes ys" using snoc.IH[of ys] x(1) y(1) by blast
  with eq show ?case by (simp add: rows')
qed simp

section \<open>Growing the ledger\<close>

text \<open>The laws of Ed25519 and of base64: what a key signs verifies under its public key, which is not
  empty.\<close>

definition signs :: "'k crypto \<Rightarrow> 'k signer \<Rightarrow> bool" where
  "signs c s = (cr_public c (sg_key s) \<noteq> [] \<and>
     (\<forall>d. cr_verify c (cr_public c (sg_key s)) d (cr_sign c (sg_key s) d)))"

definition knows_signer :: "'k crypto \<Rightarrow> (string \<times> string) list \<Rightarrow> 'k signer \<Rightarrow> bool" where
  "knows_signer c keys s = (map_of keys (signer_key_id c s) = Some (cr_public c (sg_key s)))"

inductive ledger_reachable :: "'k crypto \<Rightarrow> (string \<times> string) list \<Rightarrow> ledger \<Rightarrow> bool"
  for c :: "'k crypto" and keys :: "(string \<times> string) list" where
  empty: "ledger_reachable c keys \<lparr>lg_rows = [], lg_sink = FileSink []\<rparr>"
| append: "ledger_reachable c keys l \<Longrightarrow> signs c s \<Longrightarrow> knows_signer c keys s \<Longrightarrow>
    ledger_reachable c keys (snd (append_approval c s now thread decision feedback actor role evidence l))"
| rotate: "ledger_reachable c keys l \<Longrightarrow> signs c (ks_active ks) \<Longrightarrow> knows_signer c keys (ks_active ks) \<Longrightarrow>
    ledger_reachable c keys (snd (ensure_rotation_record c ks now l))"

definition anchored_at_head :: "'k crypto \<Rightarrow> (string \<times> string) list \<Rightarrow> ledger \<Rightarrow> bool" where
  "anchored_at_head c keys l =
     (lg_rows l = [] \<and> lg_sink l = FileSink [] \<or>
      (\<exists>ls a. lg_sink l = FileSink ls \<and> sink_latest (lg_sink l) = Some a \<and> an_count a = length (lg_rows l) \<and>
         lg_rows l \<noteq> [] \<and> an_head a = lr_hash (last (lg_rows l)) \<and> anchor_trusted c keys a))"

definition ledger_inv :: "'k crypto \<Rightarrow> (string \<times> string) list \<Rightarrow> ledger \<Rightarrow> bool" where
  "ledger_inv c keys l = (chain_ok c keys genesis_hash (lg_rows l) \<and> anchored_at_head c keys l \<and>
     distinct (map lr_hash (lg_rows l)))"

lemma truncate_seal [simp]: "approval.truncate (seal c s r) = r"
  by (cases r) (simp add: seal_def approval.defs)

lemma seal_simps [simp]: "lr_hash (seal c s r) = record_hash c r" "lr_key_id (seal c s r) = signer_key_id c s"
  "lr_signature (seal c s r) = cr_sign c (sg_key s) (record_hash c r)" "ar_prev (seal c s r) = ar_prev r"
  by (cases r, simp add: seal_def approval.defs)+

lemma seal_anchor_trusted: "signs c s \<Longrightarrow> knows_signer c keys s \<Longrightarrow> anchor_trusted c keys (seal_anchor c h n s now)"
  by (simp add: anchor_trusted_def seal_anchor_def signs_def knows_signer_def anchor_digest_def anchor_payload_def)

lemma seal_anchor_simps [simp]: "an_count (seal_anchor c h n s now) = n" "an_head (seal_anchor c h n s now) = h"
  by (simp_all add: seal_anchor_def)

lemma commit_inv:
  assumes "ledger_inv c keys l" "signs c s" "knows_signer c keys s" "ar_prev r = fst (ledger_head (lg_rows l))"
  shows "ledger_inv c keys (snd (commit_record c s now r l))"
proof (cases "insert_row (seal c s r) (lg_rows l)")
  case (Inr rows)
  then have rows: "rows = lg_rows l @ [seal c s r]" by (simp add: insert_row_def split: if_splits)
  obtain ls where ls: "lg_sink l = FileSink ls" using assms(1) by (auto simp: ledger_inv_def anchored_at_head_def)
  have "distinct (map lr_hash rows)"
    using Inr assms(1) by (auto simp: rows ledger_inv_def insert_row_def split: if_splits)
  moreover have "chain_ok c keys genesis_hash rows"
    using assms by (auto simp: rows chain_ok_append ledger_inv_def ledger_head_hash signs_def knows_signer_def)
  ultimately show ?thesis
    using Inr ls seal_anchor_trusted[OF assms(2,3)]
    by (auto simp: commit_record_def Let_def ledger_inv_def anchored_at_head_def rows)
qed (use assms(1) in \<open>simp add: commit_record_def Let_def\<close>)

lemma commit_extends:
  "lg_rows (snd (commit_record c s now r l)) = lg_rows l \<or> (\<exists>x. lg_rows (snd (commit_record c s now r l)) = lg_rows l @ [x])"
  by (auto simp: commit_record_def insert_row_def Let_def)

lemma rotation_state:
  "snd (ensure_rotation_record c ks now l) = l \<or>
   (\<exists>r. ar_prev r = fst (ledger_head (lg_rows l)) \<and>
      snd (ensure_rotation_record c ks now l) = snd (commit_record c (ks_active ks) now r l))"
proof -
  obtain p k n where h: "ledger_head (lg_rows l) = (p, k, n)" using prod_cases3 by blast
  let ?r = "rotation_record k (signer_key_id c (ks_active ks)) now p"
  have "snd (ensure_rotation_record c ks now l) = l \<or>
      snd (ensure_rotation_record c ks now l) = snd (commit_record c (ks_active ks) now ?r l)"
    by (simp add: ensure_rotation_record_def h split: prod.splits sum.splits)
  moreover have "ar_prev ?r = fst (ledger_head (lg_rows l))" by (simp add: rotation_record_def h)
  ultimately show ?thesis by blast
qed

lemma ledger_reachable_inv: "ledger_reachable c keys l \<Longrightarrow> ledger_inv c keys l"
proof (induction rule: ledger_reachable.induct)
  case empty
  then show ?case by (simp add: ledger_inv_def anchored_at_head_def)
next
  case (append l s now thread decision feedback actor role evidence)
  then show ?case by (simp add: append_approval_def commit_inv)
next
  case (rotate l ks now)
  then show ?case using rotation_state[of c ks now l] commit_inv[of c keys l "ks_active ks" _ now] by metis
qed

lemma chain_ok_hash: "chain_ok c keys p rows \<Longrightarrow> row \<in> set rows \<Longrightarrow> cr_sha256 c (row_bytes row) = lr_hash row"
  by (induction rows arbitrary: p) (auto simp: record_hash_def row_bytes_def)

lemma chain_ok_inj:
  assumes "chain_ok c keys p rows" and "distinct (map lr_hash rows)"
  shows "inj_on (cr_sha256 c) (row_bytes ` set rows)"
  using chain_ok_hash[OF assms(1)] assms(2) by (auto simp: inj_on_def distinct_map)

section \<open>Properties\<close>

text \<open>The text a record is hashed over determines the record: two records with the same canonical bytes
  agree in every field, up to the order of the keys of the evidence.\<close>

theorem canonical_bytes_injective:
  "canonical_bytes r = canonical_bytes s \<longleftrightarrow>
     r\<lparr>ar_evidence := sort_json (ar_evidence r)\<rparr> = s\<lparr>ar_evidence := sort_json (ar_evidence s)\<rparr>"
  by (simp add: canonical_bytes_def dump_json_inj record_json_inj)

text \<open>C5. Anchored history cannot be changed: when a ledger verifies and passes the check against an anchor
  that was written when the ledger held \<open>original\<close>, its first records are the original ones, none
  edited, removed or reordered, as long as SHA-256 has no collision among the records involved.\<close>

theorem anchored_history_unchanged:
  assumes "ch_ok (verify_chain c original keys0)" and "original \<noteq> []"
    and "an_head a = lr_hash (last original)" and "an_count a = length original"
    and "ch_ok (verify_chain c rows keys)" and "ac_ok (check_against_anchor c rows (Some a) keys)"
    and "inj_on (cr_sha256 c) (row_bytes ` (set original \<union> set rows))"
  shows "map row_bytes (take (length original) rows) = map row_bytes original"
proof -
  let ?n = "length original"
  have len: "?n \<le> length rows" and head: "lr_hash (rows ! (?n - 1)) = an_head a"
    using assms(2,4,6) by (auto simp: check_against_anchor_def anchored_def split: if_splits)
  have ne: "take ?n rows \<noteq> []" using len assms(2) by auto
  have "last (take ?n rows) = rows ! (?n - 1)"
    by (subst last_conv_nth[OF ne]) (use len assms(2) in simp)
  with ne have "end_hash genesis_hash (take ?n rows) = end_hash genesis_hash original"
    using head assms(2,3) by (simp add: end_hash_def)
  moreover have "chain_ok c keys genesis_hash (take ?n rows)"
    using assms(5) chain_ok_append[of c keys genesis_hash "take ?n rows" "drop ?n rows"] by (simp add: verify_chain_ok)
  moreover have "chain_ok c keys0 genesis_hash original" using assms(1) by (simp add: verify_chain_ok)
  moreover have "inj_on (cr_sha256 c) (row_bytes ` (set (take ?n rows) \<union> set original))"
    by (rule inj_on_subset[OF assms(7)]) (auto dest: in_set_takeD)
  ultimately show ?thesis using same_head_same_records len by (metis length_take min.absorb2)
qed

text \<open>C6. Every ledger grown by \<open>append_approval\<close> and \<open>ensure_rotation_record\<close> with trusted signers and a
  file anchor passes the startup verification.\<close>

theorem grown_ledger_verifies:
  assumes "ledger_reachable c (trusted c ks) l"
  shows "ch_ok (verify_chain c (lg_rows l) (trusted c ks)) \<and> ac_ok (verify_ledger_at_startup c ks l)"
proof -
  from ledger_reachable_inv[OF assms] have ok: "chain_ok c (trusted c ks) genesis_hash (lg_rows l)"
    and an: "anchored_at_head c (trusted c ks) l" by (simp_all add: ledger_inv_def)
  from an show ?thesis
  proof (unfold anchored_at_head_def, elim disjE exE conjE)
    assume "lg_rows l = []" "lg_sink l = FileSink []"
    then show ?thesis using ok
      by (simp add: verify_ledger_at_startup_def list_approvals_def check_against_anchor_def verify_chain_ok)
  next
    fix ls a
    assume "sink_latest (lg_sink l) = Some a" "an_count a = length (lg_rows l)" "lg_rows l \<noteq> []"
      "an_head a = lr_hash (last (lg_rows l))" "anchor_trusted c (trusted c ks) a"
    then show ?thesis using ok
      by (simp add: verify_ledger_at_startup_def list_approvals_def check_against_anchor_def verify_chain_ok
          anchored_def last_conv_nth Let_def)
  qed
qed

section \<open>Witnesses\<close>

text \<open>A concrete \<open>crypto\<close>, with texts as keys: the digest keeps the end of its
  input, which holds the thread.\<close>

definition plain_crypto :: "string crypto" where
  "plain_crypto = \<lparr>cr_sha256 = (\<lambda>s. drop (length s - 24) s), cr_load = Inr, cr_public = (\<lambda>k. k), cr_sign = (\<lambda>k d. k @ d),
     cr_verify = (\<lambda>p d g. g = p @ d)\<rparr>"

definition demo_signer :: "string \<Rightarrow> string signer" where
  "demo_signer k = \<lparr>sg_key = k, sg_ephemeral = False\<rparr>"

definition demo_keyset :: "string keyset" where
  "demo_keyset = make_keyset plain_crypto (demo_signer ''new'') [''old'']"

definition demo_ledger :: ledger where
  "demo_ledger = snd (append_approval plain_crypto (demo_signer ''old'') ''t1'' ''INC-1'' ''approve'' [] ''ann''
     ''approver'' (JObj []) \<lparr>lg_rows = [], lg_sink = FileSink []\<rparr>)"

definition demo_later :: ledger where
  "demo_later = snd (ensure_rotation_record plain_crypto demo_keyset ''t2'' demo_ledger)"

lemma plain_signs: "k \<noteq> [] \<Longrightarrow> signs plain_crypto (demo_signer k)"
  by (simp add: signs_def plain_crypto_def demo_signer_def)

lemma demo_keys: "knows_signer plain_crypto (trusted plain_crypto demo_keyset) (demo_signer ''old'')"
  "knows_signer plain_crypto (trusted plain_crypto demo_keyset) (ks_active demo_keyset)"
  by code_simp+

lemma demo_ledgers_reachable:
  "ledger_reachable plain_crypto (trusted plain_crypto demo_keyset) demo_ledger"
  "ledger_reachable plain_crypto (trusted plain_crypto demo_keyset) demo_later"
  unfolding demo_later_def demo_ledger_def
  by (intro ledger_reachable.rotate ledger_reachable.append ledger_reachable.empty demo_keys;
      simp add: plain_signs demo_keyset_def make_keyset_def)+

lemma grown_ledger_verifies_witness:
  "ac_ok (verify_ledger_at_startup plain_crypto demo_keyset demo_later)"
  using grown_ledger_verifies[OF demo_ledgers_reachable(2)] by blast

definition demo_anchor :: anchor where
  "demo_anchor = seal_anchor plain_crypto (lr_hash (last (lg_rows demo_ledger))) 1 (demo_signer ''old'') ''t1''"

lemma demo_chains:
  "ch_ok (verify_chain plain_crypto (lg_rows demo_ledger) (trusted plain_crypto demo_keyset))"
  "ch_ok (verify_chain plain_crypto (lg_rows demo_later) (trusted plain_crypto demo_keyset))"
  using ledger_reachable_inv[OF demo_ledgers_reachable(1)] ledger_reachable_inv[OF demo_ledgers_reachable(2)]
  by (simp_all add: verify_chain_ok ledger_inv_def)

lemma anchored_history_unchanged_witness:
  "map row_bytes (take (length (lg_rows demo_ledger)) (lg_rows demo_later)) = map row_bytes (lg_rows demo_ledger)"
proof -
  have one: "length (lg_rows demo_ledger) = 1" by code_simp
  from one have shape: "lg_rows demo_ledger \<noteq> []" "an_head demo_anchor = lr_hash (last (lg_rows demo_ledger))"
    "an_count demo_anchor = length (lg_rows demo_ledger)"
    by (auto simp: demo_anchor_def)
  have "lg_rows demo_later = lg_rows demo_ledger \<or> (\<exists>x. lg_rows demo_later = lg_rows demo_ledger @ [x])"
    unfolding demo_later_def
    using rotation_state[of plain_crypto demo_keyset "''t2''" demo_ledger] commit_extends by metis
  then obtain xs where later: "lg_rows demo_later = lg_rows demo_ledger @ xs" by auto
  have "anchor_trusted plain_crypto (trusted plain_crypto demo_keyset) demo_anchor"
    unfolding demo_anchor_def by (rule seal_anchor_trusted[OF plain_signs demo_keys(1)]) simp
  then have check: "ac_ok (check_against_anchor plain_crypto (lg_rows demo_later) (Some demo_anchor)
      (trusted plain_crypto demo_keyset))"
    using shape one by (simp add: check_against_anchor_def anchored_def later nth_append last_conv_nth)
  have inj: "inj_on (cr_sha256 plain_crypto) (row_bytes ` (set (lg_rows demo_ledger) \<union> set (lg_rows demo_later)))"
    using chain_ok_inj[of plain_crypto _ _ "lg_rows demo_later"] ledger_reachable_inv[OF demo_ledgers_reachable(2)]
    by (auto simp: ledger_inv_def later Un_absorb1)
  show ?thesis by (rule anchored_history_unchanged[OF demo_chains(1) shape demo_chains(2) check inj])
qed

end
