(* ===== verification/Ingress.thy ===== *)
theory Ingress
  imports Sanitize "HOL-Library.List_Lexorder" "HOL-Library.Product_Lexorder"
begin

text \<open>
  \<open>app/ingress\<close>: the three webhook formats normalised to one trigger. Label sets are dicts, lists
  with distinct keys in their order. SHA-256 and the \<open>repr\<close> of a list of pairs and the \<open>str\<close> of a
  JSON value that is no string are parameters (\<open>in_sha\<close>, \<open>in_repr\<close>, \<open>in_str\<close>); the metadata nobody reads is left out.
\<close>

section \<open>The normalised trigger\<close>

record trigger =
  tg_thread :: string
  tg_description :: string
  tg_severity :: string
  tg_site :: string
  tg_source :: string
  tg_external :: string
  tg_action :: string
  tg_reason :: string

definition open_trigger :: "string \<Rightarrow> string \<Rightarrow> string \<Rightarrow> string \<Rightarrow> string \<Rightarrow> string \<Rightarrow> trigger" where
  "open_trigger thread description severity site source external =
     \<lparr>tg_thread = thread, tg_description = description, tg_severity = severity, tg_site = site,
      tg_source = source, tg_external = external, tg_action = ''open'', tg_reason = []\<rparr>"

definition ignored :: "string \<Rightarrow> trigger \<Rightarrow> trigger" where
  "ignored reason t = t\<lparr>tg_action := ''ignore'', tg_reason := reason\<rparr>"

record ingress_lib =
  in_sha :: "string \<Rightarrow> string"
  in_repr :: "(string \<times> string) list \<Rightarrow> string"
  in_str :: "json \<Rightarrow> string"

definition thread_char :: "char \<Rightarrow> bool" where
  "thread_char c = (is_alnum c \<or> c \<in> set ''._:-'')"

text \<open>\<open>THREAD_ID_PATTERN\<close>\<close>

definition thread_id_ok :: "string \<Rightarrow> bool" where
  "thread_id_ok s = (s \<noteq> [] \<and> list_all thread_char s)"

section \<open>Thread ids\<close>

definition strip_chars :: "string \<Rightarrow> string \<Rightarrow> string" where
  "strip_chars cs s = rev (dropWhile (\<lambda>c. c \<in> set cs) (rev (dropWhile (\<lambda>c. c \<in> set cs) s)))"

text \<open>\<open>_sanitize_thread_id\<close>, the same in \<open>alertmanager.py\<close> and \<open>pagerduty.py\<close>.\<close>

definition sanitize_thread_id :: "ingress_lib \<Rightarrow> string \<Rightarrow> string \<Rightarrow> string" where
  "sanitize_thread_id lib tag value =
     (let cleaned = strip_chars ''-._:'' (map (\<lambda>c. if thread_char c then c else CHR ''-'') (strip value));
          named = (if cleaned = [] then take 12 (in_sha lib value) else cleaned)
      in take 128 (if \<not> is_alnum (hd named) then tag @ named else named))"

section \<open>Alertmanager\<close>

type_synonym labels = "(string \<times> string) list"

record alert =
  al_status :: string
  al_labels :: labels
  al_annotations :: labels
  al_fingerprint :: string

record alertmanager_body =
  ab_status :: string
  ab_group_labels :: labels
  ab_common_labels :: labels
  ab_common_annotations :: labels
  ab_alerts :: "alert list"

text \<open>\<open>{**a, **b}\<close> and \<open>d.get(k, "")\<close>; \<open>d.get(k)\<close> is only used where the empty text is as false as \<open>None\<close>.\<close>

definition merge_labels :: "labels \<Rightarrow> labels \<Rightarrow> labels" where
  "merge_labels a b = foldl (\<lambda>d (k, v). al_put k v d) a b"

definition label :: "string \<Rightarrow> labels \<Rightarrow> string" where
  "label k ls = (case map_of ls k of None \<Rightarrow> [] | Some v \<Rightarrow> v)"

fun first_nonempty :: "string list \<Rightarrow> string" where
  "first_nonempty [] = []"
| "first_nonempty (x # xs) = (if x \<noteq> [] then x else first_nonempty xs)"

definition severity_map :: "(string \<times> string) list" where
  "severity_map =
    [(''critical'', ''critical''), (''crit'', ''critical''), (''p1'', ''critical''), (''high'', ''high''),
     (''warning'', ''high''), (''warn'', ''high''), (''p2'', ''high''), (''medium'', ''medium''),
     (''p3'', ''medium''), (''low'', ''low''), (''info'', ''low''), (''p4'', ''low''), (''p5'', ''low'')]"

definition alert_severity :: "labels \<Rightarrow> string" where
  "alert_severity ls =
     (case List.find (\<lambda>raw. map_of severity_map raw \<noteq> None)
             (map (\<lambda>k. lower (strip (label k ls))) [''severity'', ''priority'', ''alert_level'']) of
        None \<Rightarrow> ''high'' | Some raw \<Rightarrow> the (map_of severity_map raw))"

definition alert_site :: "labels \<Rightarrow> string \<Rightarrow> string" where
  "alert_site ls fallback =
     (let v = first_nonempty (map (\<lambda>k. strip (label k ls)) [''site'', ''topology_site'', ''cluster'', ''location''])
      in take 128 (if v \<noteq> [] then v else fallback))"

definition shown_labels :: "string list" where
  "shown_labels = [''alertname'', ''instance'', ''job'', ''service'', ''namespace'']"

definition alert_description :: "alert \<Rightarrow> labels \<Rightarrow> string" where
  "alert_description a common =
     (let summary = first_nonempty [label ''summary'' (al_annotations a), label ''summary'' common,
            label ''alertname'' (al_labels a), ''Alertmanager notification''];
          description = first_nonempty [label ''description'' (al_annotations a), label ''description'' common];
          bits = map (\<lambda>(k, v). k @ ''='' @ v) (filter (\<lambda>(k, v). k \<in> set shown_labels) (sort (al_labels a)))
      in join [CHR 0x0A] (filter (\<lambda>p. p \<noteq> [])
           ([strip summary]
            @ (if description \<noteq> [] \<and> strip description \<noteq> strip summary then [strip description] else [])
            @ (if bits \<noteq> [] then [''Labels: '' @ join '', '' bits] else []))))"

definition given_id :: "labels \<Rightarrow> string" where
  "given_id ls = first_nonempty [label ''ticket_id'' ls, label ''incident'' ls]"

definition fingerprint_id :: "ingress_lib \<Rightarrow> string \<Rightarrow> alert \<Rightarrow> labels \<Rightarrow> string" where
  "fingerprint_id lib tag a ls =
     sanitize_thread_id lib tag (tag @ ''-'' @ (if al_fingerprint a \<noteq> [] then al_fingerprint a
       else take 12 (in_sha lib (in_repr lib (sort ls)))))"

definition resolved_alert :: alert where
  "resolved_alert = \<lparr>al_status = ''resolved'', al_labels = [], al_annotations = [], al_fingerprint = []\<rparr>"

definition normalize_alertmanager :: "ingress_lib \<Rightarrow> string \<Rightarrow> string \<Rightarrow> alertmanager_body \<Rightarrow> trigger res" where
  "normalize_alertmanager lib tag default_site b =
     (if ab_status b = ''resolved''
      then let a = (case ab_alerts b of x # _ \<Rightarrow> x | [] \<Rightarrow> resolved_alert);
               ls = merge_labels (ab_common_labels b) (al_labels a);
               thread = (if given_id ls \<noteq> [] then given_id ls else fingerprint_id lib tag a ls)
           in Inr (ignored ''alert resolved'' (open_trigger (sanitize_thread_id lib tag thread)
                (alert_description a (ab_common_annotations b)) (alert_severity ls) (alert_site ls default_site)
                ''alertmanager'' (al_fingerprint a)))
      else if ab_alerts b = [] then Inl ValueError
      else let a = (case List.find (\<lambda>x. al_status x = ''firing'') (ab_alerts b) of
                      Some x \<Rightarrow> x | None \<Rightarrow> hd (ab_alerts b));
               ls = merge_labels (merge_labels (ab_common_labels b) (ab_group_labels b)) (al_labels a);
               thread = (if given_id ls \<noteq> [] then sanitize_thread_id lib tag (given_id ls)
                         else fingerprint_id lib tag a ls)
           in Inr (open_trigger thread (alert_description a (ab_common_annotations b)) (alert_severity ls)
                (alert_site ls default_site) ''alertmanager'' (al_fingerprint a)))"

section \<open>PagerDuty\<close>

record pagerduty_data =
  pd_id :: string
  pd_number :: "int option"
  pd_title :: string
  pd_body :: "(string \<times> json) list"
  pd_urgency :: string
  pd_priority :: "(string \<times> json) list"          \<comment> \<open>an absent object is as false as the empty one\<close>
  pd_service :: "(string \<times> json) list"
  pd_custom :: "(string \<times> json) list"

fun truthy :: "json \<Rightarrow> bool" where
  "truthy JNull = False"
| "truthy (JBool b) = b"
| "truthy (JInt n) = (n \<noteq> 0)"
| "truthy (JStr s) = (s \<noteq> [])"
| "truthy (JArr xs) = (xs \<noteq> [])"
| "truthy (JObj ms) = (ms \<noteq> [])"

definition py_str :: "ingress_lib \<Rightarrow> json \<Rightarrow> string" where
  "py_str lib v = (case v of JStr s \<Rightarrow> s | _ \<Rightarrow> in_str lib v)"

text \<open>\<open>d.get(a) or d.get(b) or ""\<close>\<close>

definition either_key :: "string \<Rightarrow> string \<Rightarrow> (string \<times> json) list \<Rightarrow> json" where
  "either_key a b d = (case List.find truthy (List.map_filter (map_of d) [a, b]) of Some v \<Rightarrow> v | None \<Rightarrow> JStr [])"

definition priority_map :: "(string \<times> string) list" where
  "priority_map = [(''P1'', ''critical''), (''P2'', ''high''), (''P3'', ''medium''), (''P4'', ''low''), (''P5'', ''low'')]"

definition pagerduty_severity :: "ingress_lib \<Rightarrow> pagerduty_data \<Rightarrow> string" where
  "pagerduty_severity lib d =
     (case map_of priority_map (upper (strip (py_str lib (either_key ''summary'' ''name'' (pd_priority d))))) of
        Some s \<Rightarrow> s
      | None \<Rightarrow> if lower (strip (pd_urgency d)) = ''low'' then ''low'' else ''high'')"

definition pagerduty_site :: "ingress_lib \<Rightarrow> pagerduty_data \<Rightarrow> string" where
  "pagerduty_site lib d =
     (let v = first_nonempty (map (\<lambda>k. case map_of (pd_custom d) k of None \<Rightarrow> [] | Some v \<Rightarrow> strip (py_str lib v))
            [''site'', ''topology_site'', ''location''])
      in take 128 (if v \<noteq> [] then v else strip (py_str lib (either_key ''summary'' ''name'' (pd_service d)))))"

definition pagerduty_description :: "ingress_lib \<Rightarrow> pagerduty_data \<Rightarrow> string" where
  "pagerduty_description lib d =
     (let title = strip (if pd_title d \<noteq> [] then pd_title d else ''PagerDuty incident'');
          detail = (case map_of (pd_body d) ''details'' of
             Some (JObj ms) \<Rightarrow> join '', '' (map (\<lambda>(k, v). k @ ''='' @ py_str lib v) (sort_key fst ms))
           | Some (JStr s) \<Rightarrow> strip s
           | _ \<Rightarrow> [])
      in if detail \<noteq> [] \<and> detail \<noteq> title then title @ [CHR 0x0A] @ detail else title)"

text \<open>\<open>event_type.replace("incident.", "")\<close> of the two types it is used on.\<close>

definition normalize_pagerduty :: "ingress_lib \<Rightarrow> string \<Rightarrow> string \<Rightarrow> pagerduty_data \<Rightarrow> trigger res" where
  "normalize_pagerduty lib tag event d =
     (let event_type = lower (strip event);
          thread = sanitize_thread_id lib tag (tag @ ''-'' @ (case pd_number d of
             Some n \<Rightarrow> show_int n | None \<Rightarrow> if pd_id d \<noteq> [] then pd_id d else ''unknown''));
          t = open_trigger thread (pagerduty_description lib d) (pagerduty_severity lib d)
                (pagerduty_site lib d) ''pagerduty'' (pd_id d)
      in if event_type = ''incident.resolved'' then Inr (ignored ''resolved'' t)
         else if event_type = ''incident.acknowledged'' then Inr (ignored ''acknowledged'' t)
         else if event_type \<noteq> ''incident.triggered'' then Inl ValueError
         else Inr t)"

text \<open>\<open>verify_pagerduty_signature\<close>; HMAC-SHA256 as hexadecimal text is a parameter.\<close>

definition verify_pagerduty_signature ::
  "(string \<Rightarrow> string \<Rightarrow> string) \<Rightarrow> string \<Rightarrow> string \<Rightarrow> string \<Rightarrow> string \<Rightarrow> bool" where
  "verify_pagerduty_signature hmac_hex secret body timestamp signature =
     (if secret = [] \<or> signature = [] \<or> timestamp = [] then False
      else (if starts_with ''v1='' signature then drop 3 signature else signature) =
           hmac_hex secret (timestamp @ ''.'' @ body))"

section \<open>The generic formats\<close>

record generic_body =
  gb_ticket :: string
  gb_description :: string
  gb_severity :: string
  gb_site :: string
  gb_external :: string

text \<open>The field checks of the two models: \<open>ticket_id\<close> and \<open>incident\<close>, and \<open>description\<close> and \<open>summary\<close>, are
  under the same constraints.\<close>

definition severities :: "string list" where
  "severities = [''low'', ''medium'', ''high'', ''critical'']"

definition generic_ok :: "generic_body \<Rightarrow> bool" where
  "generic_ok b = (thread_id_ok (gb_ticket b) \<and> gb_description b \<noteq> [] \<and> gb_severity b \<in> set severities \<and>
     length (gb_site b) \<le> 128 \<and> length (gb_external b) \<le> 256)"

definition normalize_generic :: "generic_body \<Rightarrow> trigger res" where
  "normalize_generic b =
     (if \<not> generic_ok b then Inl ValueError
      else Inr (open_trigger (gb_ticket b) (gb_description b) (gb_severity b) (strip (gb_site b)) ''generic''
             (strip (gb_external b))))"

section \<open>Facts\<close>

text \<open>What the documented output of SHA-256 in hexadecimal is.\<close>

definition hex_digests :: "ingress_lib \<Rightarrow> bool" where
  "hex_digests lib = (\<forall>x. in_sha lib x \<noteq> [] \<and> list_all is_alnum (in_sha lib x))"

lemma alnum_thread: "is_alnum c \<Longrightarrow> thread_char c"
  by (simp add: thread_char_def)

lemma thread_alnum: "thread_char c \<Longrightarrow> c \<notin> set ''-._:'' \<Longrightarrow> is_alnum c"
  by (auto simp: thread_char_def)

lemma set_dropWhile: "set (dropWhile P xs) \<subseteq> set xs"
  using set_dropWhileD by fastforce

lemma strip_chars_set: "set (strip_chars cs s) \<subseteq> set s"
  using set_dropWhile[of "\<lambda>c. c \<in> set cs" s] set_dropWhile[of "\<lambda>c. c \<in> set cs" "rev (dropWhile (\<lambda>c. c \<in> set cs) s)"]
  by (simp add: strip_chars_def)

lemma strip_chars_hd: "strip_chars cs s \<noteq> [] \<Longrightarrow> hd (strip_chars cs s) \<notin> set cs"
proof -
  let ?a = "dropWhile (\<lambda>c. c \<in> set cs) s"
  assume ne: "strip_chars cs s \<noteq> []"
  have a: "?a \<noteq> []" using ne by (metis strip_chars_def dropWhile.simps(1) rev.simps(1))
  then have h: "hd ?a \<notin> set cs" using hd_dropWhile by metis
  have "rev (dropWhile (\<lambda>c. c \<in> set cs) (rev ?a)) @ rev (takeWhile (\<lambda>c. c \<in> set cs) (rev ?a)) = ?a"
    by (metis rev_append rev_rev_ident takeWhile_dropWhile_id)
  then have "hd (strip_chars cs s) = hd ?a" using ne by (metis hd_append2 strip_chars_def)
  then show ?thesis using h by simp
qed

text \<open>The check for a leading letter or digit never fails: a thread id is always well formed.\<close>

lemma sanitized_id:
  assumes "hex_digests lib"
  shows "thread_id_ok (sanitize_thread_id lib tag value) \<and> length (sanitize_thread_id lib tag value) \<le> 128 \<and>
    is_alnum (hd (sanitize_thread_id lib tag value))"
proof -
  let ?m = "map (\<lambda>c. if thread_char c then c else CHR ''-'') (strip value)"
  let ?c = "strip_chars ''-._:'' ?m"
  define named where "named = (if ?c = [] then take 12 (in_sha lib value) else ?c)"
  have dash: "thread_char (CHR ''-'')" by (simp add: thread_char_def)
  have "set ?c \<subseteq> Collect thread_char" using strip_chars_set[of "''-._:''" ?m] dash by auto
  moreover have sha: "in_sha lib value \<noteq> []" "\<forall>c\<in>set (in_sha lib value). is_alnum c"
    using assms by (auto simp: hex_digests_def list_all_iff)
  ultimately have ok: "named \<noteq> []" "\<forall>c\<in>set named. thread_char c"
    by (auto simp: named_def alnum_thread dest!: in_set_takeD)
  have hd: "is_alnum (hd named)"
  proof (cases "?c = []")
    case True
    then show ?thesis using sha by (cases "in_sha lib value") (auto simp: named_def)
  next
    case False
    then have n: "named = ?c" by (simp add: named_def)
    have "thread_char (hd named)" using ok by simp
    moreover have "hd named \<notin> set ''-._:''" unfolding n by (rule strip_chars_hd[OF False])
    ultimately show ?thesis by (rule thread_alnum)
  qed
  then have "sanitize_thread_id lib tag value = take 128 named"
    by (simp add: sanitize_thread_id_def named_def Let_def)
  then show ?thesis using ok hd by (cases named) (auto simp: thread_id_ok_def list_all_iff dest: in_set_takeD)
qed

lemma alert_severity_ok: "alert_severity ls \<in> set severities"
proof -
  let ?raws = "map (\<lambda>k. lower (strip (label k ls))) [''severity'', ''priority'', ''alert_level'']"
  have "\<forall>(k, v)\<in>set severity_map. v \<in> set severities" by (simp add: severity_map_def severities_def)
  then have "map_of severity_map raw = Some v \<Longrightarrow> v \<in> set severities" for raw v by (auto dest: map_of_SomeD)
  moreover have "''high'' \<in> set severities" by (simp add: severities_def)
  ultimately have "the (map_of severity_map raw) \<in> set severities" if "map_of severity_map raw \<noteq> None" for raw
    using that by (metis option.exhaust_sel)
  moreover have "map_of severity_map raw \<noteq> None" if "List.find (\<lambda>raw. map_of severity_map raw \<noteq> None) ?raws = Some raw" for raw
    using that unfolding find_Some_iff by metis
  ultimately show ?thesis using \<open>''high'' \<in> set severities\<close>
    unfolding alert_severity_def by (simp only: split: option.split) metis
qed

lemma pagerduty_severity_ok: "pagerduty_severity lib d \<in> set severities"
proof -
  have "\<forall>(k, v)\<in>set priority_map. v \<in> set severities" by (simp add: priority_map_def severities_def)
  then have "map_of priority_map raw = Some v \<Longrightarrow> v \<in> set severities" for raw v by (auto dest: map_of_SomeD)
  then show ?thesis by (auto simp: pagerduty_severity_def severities_def split: option.splits)
qed

text \<open>What \<open>trigger_incident\<close> and the incidents table rely on.\<close>

definition trigger_ok :: "trigger \<Rightarrow> bool" where
  "trigger_ok t = (thread_id_ok (tg_thread t) \<and> length (tg_thread t) \<le> 128 \<and> tg_severity t \<in> set severities \<and>
     length (tg_site t) \<le> 128 \<and> tg_action t \<in> {''open'', ''ignore''})"

lemma fingerprint_ok:
  "hex_digests lib \<Longrightarrow> thread_id_ok (fingerprint_id lib tag a ls) \<and> length (fingerprint_id lib tag a ls) \<le> 128"
  unfolding fingerprint_id_def using sanitized_id by blast

lemma open_trigger_ok:
  "thread_id_ok thread \<and> length thread \<le> 128 \<Longrightarrow> severity \<in> set severities \<Longrightarrow> length site \<le> 128 \<Longrightarrow>
     trigger_ok (open_trigger thread d severity site source e) \<and>
     trigger_ok (ignored r (open_trigger thread d severity site source e))"
  by (simp add: trigger_ok_def open_trigger_def ignored_def)

lemma sites_short: "length (alert_site ls s) \<le> 128" "length (pagerduty_site lib d) \<le> 128"
  by (simp_all add: alert_site_def pagerduty_site_def Let_def)

section \<open>Properties\<close>

text \<open>C31. Whatever an Alertmanager or a PagerDuty sends, the trigger it is normalised to is well formed: its
  thread id fits the pattern and has at most 128 characters, its severity is one of the four, its site
  at most 128 characters. An Alertmanager group is opened exactly when it is not marked resolved as a whole, for one
  of its alerts and for a firing one where it has one; a PagerDuty event exactly when it says triggered. A
  generic body is opened as well formed, but for the length of its thread id, which nothing limits.\<close>

theorem normalised_trigger_ok:
  assumes "hex_digests lib"
  shows "(normalize_alertmanager lib tag site b = Inr t \<longrightarrow>
      trigger_ok t \<and> (tg_action t = ''open'' \<longleftrightarrow> ab_status b \<noteq> ''resolved'') \<and>
      (tg_action t = ''open'' \<longrightarrow> (\<exists>a\<in>set (ab_alerts b). tg_external t = al_fingerprint a \<and>
         (al_status a = ''firing'' \<or> (\<forall>x\<in>set (ab_alerts b). al_status x \<noteq> ''firing''))))) \<and>
    (normalize_pagerduty lib tag event d = Inr t \<longrightarrow>
      trigger_ok t \<and> (tg_action t = ''open'' \<longleftrightarrow> lower (strip event) = ''incident.triggered'')) \<and>
    (normalize_generic g = Inr t \<longrightarrow>
      thread_id_ok (tg_thread t) \<and> tg_thread t = gb_ticket g \<and> tg_severity t \<in> set severities \<and>
      length (tg_site t) \<le> 128 \<and> tg_action t = ''open'')"
proof (intro conjI impI)
  note ids = conjunct1[OF sanitized_id[OF assms]] conjunct1[OF conjunct2[OF sanitized_id[OF assms]]]
  assume n: "normalize_alertmanager lib tag site b = Inr t"
  show "trigger_ok t"
    using n ids fingerprint_ok[OF assms]
    by (auto simp: normalize_alertmanager_def Let_def alert_severity_ok sites_short
        intro!: conjunct1[OF open_trigger_ok] conjunct2[OF open_trigger_ok] split: if_splits)
  show action: "tg_action t = ''open'' \<longleftrightarrow> ab_status b \<noteq> ''resolved''"
    using n by (auto simp: normalize_alertmanager_def ignored_def open_trigger_def Let_def split: if_splits)
  assume "tg_action t = ''open''"
  then have s: "ab_status b \<noteq> ''resolved''" using action by simp
  show "\<exists>a\<in>set (ab_alerts b). tg_external t = al_fingerprint a \<and>
      (al_status a = ''firing'' \<or> (\<forall>x\<in>set (ab_alerts b). al_status x \<noteq> ''firing''))"
  proof (cases "List.find (\<lambda>x. al_status x = ''firing'') (ab_alerts b)")
    case None
    then have "\<forall>x\<in>set (ab_alerts b). al_status x \<noteq> ''firing''" by (simp add: find_None_iff)
    then show ?thesis using n s None
      by (intro bexI[of _ "hd (ab_alerts b)"]) (auto simp: normalize_alertmanager_def open_trigger_def Let_def split: if_splits)
  next
    case (Some a)
    then have "a \<in> set (ab_alerts b)" "al_status a = ''firing''" unfolding find_Some_iff by (metis nth_mem)+
    then show ?thesis using n s Some
      by (intro bexI[of _ a]) (auto simp: normalize_alertmanager_def open_trigger_def Let_def split: if_splits)
  qed
next
  note ids = conjunct1[OF sanitized_id[OF assms]] conjunct1[OF conjunct2[OF sanitized_id[OF assms]]]
  assume n: "normalize_pagerduty lib tag event d = Inr t"
  show "trigger_ok t"
    using n ids
    by (auto simp: normalize_pagerduty_def Let_def pagerduty_severity_ok sites_short
        intro!: conjunct1[OF open_trigger_ok] conjunct2[OF open_trigger_ok] split: if_splits)
  show "tg_action t = ''open'' \<longleftrightarrow> lower (strip event) = ''incident.triggered''"
    using n by (auto simp: normalize_pagerduty_def ignored_def open_trigger_def Let_def split: if_splits)
next
  assume n: "normalize_generic g = Inr t"
  then show "thread_id_ok (tg_thread t)" "tg_thread t = gb_ticket g" "tg_severity t \<in> set severities" "tg_action t = ''open''"
    by (auto simp: normalize_generic_def generic_ok_def open_trigger_def split: if_splits)
  have "length (strip (gb_site g)) \<le> length (gb_site g)"
    unfolding strip_def lstrip_def rstrip_def by (metis length_dropWhile_le length_rev order_trans)
  then show "length (tg_site t) \<le> 128"
    using n by (auto simp: normalize_generic_def generic_ok_def open_trigger_def split: if_splits)
qed

definition demo_lib :: ingress_lib where
  "demo_lib = \<lparr>in_sha = (\<lambda>x. ''0a1b2c3d4e5f''), in_repr = (\<lambda>x. []), in_str = (\<lambda>x. [])\<rparr>"

definition demo_event :: pagerduty_data where
  "demo_event = \<lparr>pd_id = ''..'', pd_number = None, pd_title = ''t'', pd_body = [], pd_urgency = ''low'',
     pd_priority = [], pd_service = [], pd_custom = []\<rparr>"

text \<open>A group that is marked firing although its only alert is resolved.\<close>

definition demo_group :: alertmanager_body where
  "demo_group = \<lparr>ab_status = ''firing'', ab_group_labels = [], ab_common_labels = [], ab_common_annotations = [],
     ab_alerts = [\<lparr>al_status = ''resolved'', al_labels = [], al_annotations = [], al_fingerprint = ''f''\<rparr>]\<rparr>"

definition demo_generic :: generic_body where
  "demo_generic = \<lparr>gb_ticket = ''T-1'', gb_description = ''d'', gb_severity = ''low'', gb_site = [], gb_external = []\<rparr>"

theorem resolved_alert_opened:
  "case normalize_alertmanager demo_lib ''AM'' [] demo_group of Inl _ \<Rightarrow> False
     | Inr t \<Rightarrow> tg_action t = ''open'' \<and> list_all (\<lambda>a. al_status a = ''resolved'') (ab_alerts demo_group)"
  by code_simp

lemma normalised_trigger_ok_witness:
  "trigger_ok (the (case normalize_pagerduty demo_lib ''P D'' ''incident.triggered'' demo_event of Inl _ \<Rightarrow> None | Inr t \<Rightarrow> Some t))"
proof -
  have "hex_digests demo_lib" by (simp add: hex_digests_def demo_lib_def is_alnum_def is_alpha_def is_digit_def)
  note ok = normalised_trigger_ok[OF this, of "''P D''" "[]" demo_group _ "''incident.triggered''" demo_event demo_generic]
  obtain t where "normalize_pagerduty demo_lib ''P D'' ''incident.triggered'' demo_event = Inr t"
  proof (cases "normalize_pagerduty demo_lib ''P D'' ''incident.triggered'' demo_event")
    case (Inl e)
    moreover have "\<not> isl (normalize_pagerduty demo_lib ''P D'' ''incident.triggered'' demo_event)" by code_simp
    ultimately show ?thesis by simp
  qed
  then show ?thesis using ok by simp
qed

end
