(* ===== verification/Workflow.thy ===== *)
theory Workflow
  imports Agent Accounts Schedule Jobs Ledger Ingress
begin

text \<open>
  The life of an incident: the trigger (\<open>ingress/trigger.py\<close>, \<open>store/incidents.py\<close>), the decision at
  the gate (\<open>routers/incidents.py\<close>), and the jobs that run the graph (\<open>jobs/runner.py\<close>,
  \<open>jobs/worker.py\<close>) over the shared tables. A request or a job is one step. Tickets and
  notifications are in \<open>Outbound\<close>, metrics and logs are left out, and texts made of values the model keeps
  as constructors are written by the parameter \<open>prose\<close>.
\<close>

section \<open>The shared state\<close>

record incident =
  ic_description :: string
  ic_severity :: string
  ic_site :: string

record system =
  sy_threads :: "(string \<times> thread) list"
  sy_queue :: pg_queue
  sy_ledger :: ledger
  sy_store :: exec_store
  sy_incidents :: "(string \<times> incident) list"

record prose =
  px_reason :: "window_reason \<Rightarrow> string"
  px_next :: "next_open \<Rightarrow> string"
  px_summary :: "summary \<Rightarrow> string"
  px_line :: "line \<Rightarrow> string"
  px_execution :: "exec_result \<Rightarrow> json"
  px_error :: "py_exn \<Rightarrow> string"

text \<open>\<open>sv_pool\<close>: a database is configured, so decisions are kept in the ledger.\<close>

record 'k server =
  sv_crypto :: "'k crypto"
  sv_keys :: "'k keyset"
  sv_auth :: authlib
  sv_login :: auth_state
  sv_pool :: bool
  sv_schedule :: schedule
  sv_agent :: agent_cfg
  sv_executor :: "exec_cfg option"
  sv_prose :: prose

text \<open>The time as the tokens and the queue read it, as the ledger writes it, and as the schedule reads it.\<close>

record clock =
  ck_now :: int
  ck_text :: string
  ck_moment :: moment

section \<open>Triggering\<close>

definition insert_incident :: "string \<Rightarrow> string \<Rightarrow> string \<Rightarrow> string \<Rightarrow> system \<Rightarrow> system" where
  "insert_incident thread description severity site sy =
     sy\<lparr>sy_incidents := al_put thread \<lparr>ic_description = description, ic_severity = severity, ic_site = site\<rparr> (sy_incidents sy)\<rparr>"

definition list_incidents :: "string \<Rightarrow> system \<Rightarrow> (string \<times> incident) list" where
  "list_incidents site sy = filter (\<lambda>(_, i). site = [] \<or> ic_site i = site) (sy_incidents sy)"

definition build_initial :: "trigger \<Rightarrow> string \<Rightarrow> string list \<Rightarrow> json" where
  "build_initial t description flags = JObj
     [(''messages'', JArr [JArr [JStr ''user'', JStr (fence_alert description)]]), (''alert_flags'', JArr (map JStr flags)),
      (''incident_id'', JStr (tg_thread t)), (''active_worker'', JStr []), (''findings_summary'', JStr []),
      (''pending_actions'', JArr []), (''topology_context'', JStr []), (''zone_context'', JStr []),
      (''denied_flows'', JArr []), (''verification'', JArr []), (''verify_attempts'', JInt 0),
      (''reasoning_trace'', JArr []), (''tool_log'', JArr []), (''task_brief'', JStr []), (''human_decision'', JStr []),
      (''human_feedback'', JStr []), (''human_actor'', JStr []), (''operation_key'', JStr []),
      (''topology_site'', JStr (strip (tg_site t))), (''alert_source'', JStr (tg_source t)),
      (''alert_external_id'', JStr (tg_external t))]"

record trigger_result =
  te_status :: string
  te_thread :: string
  te_job :: "int option"
  te_deduped :: bool
  te_source :: string
  te_reason :: string

definition queue_error :: "prose \<Rightarrow> py_exn \<Rightarrow> int \<times> string" where
  "queue_error px e = (503, px_error px e)"

definition trigger_incident :: "'k server \<Rightarrow> clock \<Rightarrow> trigger \<Rightarrow> system \<Rightarrow> trigger_result http \<times> system" where
  "trigger_incident sv ck t sy =
     (if tg_action t = ''ignore''
      then (Inr \<lparr>te_status = ''ignored'', te_thread = tg_thread t, te_job = None, te_deduped = False,
              te_source = tg_source t, te_reason = tg_reason t\<rparr>, sy)
      else if \<not> thread_id_ok (tg_thread t) then (Inl (422, ''thread_id must match ^[A-Za-z0-9._:-]+$''), sy)
      else case sanitize max_alert (tg_description t) of (description, flags) \<Rightarrow>
        let sy1 = insert_incident (tg_thread t) (tg_description t) (tg_severity t) (strip (tg_site t)) sy
        in (case pg_enqueue KStart (tg_thread t) (start_key (tg_thread t))
                   (JObj [(''initial'', build_initial t description flags)]) (ck_now ck) (sy_queue sy1) of
              (Inl e, q) \<Rightarrow> (Inl (queue_error (sv_prose sv) e), sy1\<lparr>sy_queue := q\<rparr>)
            | (Inr (i, created), q) \<Rightarrow>
                (Inr \<lparr>te_status = ''Agent dispatched'', te_thread = tg_thread t, te_job = Some i,
                      te_deduped = \<not> created, te_source = tg_source t, te_reason = []\<rparr>, sy1\<lparr>sy_queue := q\<rparr>)))"

text \<open>\<open>POST /incidents/trigger\<close>; the webhooks call \<open>trigger_incident\<close> with their own credential checks.\<close>

definition trigger_endpoint ::
  "'k server \<Rightarrow> clock \<Rightarrow> request \<Rightarrow> trigger \<Rightarrow> system \<Rightarrow> trigger_result http \<times> system" where
  "trigger_endpoint sv ck rq t sy =
     (case require_role (sv_auth sv) (sv_login sv) Operator False False (ck_now ck) rq of
        Inl e \<Rightarrow> (Inl e, sy) | Inr p \<Rightarrow> trigger_incident sv ck t sy)"

section \<open>The status\<close>

definition summary_closes :: "summary \<Rightarrow> bool" where
  "summary_closes s = (case s of Text t \<Rightarrow> starts_with ''DRY-RUN'' t \<or> starts_with ''APPLIED'' t
     | Executed state _ _ _ \<Rightarrow> state = LOGGED \<or> state = APPLIED)"

definition status_from_snapshot :: "thread option \<Rightarrow> string" where
  "status_from_snapshot snapshot = (case snapshot of
       None \<Rightarrow> ''queued''
     | Some th \<Rightarrow>
         if th_next th = Some Execute then ''awaiting_approval''
         else if summary_closes (ag_summary (th_state th)) then ''resolved''
         else if th_next th \<noteq> None then ''running''
         else if ag_messages (th_state th) \<noteq> [] then ''completed'' else ''queued'')"

definition incident_status :: "string \<Rightarrow> system \<Rightarrow> string http" where
  "incident_status thread sy =
     (let snapshot = map_of (sy_threads sy) thread; failure = latest_error thread (jt_rows (sy_queue sy))
      in if snapshot = None \<and> failure = [] then Inl (404, ''Unknown or still-queued incident'')
         else Inr (if failure \<noteq> [] then ''failed'' else status_from_snapshot snapshot))"

section \<open>The decision\<close>

datatype ruling = Approve | Reject

fun verdict_text :: "ruling \<Rightarrow> string" where
  "verdict_text Approve = ''approve''"
| "verdict_text Reject = ''reject''"

record resume_body =
  rs_verdict :: ruling
  rs_feedback :: string
  rs_override :: bool
  rs_reason :: string

text \<open>The evidence sealed with a decision. Of an action the rationale, which is also the summary, and the
  texts of its own verification are left out.\<close>

definition action_json :: "eaction \<Rightarrow> json" where
  "action_json a = JObj [(''device'', JStr (act_device a)), (''action'', JStr ''add_acl_exception''),
     (''command'', JStr (act_command a)), (''position'', j_opt_int (act_position a)), (''vendor'', JStr (act_vendor a)),
     (''rollback'', JStr (ea_rollback a)), (''rollback_verified'', JBool (ea_rollback_verified a)),
     (''verified'', JBool (ea_verified a))]"

definition flow_json :: "flow \<Rightarrow> json" where
  "flow_json f = JObj [(''src'', JStr (fl_src f)), (''dst'', JStr (fl_dst f)), (''port'', JInt (fl_port f)),
     (''proto'', JStr (fl_proto f))]"

definition evidence_json :: "prose \<Rightarrow> agent_state \<Rightarrow> window_decision \<Rightarrow> (string \<times> string) option \<Rightarrow> json" where
  "evidence_json px st wd override = JObj
     [(''proposed_actions'', JArr (map action_json (ag_pending st))),
      (''verification'', JArr (map (\<lambda>l. JStr (px_line px l)) (ag_verification st))),
      (''denied_flows'', JArr (map flow_json (ag_denied st))),
      (''agent_summary'', JStr (px_summary px (ag_summary st))),
      (''topology_context'', JStr (ag_topology st)),
      (''alert_flags'', JArr (map JStr (ag_flags st))),
      (''change_window'', JObj [(''open'', JBool (wd_open wd)), (''reason'', JStr (px_reason px (wd_reason wd)))]),
      (''window_override'', case override of None \<Rightarrow> JNull
         | Some (r, w) \<Rightarrow> JObj [(''reason'', JStr r), (''window'', JStr w)])]"

text \<open>The three refusals of an approval outside the change window.\<close>

definition window_refusal :: "prose \<Rightarrow> window_decision \<Rightarrow> resume_body \<Rightarrow> principal \<Rightarrow> (int \<times> string) option" where
  "window_refusal px wd body p =
     (if rs_verdict body = Reject \<or> wd_open wd then None
      else if \<not> rs_override body
      then Some (409, ''Change blocked: '' @ px_reason px (wd_reason wd) @ ''.''
             @ (if wd_next wd = No_next then [] else '' Next window opens '' @ px_next px (wd_next wd) @ ''.'')
             @ '' An admin can override with a reason if this cannot wait.'')
      else if pr_role p \<noteq> Admin
      then Some (403, ''Change blocked: '' @ px_reason px (wd_reason wd) @ ''. Only an admin can override it.'')
      else if length (strip (rs_reason body)) < 10
      then Some (422, ''An override needs a written reason; it is kept in the approval record.'')
      else None)"

definition resume_payload :: "string \<Rightarrow> string \<Rightarrow> string \<Rightarrow> string \<Rightarrow> string \<Rightarrow> json" where
  "resume_payload decision feedback actor role key = JObj
     [(''decision'', JStr decision), (''feedback'', JStr feedback), (''actor'', JStr actor), (''actor_role'', JStr role),
      (''operation_key'', JStr key)]"

definition enqueue_resume ::
  "'k server \<Rightarrow> clock \<Rightarrow> string \<Rightarrow> resume_body \<Rightarrow> principal \<Rightarrow> string \<Rightarrow> system \<Rightarrow> int http \<times> system" where
  "enqueue_resume sv ck thread body p hash sy =
     (case pg_enqueue KResume thread (resume_key thread hash)
             (resume_payload (verdict_text (rs_verdict body)) (rs_feedback body) (pr_subject p)
               (role_value (pr_role p)) hash) (ck_now ck) (sy_queue sy) of
        (Inl e, q) \<Rightarrow> (Inl (queue_error (sv_prose sv) e), sy\<lparr>sy_queue := q\<rparr>)
      | (Inr (i, _), q) \<Rightarrow> (Inr i, sy\<lparr>sy_queue := q\<rparr>))"

definition resume_investigation ::
  "'k server \<Rightarrow> clock \<Rightarrow> string \<Rightarrow> resume_body \<Rightarrow> principal \<Rightarrow> system \<Rightarrow> int http \<times> system" where
  "resume_investigation sv ck thread body p sy =
     (case map_of (sy_threads sy) thread of
        None \<Rightarrow> (Inl (409, ''Incident is not awaiting approval''), sy)
      | Some th \<Rightarrow>
          if th_next th \<noteq> Some Execute then (Inl (409, ''Incident is not awaiting approval''), sy)
          else let px = sv_prose sv; wd = evaluate_schedule (sv_schedule sv) (ck_moment ck);
                   override = (if rs_verdict body = Approve \<and> \<not> wd_open wd
                     then Some (strip (rs_reason body), px_reason px (wd_reason wd)) else None)
               in case window_refusal px wd body p of
                    Some e \<Rightarrow> (Inl e, sy)
                  | None \<Rightarrow>
                      if sv_pool sv
                      then (case append_approval (sv_crypto sv) (ks_active (sv_keys sv)) (ck_text ck) thread
                                   (verdict_text (rs_verdict body)) (rs_feedback body) (pr_subject p)
                                   (role_value (pr_role p)) (evidence_json px (th_state th) wd override) (sy_ledger sy) of
                              (Inl e, lg) \<Rightarrow> (Inl (500, ''Internal Server Error''), sy)
                            | (Inr row, lg) \<Rightarrow>
                                enqueue_resume sv ck thread body p (lr_hash row) (sy\<lparr>sy_ledger := lg\<rparr>))
                      else if as_enabled (sv_login sv)
                      then (Inl (503, ''Approval ledger unavailable; refusing to act on an unrecorded decision''), sy)
                      else enqueue_resume sv ck thread body p (''memory:'' @ thread @ '':'' @ verdict_text (rs_verdict body)) sy)"

text \<open>\<open>POST /incidents/{thread_id}/resume\<close>\<close>

definition resume_endpoint ::
  "'k server \<Rightarrow> clock \<Rightarrow> request \<Rightarrow> string \<Rightarrow> resume_body \<Rightarrow> system \<Rightarrow> int http \<times> system" where
  "resume_endpoint sv ck rq thread body sy =
     (case require_role (sv_auth sv) (sv_login sv) Approver True True (ck_now ck) rq of
        Inl e \<Rightarrow> (Inl e, sy) | Inr p \<Rightarrow> resume_investigation sv ck thread body p sy)"

section \<open>Running a job\<close>

text \<open>\<open>str(payload.get(k) or "")\<close> of a payload that holds texts.\<close>

definition payload_text :: "string \<Rightarrow> json \<Rightarrow> string" where
  "payload_text k v = (case v of JObj ms \<Rightarrow> (case map_of ms k of Some (JStr s) \<Rightarrow> s | _ \<Rightarrow> []) | _ \<Rightarrow> [])"

definition j_field :: "string \<Rightarrow> json \<Rightarrow> json option" where
  "j_field k v = (case v of JObj ms \<Rightarrow> map_of ms k | _ \<Rightarrow> None)"

fun state_text :: "exec_state \<Rightarrow> string" where
  "state_text LOGGED = ''logged''"
| "state_text APPLIED = ''applied''"
| "state_text REFUSED = ''refused''"
| "state_text ROLLED_BACK = ''rolled_back''"
| "state_text ROLLBACK_FAILED = ''rollback_failed''"

definition blank_state :: agent_state where
  "blank_state = \<lparr>ag_messages = [], ag_incident = [], ag_worker = [], ag_summary = Text [], ag_pending = [],
     ag_denied = [], ag_verification = [], ag_attempts = 0, ag_execution = None, ag_topology = [], ag_zone = [],
     ag_flags = [], ag_log = [], ag_brief = [], ag_decision = [], ag_feedback = [], ag_actor = [], ag_key = [],
     ag_site = [], ag_elapsed = 0, ag_by_node = []\<rparr>"

definition json_texts :: "string \<Rightarrow> (string \<times> json) list \<Rightarrow> string list" where
  "json_texts k ms = (case map_of ms k of
     Some (JArr vs) \<Rightarrow> List.map_filter (\<lambda>v. case v of JStr s \<Rightarrow> Some s | JArr [_, JStr s] \<Rightarrow> Some s | _ \<Rightarrow> None) vs
   | _ \<Rightarrow> [])"

text \<open>\<open>ainvoke(initial)\<close> on the state of the thread: the fields of \<open>build_initial\<close> overwrite, the messages,
  the log and the elapsed time go through their reducers.\<close>

definition read_initial :: "(string \<times> json) list \<Rightarrow> agent_state \<Rightarrow> agent_state" where
  "read_initial ms st = st\<lparr>ag_messages := ag_messages st @ map User_text (json_texts ''messages'' ms),
     ag_flags := json_texts ''alert_flags'' ms, ag_incident := payload_text ''incident_id'' (JObj ms),
     ag_worker := [], ag_summary := Text [], ag_pending := [], ag_topology := [], ag_zone := [], ag_denied := [],
     ag_verification := [], ag_attempts := 0, ag_brief := [], ag_decision := [], ag_feedback := [], ag_actor := [],
     ag_key := [], ag_site := payload_text ''topology_site'' (JObj ms)\<rparr>"

text \<open>What a job meets outside the tables: the model and the backend of each step, the backend of the
  execution, and whether the run took longer than the budget of the incident.\<close>

record surroundings =
  su_turns :: turns
  su_firewall :: firewall
  su_over_budget :: bool

definition set_thread :: "string \<Rightarrow> thread \<Rightarrow> system \<Rightarrow> system" where
  "set_thread t th sy = sy\<lparr>sy_threads := al_put t th (sy_threads sy)\<rparr>"

text \<open>The end of \<open>_invoke_graph\<close>.\<close>

definition invoked :: "surroundings \<Rightarrow> py_exn option \<Rightarrow> unit res" where
  "invoked su x = (case x of Some e \<Rightarrow> Inl e
     | None \<Rightarrow> if su_over_budget su then Inl (RuntimeError ''investigation exceeded model incident budget'') else Inr ())"

definition run_start :: "'k server \<Rightarrow> surroundings \<Rightarrow> job \<Rightarrow> system \<Rightarrow> unit res \<times> system" where
  "run_start sv su j sy =
     (case j_field ''initial'' (jb_payload j) of
        Some (JObj ms) \<Rightarrow>
          (let st = (case map_of (sy_threads sy) (jb_thread j) of None \<Rightarrow> blank_state | Some th \<Rightarrow> th_state th)
           in case start_graph (sv_agent sv) (su_turns su) (read_initial ms st) of
                (th, x) \<Rightarrow> (invoked su x, set_thread (jb_thread j) th sy))
      | _ \<Rightarrow> (Inl (RuntimeError ''start job is missing initial state''), sy))"

text \<open>\<open>record_execution\<close>: a failure to seal is logged and swallowed.\<close>

definition record_execution :: "'k server \<Rightarrow> clock \<Rightarrow> string \<Rightarrow> string \<Rightarrow> system \<Rightarrow> system" where
  "record_execution sv ck thread subject sy =
     (case Option.bind (map_of (sy_threads sy) thread) (\<lambda>th. ag_execution (th_state th)) of
        None \<Rightarrow> sy
      | Some r \<Rightarrow>
          if \<not> sv_pool sv \<or> xr_state r = LOGGED then sy
          else sy\<lparr>sy_ledger := snd (append_approval (sv_crypto sv) (ks_active (sv_keys sv)) (ck_text ck) thread
                 (''execution:'' @ state_text (xr_state r)) [] ''system'' ''system''
                 (JObj [(''execution'', px_execution (sv_prose sv) r), (''on_behalf_of'', JStr subject)]) (sy_ledger sy))\<rparr>)"

definition job_decision :: "json \<Rightarrow> decision" where
  "job_decision p = \<lparr>de_decision = payload_text ''decision'' p, de_feedback = payload_text ''feedback'' p,
     de_actor = payload_text ''actor'' p, de_key = payload_text ''operation_key'' p\<rparr>"

definition payload_role :: "json \<Rightarrow> role option" where
  "payload_role p = (let r = payload_text ''actor_role'' p in if r = [] then Some Approver else role_of r)"

definition run_resume ::
  "'k server \<Rightarrow> 'w plant \<Rightarrow> clock \<Rightarrow> surroundings \<Rightarrow> job \<Rightarrow> system \<times> 'w \<Rightarrow> unit res \<times> system \<times> 'w" where
  "run_resume sv pl ck su j sw = (case sw of (sy, w) \<Rightarrow>
     (case map_of (sy_threads sy) (jb_thread j) of
        None \<Rightarrow> (Inl (RuntimeError ''no checkpoint''), sy, w)
      | Some th \<Rightarrow>
          (case resume_graph (sv_agent sv) (sv_executor sv) pl (su_firewall su) (su_turns su)
                  (job_decision (jb_payload j)) th (sy_store sy, w) of
             ((th', x), db, w') \<Rightarrow>
               let sy1 = set_thread (jb_thread j) th' (sy\<lparr>sy_store := db\<rparr>);
                   actor = payload_text ''actor'' (jb_payload j)
               in (case invoked su x of
                     Inl e \<Rightarrow> (Inl e, sy1, w')
                   | Inr _ \<Rightarrow>
                       if payload_role (jb_payload j) = None then (Inl ValueError, sy1, w')
                       else (Inr (), record_execution sv ck (jb_thread j)
                               (if actor = [] then ''system'' else actor) sy1, w')))))"

definition run_job ::
  "'k server \<Rightarrow> 'w plant \<Rightarrow> clock \<Rightarrow> surroundings \<Rightarrow> job \<Rightarrow> system \<times> 'w \<Rightarrow> unit res \<times> system \<times> 'w" where
  "run_job sv pl ck su j sw = (case jb_kind j of
     KStart \<Rightarrow> (case run_start sv su j (fst sw) of (r, sy) \<Rightarrow> (r, sy, snd sw))
   | KResume \<Rightarrow> run_resume sv pl ck su j sw)"

text \<open>\<open>min(60, backoff * 2 ** max(attempts - 1, 0))\<close>\<close>

definition retry_delay :: "int \<Rightarrow> int \<Rightarrow> int" where
  "retry_delay backoff tries = min 60 (backoff * 2 ^ nat (max (tries - 1) 0))"

definition run_claimed ::
  "'k server \<Rightarrow> 'w plant \<Rightarrow> int \<Rightarrow> clock \<Rightarrow> surroundings \<Rightarrow> job \<Rightarrow> system \<times> 'w \<Rightarrow> system \<times> 'w" where
  "run_claimed sv pl backoff ck su j sw = (case run_job sv pl ck su j sw of
     (Inr _, sy, w) \<Rightarrow> (sy\<lparr>sy_queue := snd (pg_complete (jb_id j) (sy_queue sy))\<rparr>, w)
   | (Inl e, sy, w) \<Rightarrow>
       (sy\<lparr>sy_queue := snd (pg_fail j (px_error (sv_prose sv) e) (retry_delay backoff (jb_attempts j)) (ck_now ck)
          (sy_queue sy))\<rparr>, w))"

end
