(* ===== verification/Exec_Facts.thy ===== *)
theory Exec_Facts
  imports Executor
begin

text \<open>
  What execution does to a device, stated over the trace of a plant: every refresh, read and push
  is recorded, and the theorems say what the trace of a run can be for each terminal state.
\<close>

section \<open>Traces\<close>

datatype event =
    Ev_refresh string
  | Ev_read string "acl_rule list res"
  | Ev_push string "string list"

definition traced :: "'w plant \<Rightarrow> ('w \<times> event list) plant" where
  "traced pl = \<lparr>
     pl_refresh = (\<lambda>d (w, l). (pl_refresh pl d w, l @ [Ev_refresh d])),
     pl_policy = (\<lambda>d (w, l). let (r, w') = pl_policy pl d w in (r, w', l @ [Ev_read d r])),
     pl_connect = (\<lambda>d (w, l). let (r, w') = pl_connect pl d w in (r, w', l)),
     pl_set = (\<lambda>d cs (w, l). let (r, w') = pl_set pl d cs w in (r, w', l @ [Ev_push d cs])),
     pl_commit = (\<lambda>d (w, l). let (r, w') = pl_commit pl d w in (r, w', l)),
     pl_disconnect = (\<lambda>d (w, l). (pl_disconnect pl d w, l))\<rparr>"

fun pushes :: "event list \<Rightarrow> (string \<times> string list) list" where
  "pushes [] = []"
| "pushes (Ev_push d cs # es) = (d, cs) # pushes es"
| "pushes (_ # es) = pushes es"

lemma pushes_append [simp]: "pushes (xs @ ys) = pushes xs @ pushes ys"
  by (induction xs rule: pushes.induct) auto

text \<open>The reads of \<open>verify_applied\<close> and \<open>verify_reverted\<close>: a refresh and a read for every action.\<close>

definition read_events :: "eaction list \<Rightarrow> acl_rule list list \<Rightarrow> event list" where
  "read_events actions ps = concat (map (\<lambda>(a, p).
     [Ev_refresh (act_device a), Ev_read (act_device a) (Inr p)]) (zip actions ps))"

lemma pushes_read_events [simp]: "pushes (read_events actions ps) = []"
proof -
  have "pushes (concat (map (\<lambda>(a, p). [Ev_refresh (act_device a), Ev_read (act_device a) (Inr p)]) zs)) = []"
    for zs :: "(eaction \<times> acl_rule list) list" by (induction zs) auto
  then show ?thesis by (simp add: read_events_def)
qed

lemma traced_refresh:
  "live_refresh (traced pl) d (w, l) =
     (let (r, w') = live_refresh pl d w in (r, w', l @ [Ev_refresh d, Ev_read d r]))"
  by (simp add: live_refresh_def traced_def split: prod.splits)

lemma traced_read_back:
  "read_back (traced pl) judge actions (w, l) = (Inr (ok, ls), w', l') \<Longrightarrow>
     \<exists>ps. length ps = length actions \<and> l' = l @ read_events actions ps \<and>
       ok = list_all (\<lambda>(a, p). fst (judge a p)) (zip actions ps)"
proof (induction actions arbitrary: w l ok ls w' l')
  case Nil
  then show ?case by (auto simp: read_events_def)
next
  case (Cons a as)
  obtain p w1 where p: "live_refresh pl (act_device a) w = (Inr p, w1)"
    using Cons.prems by (auto simp: traced_refresh split: prod.splits sum.splits)
  obtain ok1 ls1 w2 l2 where
    r: "read_back (traced pl) judge as (w1, l @ [Ev_refresh (act_device a), Ev_read (act_device a) (Inr p)])
        = (Inr (ok1, ls1), w2, l2)" and fin: "ok = (fst (judge a p) \<and> ok1)" "l' = l2"
    using Cons.prems p by (auto simp: traced_refresh split: prod.splits sum.splits)
  from Cons.IH[OF r] obtain ps where "length ps = length as"
    "l2 = l @ [Ev_refresh (act_device a), Ev_read (act_device a) (Inr p)] @ read_events as ps"
    "ok1 = list_all (\<lambda>(a, p). fst (judge a p)) (zip as ps)" by auto
  then show ?case using fin by (intro exI[of _ "p # ps"]) (simp add: read_events_def)
qed

lemma traced_read_back_pushes:
  "pushes (snd (snd (read_back (traced pl) judge actions (w, l)))) = pushes l"
proof (induction actions arbitrary: w l)
  case (Cons a as)
  obtain r w1 where r: "live_refresh pl (act_device a) w = (r, w1)"
    by (cases "live_refresh pl (act_device a) w")
  let ?l = "l @ [Ev_refresh (act_device a), Ev_read (act_device a) r]"
  obtain q w2 l2 where q: "read_back (traced pl) judge as (w1, ?l) = (q, w2, l2)"
    by (cases "read_back (traced pl) judge as (w1, ?l)") auto
  have "pushes l2 = pushes l" using Cons.IH[of w1 ?l] q by simp
  then show ?case using r q by (cases r; cases q) (auto simp: traced_refresh split: prod.splits)
qed simp

lemma traced_landed_pushes: "pushes (snd (snd (already_landed (traced pl) a (w, l)))) = pushes l"
  by (auto simp: already_landed_def traced_refresh split: option.splits prod.splits sum.splits)

text \<open>A push adds its own lines to the trace, if the screen lets them pass and a session opens.\<close>

lemma traced_send:
  assumes "send_config (traced pl) platform d cs (ss, w, l) = (r, ss', w', l')"
  shows "l' = l \<or> l' = l @ [Ev_push d cs] \<and> screen cs = Inr ()"
    and "r = Inr out \<Longrightarrow> l' = l @ [Ev_push d cs] \<and> screen cs = Inr ()"
  using assms
  by (auto simp: send_config_def traced_def Let_def split: sum.splits prod.splits if_splits)

lemma traced_close: "snd (close_all (traced pl) (ss, w, l)) = l"
proof -
  have "snd (foldl (close_session (traced pl)) (w, l) ss) = l" for w
    by (induction ss arbitrary: w) (auto simp: close_session_def traced_def)
  then show ?thesis by (simp add: close_all_def)
qed

section \<open>Only approved lines are pushed\<close>

definition approved :: "string \<Rightarrow> eaction list \<Rightarrow> (string \<times> string list) set" where
  "approved platform actions = {(act_device a, cs) |a cs rb. a \<in> set actions \<and>
     rendered_for a platform rb = Inr cs \<and> screen cs = Inr ()}"

abbreviation trace_of :: "'r \<times> 's \<times> 'w \<times> event list \<Rightarrow> event list" where
  "trace_of out \<equiv> snd (snd (snd out))"

lemma send_approved:
  assumes "a \<in> set actions" and "rendered_for a platform rb = Inr cs"
    and "set (pushes (snd (snd st))) \<subseteq> approved platform actions"
  shows "set (pushes (trace_of (send_config (traced pl) platform (act_device a) cs st)))
    \<subseteq> approved platform actions"
proof -
  obtain ss w l where st: "st = (ss, w, l)" by (cases st)
  obtain r ss' w' l' where out: "send_config (traced pl) platform (act_device a) cs st = (r, ss', w', l')"
    by (cases "send_config (traced pl) platform (act_device a) cs st") auto
  have "l' = l \<or> l' = l @ [Ev_push (act_device a) cs] \<and> screen cs = Inr ()"
    using traced_send(1) out by (simp add: st)
  moreover have "screen cs = Inr () \<Longrightarrow> (act_device a, cs) \<in> approved platform actions"
    using assms(1,2) by (auto simp: approved_def)
  ultimately show ?thesis using assms(3) out by (auto simp: st)
qed

lemma revert_loop_approved:
  "set as \<subseteq> set actions \<Longrightarrow> set (pushes (snd (snd st))) \<subseteq> approved (ec_platform cfg) actions \<Longrightarrow>
     set (pushes (trace_of (revert_loop cfg (traced pl) as ls steps st))) \<subseteq> approved (ec_platform cfg) actions"
proof (induction as arbitrary: ls steps st)
  case (Cons a as)
  show ?case
  proof (cases "rendered_for a (ec_platform cfg) True")
    case (Inr cs)
    obtain r st1 where out: "send_config (traced pl) (ec_platform cfg) (act_device a) cs st = (r, st1)"
      by (cases "send_config (traced pl) (ec_platform cfg) (act_device a) cs st")
    have "set (pushes (snd (snd st1))) \<subseteq> approved (ec_platform cfg) actions"
      using send_approved[OF _ Inr Cons.prems(2), of pl] Cons.prems(1) out by simp
    then show ?thesis using Cons Inr out by (cases r) auto
  qed (use Cons.prems in auto)
qed simp

lemma revert_approved:
  assumes "set (pushes (snd (snd st))) \<subseteq> approved (ec_platform cfg) actions"
  shows "set (pushes (trace_of (revert cfg (traced pl) actions flows steps why ver st)))
    \<subseteq> approved (ec_platform cfg) actions"
proof -
  obtain r ss w l where lp: "revert_loop cfg (traced pl) (rev actions) [Rolling_back why] steps st = (r, ss, w, l)"
    by (cases "revert_loop cfg (traced pl) (rev actions) [Rolling_back why] steps st") auto
  have l: "set (pushes l) \<subseteq> approved (ec_platform cfg) actions"
    using revert_loop_approved[of "rev actions" actions st cfg pl] assms lp by (metis order_refl set_rev snd_conv)
  obtain q w' l' where vr: "verify_reverted (traced pl) actions flows (w, l) = (q, w', l')"
    by (cases "verify_reverted (traced pl) actions flows (w, l)") auto
  have "pushes l' = pushes l"
    using traced_read_back_pushes[of pl "\<lambda>a. reverted_action a flows" actions w l] vr
    by (simp add: verify_reverted_def)
  then show ?thesis using assms l lp vr
    by (auto simp: revert_def split: sum.splits option.splits prod.splits if_splits)
qed

lemma push_loop_approved:
  "set as \<subseteq> set actions \<Longrightarrow> set (pushes (snd (snd st))) \<subseteq> approved (ec_platform cfg) actions \<Longrightarrow>
     set (pushes (trace_of (push_loop cfg (traced pl) idem as steps st))) \<subseteq> approved (ec_platform cfg) actions"
proof (induction as arbitrary: steps st)
  case (Cons a as)
  obtain ss w l where st: "st = (ss, w, l)" by (cases st)
  obtain r1 w1 l1 where land: "(if idem then already_landed (traced pl) a (w, l) else (Inr False, w, l)) = (r1, w1, l1)"
    by (cases "if idem then already_landed (traced pl) a (w, l) else (Inr False, w, l)") auto
  have l1: "set (pushes (snd (snd (ss, w1, l1)))) \<subseteq> approved (ec_platform cfg) actions"
    using land traced_landed_pushes[of pl a w l] Cons.prems(2) by (auto simp: st split: if_splits)
  have as: "set as \<subseteq> set actions" and a: "a \<in> set actions" using Cons.prems(1) by auto
  show ?case
  proof (cases r1)
    case (Inl e)
    then show ?thesis using land l1 by (simp add: st)
  next
    case landed: (Inr b)
    show ?thesis
    proof (cases "rendered_for a (ec_platform cfg) False")
      case (Inl e)
      then show ?thesis using land landed l1 by (simp add: st)
    next
      case (Inr cs)
      obtain r st2 where out: "send_config (traced pl) (ec_platform cfg) (act_device a) cs (ss, w1, l1) = (r, st2)"
        by (cases "send_config (traced pl) (ec_platform cfg) (act_device a) cs (ss, w1, l1)")
      have "set (pushes (snd (snd st2))) \<subseteq> approved (ec_platform cfg) actions"
        using send_approved[OF a Inr l1, of pl] out by simp
      from Cons.IH[OF as this] Cons.IH[OF as l1] show ?thesis
        using land landed Inr out \<open>set (pushes (snd (snd st2))) \<subseteq> approved (ec_platform cfg) actions\<close>
        by (cases r; cases b) (simp_all add: st)
    qed
  qed
qed simp

lemma apply_body_approved:
  assumes "set (pushes (snd (snd st))) \<subseteq> approved (ec_platform cfg) actions"
  shows "set (pushes (trace_of (apply_body cfg (traced pl) idem actions flows st)))
    \<subseteq> approved (ec_platform cfg) actions"
proof -
  obtain r ss w l where lp: "push_loop cfg (traced pl) idem actions [] st = (r, ss, w, l)"
    by (cases "push_loop cfg (traced pl) idem actions [] st") auto
  have l: "set (pushes l) \<subseteq> approved (ec_platform cfg) actions"
    using push_loop_approved[OF order_refl assms, of pl idem "[]"] lp by simp
  obtain q w' l' where va: "verify_applied (traced pl) actions flows (w, l) = (q, w', l')"
    by (cases "verify_applied (traced pl) actions flows (w, l)") auto
  have l': "set (pushes l') \<subseteq> approved (ec_platform cfg) actions"
    using traced_read_back_pushes[of pl "\<lambda>a. applied_action a flows" actions w l] va l
    by (simp add: verify_applied_def)
  show ?thesis
  proof (cases r)
    case (Inl e)
    then show ?thesis using lp l by (simp add: apply_body_def)
  next
    case (Inr p)
    show ?thesis
    proof (cases p)
      case (Stopped steps cmd e)
      then show ?thesis using lp Inr revert_approved[of "(ss, w, l)"] l by (simp add: apply_body_def)
    next
      case (All_sent steps)
      then show ?thesis using lp Inr va l' revert_approved[of "(ss, w', l')"]
        by (auto simp: apply_body_def split: sum.splits)
    qed
  qed
qed

section \<open>What a terminal state says about the device\<close>

lemma applied_action_ok:
  "fst (applied_action a flows p) \<longleftrightarrow>
     (\<forall>e. parse_acl_command (act_command a) = Some e \<longrightarrow> (\<exists>x\<in>set p. live_same_rule x e)) \<and>
     (\<forall>f\<in>set flows. verdict p f = ''permit'')"
proof -
  have f: "fst (applied_flow_line p f) \<longleftrightarrow> verdict p f = ''permit''" for f
    by (auto simp: applied_flow_line_def verdict_def split: prod.splits)
  have r: "fst (applied_rule_lines a p) \<longleftrightarrow>
      (\<forall>e. parse_acl_command (act_command a) = Some e \<longrightarrow> (\<exists>x\<in>set p. live_same_rule x e))"
  proof (cases "parse_acl_command (act_command a)")
    case (Some e)
    show ?thesis
    proof (cases "List.find (\<lambda>r. live_same_rule r e) p")
      case None
      then have "\<forall>x\<in>set p. \<not> live_same_rule x e" by (simp add: find_None_iff)
      then show ?thesis using Some None by (auto simp: applied_rule_lines_def)
    next
      case found: (Some x)
      then have "x \<in> set p" "live_same_rule x e" by (auto simp: find_Some_iff in_set_conv_nth)
      then show ?thesis using Some found by (auto simp: applied_rule_lines_def)
    qed
  qed (simp add: applied_rule_lines_def)
  show ?thesis by (simp add: applied_action_def case_prod_beta Let_def r list_all_iff f)
qed

lemma reverted_action_ok:
  "fst (reverted_action a flows p) \<longleftrightarrow>
     (\<forall>e. parse_acl_command (act_command a) = Some e \<longrightarrow> (\<forall>x\<in>set p. \<not> live_same_rule x e)) \<and>
     (\<forall>f\<in>set flows. verdict p f \<noteq> ''permit'')"
proof -
  have f: "list_all fst (map (reverted_flow_line p) flows) \<longleftrightarrow> (\<forall>f\<in>set flows. verdict p f \<noteq> ''permit'')"
    by (induction flows) (auto simp: reverted_flow_line_def)
  show ?thesis unfolding reverted_action_def Let_def fst_conv f
    by (auto simp: list_ex_iff split: option.splits)
qed

lemma revert_state:
  "revert cfg pl actions flows steps why ver st = (Inr r, st') \<Longrightarrow>
     xr_state r = ROLLED_BACK \<or> xr_state r = ROLLBACK_FAILED"
  by (auto simp: revert_def device_result_def split: sum.splits option.splits prod.splits if_splits)

lemma revert_rolled_back:
  assumes "revert cfg (traced pl) actions flows steps why ver st = (Inr r, st')"
    and "xr_state r = ROLLED_BACK"
  shows "\<exists>before ps. snd (snd st') = before @ read_events actions ps \<and> length ps = length actions \<and>
    list_all (\<lambda>(a, p). fst (reverted_action a flows p)) (zip actions ps)"
proof -
  obtain ls steps' ss w l ok rls w' l' where
    "verify_reverted (traced pl) actions flows (w, l) = (Inr (ok, rls), w', l')" "ok" "st' = (ss, w', l')"
    using assms by (auto simp: revert_def device_result_def split: sum.splits option.splits prod.splits if_splits)
  then show ?thesis
    unfolding verify_reverted_def using traced_read_back by fastforce
qed

lemma apply_body_states:
  assumes "apply_body cfg (traced pl) idem actions flows st = (Inr r, ss, w, l)"
  shows "xr_state r = APPLIED \<Longrightarrow> \<exists>before ps. l = before @ read_events actions ps \<and>
      length ps = length actions \<and> list_all (\<lambda>(a, p). fst (applied_action a flows p)) (zip actions ps)"
    and "xr_state r = ROLLED_BACK \<Longrightarrow> \<exists>before ps. l = before @ read_events actions ps \<and>
      length ps = length actions \<and> list_all (\<lambda>(a, p). fst (reverted_action a flows p)) (zip actions ps)"
    and "xr_state r \<in> {APPLIED, ROLLED_BACK, ROLLBACK_FAILED}"
proof -
  obtain p ss1 w1 l1 where lp: "push_loop cfg (traced pl) idem actions [] st = (Inr p, ss1, w1, l1)"
    using assms by (auto simp: apply_body_def split: sum.splits prod.splits)
  have cases: "(\<exists>steps why ver ss1 w1 l1.
        revert cfg (traced pl) actions flows steps why ver (ss1, w1, l1) = (Inr r, ss, w, l)) \<or>
      xr_state r = APPLIED \<and> (\<exists>ls. verify_applied (traced pl) actions flows (w1, l1) = (Inr (True, ls), w, l))"
  proof (cases p)
    case (Stopped steps cmd e)
    then show ?thesis using assms lp by (auto simp: apply_body_def)
  next
    case (All_sent steps)
    obtain q w2 l2 where va: "verify_applied (traced pl) actions flows (w1, l1) = (q, w2, l2)"
      by (cases "verify_applied (traced pl) actions flows (w1, l1)") auto
    obtain ok ls where q: "q = Inr (ok, ls)"
      using assms lp All_sent va by (cases q) (auto simp: apply_body_def)
    show ?thesis
    proof (cases ok)
      case True
      then show ?thesis using assms lp All_sent va q by (auto simp: apply_body_def device_result_def)
    next
      case False
      then have "revert cfg (traced pl) actions flows steps Verification_failed ls (ss1, w2, l2) = (Inr r, ss, w, l)"
        using assms lp All_sent va q by (simp add: apply_body_def)
      then show ?thesis by blast
    qed
  qed
  show "xr_state r \<in> {APPLIED, ROLLED_BACK, ROLLBACK_FAILED}" using cases revert_state by blast
  show "\<exists>before ps. l = before @ read_events actions ps \<and>
      length ps = length actions \<and> list_all (\<lambda>(a, p). fst (applied_action a flows p)) (zip actions ps)"
    if "xr_state r = APPLIED"
    using cases revert_state that traced_read_back[of pl "\<lambda>a. applied_action a flows" actions w1 l1]
    by (fastforce simp: verify_applied_def)
  show "\<exists>before ps. l = before @ read_events actions ps \<and>
      length ps = length actions \<and> list_all (\<lambda>(a, p). fst (reverted_action a flows p)) (zip actions ps)"
    if "xr_state r = ROLLED_BACK"
  proof -
    obtain steps why ver ss1 w1 l1 where
      "revert cfg (traced pl) actions flows steps why ver (ss1, w1, l1) = (Inr r, ss, w, l)"
      using cases \<open>xr_state r = ROLLED_BACK\<close> by auto
    from revert_rolled_back[OF this \<open>xr_state r = ROLLED_BACK\<close>] show ?thesis by simp
  qed
qed

lemma device_apply_runs:
  assumes "device_apply cfg (traced pl) idem actions flows (w, []) = (Inr r, w', l)" and "xr_state r \<noteq> REFUSED"
  shows "guard_ok actions flows (ec_devices cfg)"
    and "\<exists>ss w1. apply_body cfg (traced pl) idem actions flows ([], w, []) = (Inr r, ss, w1, l)"
proof -
  show g: "guard_ok actions flows (ec_devices cfg)"
    using assms by (auto simp: device_apply_def device_result_def split: if_splits)
  obtain q ss w1 l1 where b: "apply_body cfg (traced pl) idem actions flows ([], w, []) = (q, ss, w1, l1)"
    by (cases "apply_body cfg (traced pl) idem actions flows ([], w, [])") auto
  then have "q = Inr r" "l = l1"
    using assms(1) g traced_close[of pl ss w1 l1] by (auto simp: device_apply_def)
  with b show "\<exists>ss w1. apply_body cfg (traced pl) idem actions flows ([], w, []) = (Inr r, ss, w1, l)" by blast
qed

section \<open>A small device\<close>

text \<open>A device whose configuration is a list of rules: a pushed line adds the rule it states, a line that
  starts with \<open>no\<close> removes every rule that says the same.\<close>

definition lab_set :: "string list \<Rightarrow> acl_rule list \<Rightarrow> acl_rule list" where
  "lab_set cs rules = foldl (\<lambda>rs c. case parse_acl_command c of
       None \<Rightarrow> rs
     | Some r \<Rightarrow> if starts_with ''no '' c then filter (\<lambda>x. \<not> live_same_rule x r) rs else rs @ [r]) rules cs"

definition lab_plant :: "acl_rule list plant" where
  "lab_plant = \<lparr>pl_refresh = (\<lambda>d w. w), pl_policy = (\<lambda>d w. (Inr w, w)), pl_connect = (\<lambda>d w. (Inr (), w)),
     pl_set = (\<lambda>d cs w. (Inr [], lab_set cs w)), pl_commit = (\<lambda>d w. (Inr [], w)),
     pl_disconnect = (\<lambda>d w. w)\<rparr>"

definition lab_cfg :: exec_cfg where
  "lab_cfg = \<lparr>ec_devices = [''fw1''], ec_auto_rollback = True, ec_platform = ''cisco_asa''\<rparr>"

definition lab_action :: "string \<Rightarrow> int \<Rightarrow> eaction" where
  "lab_action acl n = \<lparr>act_device = ''fw1'',
     act_command = ''access-list '' @ acl @ '' permit tcp any any'',
     act_vendor = [], act_position = Some n,
     ea_rollback = ''no access-list '' @ acl @ '' permit tcp any any'',
     ea_verified = True, ea_rollback_verified = True\<rparr>"

definition lab_rules :: "acl_rule list" where
  "lab_rules = [demo_rule 20 ''deny'' ''10.0.0.0/8'' ''r'']"

definition lab_run :: "eaction list \<Rightarrow> exec_result res \<times> acl_rule list \<times> event list" where
  "lab_run actions = device_apply lab_cfg (traced lab_plant) True actions [demo_flow] (lab_rules, [])"

definition ran_to :: "exec_state \<Rightarrow> exec_result res \<times> 'a \<times> 'b \<Rightarrow> bool" where
  "ran_to s out = (case fst out of Inl _ \<Rightarrow> False | Inr r \<Rightarrow> xr_state r = s)"

lemma ran_toE:
  assumes "ran_to s out"
  obtains r where "out = (Inr r, fst (snd out), snd (snd out))" "xr_state r = s"
  using assms by (cases out; cases "fst out") (auto simp: ran_to_def)

lemma device_apply_approved:
  "set (pushes (snd (snd (device_apply cfg (traced pl) idem actions flows (w, [])))))
     \<subseteq> (if guard_ok actions flows (ec_devices cfg) then approved (ec_platform cfg) actions else {})"
proof (cases "guard_ok actions flows (ec_devices cfg)")
  case True
  obtain q ss w1 l where b: "apply_body cfg (traced pl) idem actions flows ([], w, []) = (q, ss, w1, l)"
    by (cases "apply_body cfg (traced pl) idem actions flows ([], w, [])") auto
  then have "set (pushes l) \<subseteq> approved (ec_platform cfg) actions"
    using apply_body_approved[of "([], w, [])" cfg actions pl idem flows] by simp
  then show ?thesis using True b traced_close[of pl ss w1 l] by (simp add: device_apply_def)
qed (simp add: device_apply_def)

section \<open>Properties\<close>

text \<open>C3. Only approved lines reach a device: whatever the plant answers, every push of a run goes to the
  device of an approved action and consists of the lines rendered from that action's command or
  rollback, having passed the screen; and where the guard refuses, nothing is pushed.\<close>

theorem only_approved_lines_pushed:
  "set (pushes (snd (snd (device_apply cfg (traced pl) idem actions flows (w, [])))))
     \<subseteq> (if guard_ok actions flows (ec_devices cfg) then approved (ec_platform cfg) actions else {})"
  by (rule device_apply_approved)

text \<open>The guard admits exactly what was simulated and can be undone: there is an action and evidence,
  and every action is for a device named for execution, passed simulation, has a verified rollback,
  and both its command and its rollback are ACL lines the parser understands.\<close>

theorem guard_admits_exactly:
  "guard_check actions flows allowed = [] \<longleftrightarrow> actions \<noteq> [] \<and> flows \<noteq> [] \<and>
     (\<forall>a\<in>set actions. act_device a \<in> set allowed \<and> ea_verified a \<and> ea_rollback_verified a \<and>
        ea_rollback a \<noteq> [] \<and> is_policy_command (act_command a) \<and> is_policy_command (ea_rollback a))"
  using guard_ok_iff[of actions flows allowed] by (simp add: guard_ok_def)

lemma guard_admits_exactly_witness:
  "guard_check [lab_action ''A'' 10] [demo_flow] [''fw1''] = []"
proof -
  have "is_policy_command (act_command (lab_action ''A'' 10))"
    "is_policy_command (ea_rollback (lab_action ''A'' 10))" by code_simp+
  then show ?thesis
    using guard_admits_exactly[of "[lab_action ''A'' 10]" "[demo_flow]" "[''fw1'']"]
    by (simp add: lab_action_def)
qed

text \<open>C8. \<open>APPLIED\<close> means confirmed by the device: the run ends with a refreshed read for every action, in
  order and after the last push, and in each policy read there the approved rule is present and
  every flow is permitted.\<close>

theorem applied_is_confirmed:
  assumes "device_apply cfg (traced pl) idem actions flows (w, []) = (Inr r, w', l)" and "xr_state r = APPLIED"
  shows "\<exists>before ps. l = before @ read_events actions ps \<and> length ps = length actions \<and>
    (\<forall>(a, p)\<in>set (zip actions ps).
       (\<forall>e. parse_acl_command (act_command a) = Some e \<longrightarrow> (\<exists>x\<in>set p. live_same_rule x e)) \<and>
       (\<forall>f\<in>set flows. verdict p f = ''permit''))"
proof -
  obtain ss w1 where "apply_body cfg (traced pl) idem actions flows ([], w, []) = (Inr r, ss, w1, l)"
    using device_apply_runs(2)[OF assms(1)] assms(2) by auto
  from apply_body_states(1)[OF this assms(2)] obtain before ps where
    x: "l = before @ read_events actions ps" "length ps = length actions"
      "list_all (\<lambda>(a, p). fst (applied_action a flows p)) (zip actions ps)" by blast
  show ?thesis
    by (rule exI[of _ before], rule exI[of _ ps]) (use x in \<open>simp add: applied_action_ok list_all_iff case_prod_beta\<close>)
qed

lemma lab_applied: "ran_to APPLIED (lab_run [lab_action ''A'' 10])"
  by code_simp

lemma applied_is_confirmed_witness:
  "\<exists>before ps. snd (snd (lab_run [lab_action ''A'' 10])) = before @ read_events [lab_action ''A'' 10] ps"
  using lab_applied
proof (rule ran_toE)
  fix r assume "lab_run [lab_action ''A'' 10] = (Inr r, fst (snd (lab_run [lab_action ''A'' 10])),
      snd (snd (lab_run [lab_action ''A'' 10])))" and "xr_state r = APPLIED"
  from applied_is_confirmed[OF this(1)[unfolded lab_run_def] this(2)] show ?thesis
    unfolding lab_run_def by blast
qed

text \<open>C9. \<open>ROLLED_BACK\<close> means the device says so: the run ends with a refreshed read for every action, and in
  each policy read there the rule is gone and no flow of the evidence is permitted any more.\<close>

theorem rolled_back_is_confirmed:
  assumes "device_apply cfg (traced pl) idem actions flows (w, []) = (Inr r, w', l)"
    and "xr_state r = ROLLED_BACK"
  shows "\<exists>before ps. l = before @ read_events actions ps \<and> length ps = length actions \<and>
    (\<forall>(a, p)\<in>set (zip actions ps).
       (\<forall>e. parse_acl_command (act_command a) = Some e \<longrightarrow> (\<forall>x\<in>set p. \<not> live_same_rule x e)) \<and>
       (\<forall>f\<in>set flows. verdict p f \<noteq> ''permit''))"
proof -
  obtain ss w1 where "apply_body cfg (traced pl) idem actions flows ([], w, []) = (Inr r, ss, w1, l)"
    using device_apply_runs(2)[OF assms(1)] assms(2) by auto
  from apply_body_states(2)[OF this assms(2)] obtain before ps where
    x: "l = before @ read_events actions ps" "length ps = length actions"
      "list_all (\<lambda>(a, p). fst (reverted_action a flows p)) (zip actions ps)" by blast
  show ?thesis
    by (rule exI[of _ before], rule exI[of _ ps]) (use x in \<open>simp add: reverted_action_ok list_all_iff case_prod_beta\<close>)
qed

lemma lab_rolled_back: "ran_to ROLLED_BACK (lab_run [lab_action ''A'' 30])"
  by code_simp

lemma rolled_back_is_confirmed_witness:
  "\<exists>before ps. snd (snd (lab_run [lab_action ''A'' 30])) = before @ read_events [lab_action ''A'' 30] ps"
  using lab_rolled_back
proof (rule ran_toE)
  fix r assume "lab_run [lab_action ''A'' 30] = (Inr r, fst (snd (lab_run [lab_action ''A'' 30])),
      snd (snd (lab_run [lab_action ''A'' 30])))" and "xr_state r = ROLLED_BACK"
  from rolled_back_is_confirmed[OF this(1)[unfolded lab_run_def] this(2)] show ?thesis
    unfolding lab_run_def by blast
qed

text \<open>A replayed operation does nothing: once a run that was not refused has been stored under a key,
  asking again under that key returns the stored result and leaves the device and the store as they
  are, whatever actions are passed.\<close>

theorem replay_touches_nothing:
  assumes "apply_once cfg pl actions flows key (db, w) = (Inr r, db', w')" and "key \<noteq> []"
    and "xr_state r \<noteq> REFUSED"
  shows "apply_once cfg pl actions' flows' key (db', w'') = (Inr r, db', w'')"
proof (cases "map_of db key")
  case None
  then have "db' = al_put key r db"
    using assms by (auto simp: apply_once_def split: sum.splits prod.splits)
  then show ?thesis using assms(2) by (simp add: apply_once_def)
next
  case (Some c)
  then have "c = r" "db' = db" using assms(1,2) by (auto simp: apply_once_def)
  then show ?thesis using Some assms(2) by (simp add: apply_once_def)
qed

definition lab_once :: "exec_result res \<times> exec_store \<times> acl_rule list" where
  "lab_once = apply_once lab_cfg lab_plant [lab_action ''A'' 10] [demo_flow] ''op-1'' ([], lab_rules)"

lemma lab_once_applied: "ran_to APPLIED lab_once"
  by code_simp

lemma replay_touches_nothing_witness:
  "apply_once lab_cfg lab_plant [] [] ''op-1'' (fst (snd lab_once), []) =
   (fst lab_once, fst (snd lab_once), [])"
  using lab_once_applied
proof (rule ran_toE)
  fix r assume r: "lab_once = (Inr r, fst (snd lab_once), snd (snd lab_once))" "xr_state r = APPLIED"
  then have e: "apply_once lab_cfg lab_plant [lab_action ''A'' 10] [demo_flow] ''op-1'' ([], lab_rules) =
      (Inr r, fst (snd lab_once), snd (snd lab_once))" unfolding lab_once_def by simp
  have "fst lab_once = Inr r" using r(1) by (metis fst_conv)
  then show ?thesis using replay_touches_nothing[OF e, of "[]" "[]" "[]"] r(2) by simp
qed

text \<open>A read-back that fails leaves the change in place: where every command was accepted but the policy
  cannot be read afterwards, the run ends in the exception of the read and no reversal is pushed,
  whatever \<open>auto_rollback\<close> says.\<close>

theorem read_back_failure_not_reverted:
  assumes "guard_ok actions flows (ec_devices cfg)"
    and "push_loop cfg (traced pl) idem actions [] ([], w, []) = (Inr (All_sent steps), ss, w1, l1)"
    and "fst (verify_applied (traced pl) actions flows (w1, l1)) = Inl e"
  shows "fst (device_apply cfg (traced pl) idem actions flows (w, [])) = Inl e \<and>
    pushes (snd (snd (device_apply cfg (traced pl) idem actions flows (w, [])))) = pushes l1"
proof -
  obtain w2 l2 where va: "verify_applied (traced pl) actions flows (w1, l1) = (Inl e, w2, l2)"
    using assms(3) by (cases "verify_applied (traced pl) actions flows (w1, l1)") auto
  then have "apply_body cfg (traced pl) idem actions flows ([], w, []) = (Inl e, ss, w2, l2)"
    using assms(2) by (simp add: apply_body_def)
  moreover have "pushes l2 = pushes l1"
    using traced_read_back_pushes[of pl "\<lambda>a. applied_action a flows" actions w1 l1] va
    by (simp add: verify_applied_def)
  ultimately show ?thesis using assms(1) traced_close[of pl ss w2 l2] by (simp add: device_apply_def)
qed

definition deaf_plant :: "acl_rule list plant" where
  "deaf_plant = lab_plant\<lparr>pl_policy := (\<lambda>d w. (Inl (RuntimeError ''timeout''), w))\<rparr>"

lemma read_back_failure_not_reverted_witness:
  "pushes (snd (snd (device_apply lab_cfg (traced deaf_plant) False [lab_action ''A'' 10] [demo_flow] (lab_rules, [])))) =
     [(''fw1'', [''access-list A line 10 permit tcp any any''])]"
proof -
  let ?as = "[lab_action ''A'' 10]" and ?c = "[''access-list A line 10 permit tcp any any'']"
  let ?w = "lab_set ?c lab_rules"
  have g: "guard_ok ?as [demo_flow] (ec_devices lab_cfg)" by code_simp
  have r: "rendered_for (lab_action ''A'' 10) (ec_platform lab_cfg) False = Inr ?c" and s: "screen ?c = Inr ()"
    by code_simp+
  have p: "push_loop lab_cfg (traced deaf_plant) False ?as [] ([], lab_rules, []) =
      (Inr (All_sent [step_ok ?c []]), [(''fw1'', True)], ?w, [Ev_push ''fw1'' ?c])"
    using r s by (simp add: send_config_def traced_def deaf_plant_def lab_plant_def lab_action_def lab_cfg_def)
  have v: "fst (verify_applied (traced deaf_plant) ?as [demo_flow] (?w, [Ev_push ''fw1'' ?c])) =
      Inl (RuntimeError ''timeout'')"
    by (simp add: verify_applied_def live_refresh_def traced_def deaf_plant_def)
  show ?thesis using conjunct2[OF read_back_failure_not_reverted[OF g p v]] by simp
qed

text \<open>A command the screen refuses ends as a failed rollback although nothing was sent: where both the
  command and the rollback of a single action are refused, the run reports that the device is in a
  state nobody approved, with an empty list of pushes.\<close>

theorem screened_out_reported_as_failed_rollback:
  assumes "guard_ok [a] flows (ec_devices cfg)" and "ec_auto_rollback cfg"
    and "rendered_for a (ec_platform cfg) False = Inr cs" and "screen cs = Inl e"
    and "rendered_for a (ec_platform cfg) True = Inr cs'" and "cs' \<noteq> []" and "screen cs' = Inl e'"
  shows "\<exists>r w' l. device_apply cfg (traced pl) False [a] flows (w, []) = (Inr r, w', l) \<and>
    xr_state r = ROLLBACK_FAILED \<and> pushes l = []"
proof -
  let ?ss = "[(act_device a, False)]"
  have s: "send_config (traced pl) (ec_platform cfg) (act_device a) cs ([], w, []) = (Inl e, ?ss, w, [])"
    "send_config (traced pl) (ec_platform cfg) (act_device a) cs' (?ss, w, []) = (Inl e', ?ss, w, [])"
    using assms(4,7) by (simp_all add: send_config_def)
  then have "apply_body cfg (traced pl) False [a] flows ([], w, []) =
      (Inr (device_result ROLLBACK_FAILED (map Raw_command cs' @ [Rollback_also_failed (act_device a) e'])
         [step_failed cs e, step_failed cs' e'] []), ?ss, w, [])"
    using assms(2-6) by (simp add: apply_body_def revert_def)
  then show ?thesis
    using assms(1) traced_close[of pl ?ss w "[]"]
    by (cases "close_all (traced pl) (?ss, w, [])") (auto simp: device_apply_def device_result_def)
qed

lemma screened_out_reported_as_failed_rollback_witness:
  "\<exists>r w' l. device_apply lab_cfg (traced lab_plant) False [lab_action ''INFORMATION'' 10] [demo_flow] (lab_rules, []) =
     (Inr r, w', l) \<and> xr_state r = ROLLBACK_FAILED \<and> pushes l = []"
proof (rule screened_out_reported_as_failed_rollback)
  let ?a = "lab_action ''INFORMATION'' 10"
  show "rendered_for ?a (ec_platform lab_cfg) False =
      Inr [''access-list INFORMATION line 10 permit tcp any any'']" by code_simp
  show "rendered_for ?a (ec_platform lab_cfg) True =
      Inr [''no access-list INFORMATION line 10 permit tcp any any'']" by code_simp
  show "screen [''access-list INFORMATION line 10 permit tcp any any''] =
      Inl (UnsafeCommand ''access-list INFORMATION line 10 permit tcp any any'')"
    by code_simp
  show "screen [''no access-list INFORMATION line 10 permit tcp any any''] =
      Inl (UnsafeCommand ''no access-list INFORMATION line 10 permit tcp any any'')"
    by code_simp
qed code_simp+

end
