(* ===== verification/Agent_Facts.thy ===== *)
theory Agent_Facts
  imports Agent Exec_Facts
begin

text \<open>
  What an investigation can do to the gate: every action that waits for approval was queued by
  \<open>propose_policy_change\<close> with the flags of its own simulation, and only after three refusals
  without a positive one; a rejection runs nothing and empties the gate; an action that was not
  verified is never carried out.
\<close>

section \<open>What waits at the gate\<close>

text \<open>The pending action was judged against the backend of one of the first \<open>n\<close> steps.\<close>

definition judged_at_gate :: "agent_cfg \<Rightarrow> turns \<Rightarrow> nat \<Rightarrow> agent_state \<Rightarrow> bool" where
  "judged_at_gate cfg env n st =
     (\<exists>i<n. \<exists>d c p report rb.
        (let bk = snd (env i); a = proposed_action bk d c p
         in device_name d \<and> d \<in> set (tp_known (context_topology cfg st)) \<and>
            ag_pending st = [judged_action a report rb] \<and>
            verify_change [a] (ag_denied st) (firewall.truncate bk) = Inr report \<and>
            (\<exists>rollback. verify_rollback a (ag_denied st) (firewall.truncate bk) rollback = Inr rb) \<and>
            (rp_ok report \<and> rb_ok rb \<or> max_verify_attempts \<le> ag_attempts st)))"

named_theorems turn_defs \<open>the definitions of a turn and of the tools\<close>

lemmas [turn_defs] = handle_path_trace_def handle_blast_radius_def handle_security_boundary_def
  handle_delegate_def handle_resolve_def handle_denied_flows_def handle_acl_hits_def only_text_def

lemma context_say [simp]:
  "context_topology cfg (say ms ls st) = context_topology cfg st"
  "context_topology cfg (add_timing n s st) = context_topology cfg st"
  by (simp_all add: context_topology_def say_def add_timing_def)

lemma agent_say [simp]:
  "ag_pending (say ms ls st) = ag_pending st" "ag_denied (say ms ls st) = ag_denied st"
  "ag_attempts (say ms ls st) = ag_attempts st" "ag_site (say ms ls st) = ag_site st"
  "ag_pending (add_timing n s st) = ag_pending st" "ag_denied (add_timing n s st) = ag_denied st"
  "ag_attempts (add_timing n s st) = ag_attempts st" "ag_site (add_timing n s st) = ag_site st"
  by (simp_all add: say_def add_timing_def)

lemma device_field_name: "device_field k args = Some d \<Longrightarrow> device_name d"
  by (auto simp: device_field_def Option.bind_eq_Some_conv split: if_splits)

lemma propose_args_name: "propose_args f args = Some (Propose_args d c r p rb) \<Longrightarrow> device_name d"
  by (auto simp: propose_args_def Option.bind_eq_Some_conv dest: device_field_name)

lemma if_or: "(if b then x else y) = z \<Longrightarrow> x = z \<or> y = z"
  by (cases b) auto

lemma delegate_is_no_proposal:
  "(case v of Some (JArr vs) \<Rightarrow> map_option (Delegate_args x) (g vs) | _ \<Rightarrow> None) \<noteq> Some (Propose_args d c r p rb)"
proof (cases v)
  case (Some j)
  then show ?thesis by (cases j) auto
qed simp

lemma validate_propose:
  assumes "validate_args f call = Some (Propose_args d c r p rb)"
  shows "device_name d"
proof -
  have "propose_args f (tc_args call) = Some (Propose_args d c r p rb)"
    using assms unfolding validate_args_def Let_def
    by (auto dest!: if_or simp: two_devices_def Option.bind_eq_Some_conv delegate_is_no_proposal)
  then show ?thesis by (rule propose_args_name)
qed

text \<open>Only a proposal sends the run to the gate.\<close>

lemma path_stays: "handle_path_trace tp d d' = Inr t \<Longrightarrow> tr_goto t = None"
proof -
  assume h: "handle_path_trace tp d d' = Inr t"
  show ?thesis
  proof (cases "d \<in> set (tp_known tp) \<and> d' \<in> set (tp_known tp)")
    case False
    with h show ?thesis by (auto simp: handle_path_trace_def only_text_def split: if_splits)
  next
    case True
    with h obtain p where "tp_path tp d d' = Inr p" by (cases "tp_path tp d d'") (auto simp: handle_path_trace_def)
    with h True show ?thesis
      by (cases p) (auto simp: handle_path_trace_def only_text_def split: if_splits)
  qed
qed

lemma blast_stays: "handle_blast_radius tp d = Inr t \<Longrightarrow> tr_goto t = None"
  unfolding handle_blast_radius_def only_text_def
  by (auto simp: res_bind_Inr split: if_splits)

lemma boundary_stays: "handle_security_boundary tp d d' = Inr t \<Longrightarrow> tr_goto t = None"
  unfolding handle_security_boundary_def only_text_def
  by (auto split: if_splits option.splits)

lemma denied_stays: "handle_denied_flows tp bk d d' port = Inr t \<Longrightarrow> tr_goto t = None"
  unfolding handle_denied_flows_def only_text_def
  by (auto simp: res_bind_Inr split: if_splits option.splits)

lemma hits_stay: "handle_acl_hits bk d r = Inr t \<Longrightarrow> tr_goto t = None"
  unfolding handle_acl_hits_def only_text_def by (auto simp: res_bind_Inr)

lemma others_go:
  "tr_goto (handle_delegate st c ds) \<in> {None, Some (Goto Specialist)}"
  "tr_goto (handle_resolve s) = Some Goto_end"
  by (simp_all add: handle_delegate_def handle_resolve_def only_text_def)

lemmas read_tools_stay = path_stays blast_stays boundary_stays denied_stays hits_stay

lemma tool_to_gate:
  assumes t: "run_tool tp bk st args = Inr t" and g: "tr_goto t = Some (Goto Execute)"
  obtains d c r p rb where "args = Propose_args d c r p rb" "handle_propose tp bk st d c r p rb = Inr t"
proof (cases args)
  case (Propose_args d c r p rb)
  with t show ?thesis by (intro that) (simp_all add: run_tool_def)
next
  case (Delegate_args c ds)
  then have "t = handle_delegate st c ds" using t by (simp add: run_tool_def)
  then show ?thesis using g others_go(1)[of st c ds] by simp
next
  case (Resolve_args s)
  then have "t = handle_resolve s" using t by (simp add: run_tool_def)
  then show ?thesis using g others_go(2)[of s] by simp
qed (use t g in \<open>auto simp: run_tool_def dest: read_tools_stay\<close>)

lemma propose_to_gate:
  assumes "handle_propose tp bk st d c rationale p rollback = Inr t" and "tr_goto t = Some (Goto Execute)"
  obtains report rb where
    "d \<in> set (tp_known tp)"
    "verify_change [proposed_action bk d c p] (ag_denied st) (firewall.truncate bk) = Inr report"
    "verify_rollback (proposed_action bk d c p) (ag_denied st) (firewall.truncate bk) rollback = Inr rb"
    "tr_update t = (\<lambda>st. st\<lparr>ag_pending := [judged_action (proposed_action bk d c p) report rb],
       ag_summary := Text rationale, ag_verification := rp_lines report @ rb_lines rb\<rparr>)"
    "rp_ok report \<and> rb_ok rb \<or> max_verify_attempts \<le> ag_attempts st"
  using assms
  by (auto simp: handle_propose_def Let_def res_bind_Inr only_text_def split: if_splits)

lemma call_to_gate:
  assumes "run_call cfg n bk content call inferred st (add_timing n s st) = Inr (Goto Execute, st')"
    and "n \<noteq> Execute" and "snd (env i) = bk" and "i < m"
  shows "judged_at_gate cfg env m st'"
proof -
  obtain args t where args: "validate_args (cf_int cfg) call = Some args"
    and t: "run_tool (context_topology cfg st) bk st args = Inr t"
    and g: "(case tr_goto t of None \<Rightarrow> Goto n | Some g \<Rightarrow> g) = Goto Execute"
    and st': "st' = say [Ai_call content call, Tool_result (tr_text t)]
                 (inferred @ [Called (tc_name call) (tr_text t)]) (tr_update t (add_timing n s st))"
    using assms(1,2) by (auto simp: run_call_def res_bind_Inr split: if_splits option.splits)
  have "tr_goto t = Some (Goto Execute)" using g assms(2) by (cases "tr_goto t") auto
  with t obtain d c r p rb where a: "args = Propose_args d c r p rb"
    and h: "handle_propose (context_topology cfg st) bk st d c r p rb = Inr t"
    by (rule tool_to_gate)
  obtain report rbr where f: "d \<in> set (tp_known (context_topology cfg st))"
    "verify_change [proposed_action bk d c p] (ag_denied st) (firewall.truncate bk) = Inr report"
    "verify_rollback (proposed_action bk d c p) (ag_denied st) (firewall.truncate bk) rb = Inr rbr"
    and u: "tr_update t = (\<lambda>st. st\<lparr>ag_pending := [judged_action (proposed_action bk d c p) report rbr],
       ag_summary := Text r, ag_verification := rp_lines report @ rb_lines rbr\<rparr>)"
    and ok: "rp_ok report \<and> rb_ok rbr \<or> max_verify_attempts \<le> ag_attempts st"
    using propose_to_gate[OF h \<open>tr_goto t = Some (Goto Execute)\<close>] by metis
  have site: "context_topology cfg st' = context_topology cfg st"
    by (simp add: st' u) (simp add: context_topology_def add_timing_def)
  have "device_name d" using args a validate_propose by blast
  moreover have "ag_pending st' = [judged_action (proposed_action bk d c p) report rbr]"
    "ag_denied st' = ag_denied st" "ag_attempts st' = ag_attempts st"
    by (simp_all add: st' u)
  ultimately show ?thesis
    using assms(3,4) f ok unfolding judged_at_gate_def Let_def site by metis
qed

lemma turn_to_gate:
  assumes "run_xml_turn cfg n ask (snd (env i)) st = Inr (Goto Execute, st')" and "n \<noteq> Execute" and "i < m"
  shows "judged_at_gate cfg env m st'"
  using assms
  by (auto simp: run_xml_turn_def res_bind_Inr Let_def split: option.splits if_splits
      intro: call_to_gate[where bk = "snd (env i)" and i = i])

text \<open>The gate is only reached through a proposal of the same run.\<close>

lemma run_graph_step:
  assumes "n \<noteq> Execute"
  shows "run_graph cfg env (Suc fuel) n st =
     (case run_xml_turn cfg n (fst (env fuel)) (snd (env fuel)) st of
        Inl e \<Rightarrow> (\<lparr>th_state = st, th_next = Some n\<rparr>, Some e)
      | Inr (Goto_end, st') \<Rightarrow> (\<lparr>th_state = st', th_next = None\<rparr>, None)
      | Inr (Goto n', st') \<Rightarrow> run_graph cfg env fuel n' st')"
  using assms by (cases n) auto

lemma run_graph_gate: "run_graph cfg env fuel Execute st = (\<lparr>th_state = st, th_next = Some Execute\<rparr>, None)"
  by (cases fuel) simp_all

lemma run_to_gate:
  "run_graph cfg env fuel n st = (th, x) \<Longrightarrow> n \<noteq> Execute \<Longrightarrow> th_next th = Some Execute \<Longrightarrow> fuel \<le> m \<Longrightarrow>
     judged_at_gate cfg env m (th_state th) \<and> x = None"
proof (induction fuel arbitrary: n st)
  case 0
  then show ?case by (cases n) auto
next
  case (Suc fuel)
  then obtain n' st' where t: "run_xml_turn cfg n (fst (env fuel)) (snd (env fuel)) st = Inr (Goto n', st')"
    and r: "run_graph cfg env fuel n' st' = (th, x)"
    by (auto simp: run_graph_step split: sum.splits goto.splits prod.splits)
  show ?case
  proof (cases "n' = Execute")
    case True
    then have "judged_at_gate cfg env m st'"
      using t Suc.prems(2,4) by (intro turn_to_gate[where i = fuel and n = n and st = st]) auto
    then show ?thesis using r True by (auto simp: run_graph_gate)
  next
    case False
    then show ?thesis using Suc.IH[OF r] Suc.prems by simp
  qed
qed

section \<open>A run of the laboratory\<close>

definition demo_inventory :: devices where
  "demo_inventory =
    [(''A'', \<lparr>dv_zone = ''DMZ'', dv_neighbors = [''fw1''], dv_ip = Some ''10.0.0.5'', dv_site = []\<rparr>),
     (''fw1'', \<lparr>dv_zone = ''DMZ'', dv_neighbors = [''A''], dv_ip = Some ''10.1.0.9'', dv_site = []\<rparr>)]"

definition demo_agent :: agent_cfg where
  "demo_agent = \<lparr>cf_parse = (\<lambda>_. None), cf_infer = (\<lambda>_ _. None),
     cf_int = (\<lambda>v. case v of JInt n \<Rightarrow> Some n | _ \<Rightarrow> None), cf_fallback = False, cf_node_budget = 0,
     cf_incident_budget = 0, cf_store = Memory demo_inventory\<rparr>"

definition demo_backend :: backend where
  "demo_backend = firewall.extend (demo_fw 20)
     \<lparr>bk_denied = (\<lambda>_. Inr [demo_flow]), bk_hits = (\<lambda>_ _. Inr []), bk_platform = []\<rparr>"

definition demo_calls :: "tool_call list" where
  "demo_calls =
    [\<lparr>tc_name = ''propose_policy_change'', tc_args = [(''device_id'', JStr ''fw1''),
       (''command'', JStr ''permit tcp host 10.0.0.5 host 10.1.0.9 eq 443''), (''rationale'', JStr ''r''),
       (''position'', JInt 10)]\<rparr>,
     \<lparr>tc_name = ''get_denied_flows'', tc_args = [(''source_device'', JStr ''A''), (''target_device'', JStr ''fw1'')]\<rparr>,
     \<lparr>tc_name = ''delegate_to_firewall_specialist'', tc_args = [(''context'', JStr ''c''), (''target_devices'', JArr [])]\<rparr>,
     \<lparr>tc_name = ''trace_network_path'', tc_args = [(''source_device'', JStr ''A''), (''target_device'', JStr ''fw1'')]\<rparr>]"

text \<open>The steps count down, so the last call is made first.\<close>

definition demo_turns :: "nat \<Rightarrow> turns" where
  "demo_turns k i = ((\<lambda>_. if k \<le> i \<and> i - k < length demo_calls
      then Inr \<lparr>re_content = [], re_calls = [demo_calls ! (i - k)], re_seconds = 1\<rparr> else Inl TypeError),
     demo_backend)"

definition demo_start :: agent_state where
  "demo_start = \<lparr>ag_messages = [], ag_incident = ''INC-1'', ag_worker = [], ag_summary = Text [], ag_pending = [],
     ag_denied = [], ag_verification = [], ag_attempts = 0, ag_execution = None, ag_topology = [], ag_zone = [],
     ag_flags = [], ag_log = [], ag_brief = [], ag_decision = [], ag_feedback = [], ag_actor = [], ag_key = [],
     ag_site = [], ag_elapsed = 0, ag_by_node = []\<rparr>"

definition demo_gate :: "thread \<times> py_exn option" where
  "demo_gate = start_graph demo_agent (demo_turns 12) demo_start"

lemma demo_gate_waits: "th_next (fst demo_gate) = Some Execute \<and> list_all ea_verified (ag_pending (th_state (fst demo_gate)))"
  by code_simp

section \<open>Properties\<close>

text \<open>C4. Whatever a model answers, an investigation that stops for approval has exactly one pending
  action: it names a device the inventory of the incident knows, by a well-formed name, its flags are
  those of the simulation against the backend of its own step and of the flows still on record, and it
  is unverified only after three refused proposals.\<close>

theorem gate_holds_judged_action:
  assumes "start_graph cfg env st = (th, x)" and "th_next th = Some Execute"
  shows "judged_at_gate cfg env recursion_limit (th_state th) \<and> x = None"
  using assms unfolding start_graph_def by (intro run_to_gate[where m = recursion_limit]) auto

lemma gate_holds_judged_action_witness:
  "judged_at_gate demo_agent (demo_turns 12) recursion_limit (th_state (fst demo_gate))"
  using gate_holds_judged_action[of demo_agent "demo_turns 12" demo_start "fst demo_gate" "snd demo_gate"] demo_gate_waits
  by (simp add: demo_gate_def)

lemma resume_reject:
  assumes "th_next th = Some Execute" and "lower (strip (de_decision d)) = ''reject''"
  shows "resume_graph cfg ex pl fw env d th es =
    (run_graph cfg env (recursion_limit - 1) Specialist (reject_change (with_decision d (th_state th))), es)"
  using assms by (simp add: resume_graph_def execute_change_def decision_of_def with_decision_def Let_def)

text \<open>A rejection contacts no device and forgets no stored result, whatever was pending, and the
  incident waits for approval again only with an action judged after the rejection.\<close>

theorem rejection_runs_nothing:
  assumes "th_next th = Some Execute" and "lower (strip (de_decision d)) = ''reject''"
    and "resume_graph cfg ex pl fw env d th es = ((th', x), es')"
  shows "es' = es \<and> (th_next th' = Some Execute \<longrightarrow> judged_at_gate cfg env recursion_limit (th_state th'))"
proof -
  have r: "run_graph cfg env (recursion_limit - 1) Specialist (reject_change (with_decision d (th_state th))) = (th', x)"
    and "es' = es"
    using assms(3) unfolding resume_reject[OF assms(1,2)] by auto
  then show ?thesis using run_to_gate[OF r, of recursion_limit] by auto
qed

definition demo_decision :: "string \<Rightarrow> decision" where
  "demo_decision verb = \<lparr>de_decision = verb, de_feedback = ''f'', de_actor = ''eng'', de_key = ''k''\<rparr>"

text \<open>A rejection answered by the same proposal again.\<close>

definition demo_rejected :: "(thread \<times> py_exn option) \<times> exec_store \<times> acl_rule list" where
  "demo_rejected = resume_graph demo_agent (Some lab_cfg) lab_plant (demo_fw 20) (demo_turns 14)
     (demo_decision ''reject'') (fst demo_gate) ([], lab_rules)"

lemma demo_rejected_waits: "th_next (fst (fst demo_rejected)) = Some Execute"
  by code_simp

lemma rejection_runs_nothing_witness:
  "snd demo_rejected = ([], lab_rules) \<and>
   judged_at_gate demo_agent (demo_turns 14) recursion_limit (th_state (fst (fst demo_rejected)))"
proof -
  have "lower (strip (de_decision (demo_decision ''reject''))) = ''reject''" by code_simp
  moreover have "resume_graph demo_agent (Some lab_cfg) lab_plant (demo_fw 20) (demo_turns 14)
     (demo_decision ''reject'') (fst demo_gate) ([], lab_rules) =
     ((fst (fst demo_rejected), snd (fst demo_rejected)), snd demo_rejected)"
    by (simp add: demo_rejected_def)
  ultimately show ?thesis
    using rejection_runs_nothing demo_gate_waits demo_rejected_waits by metis
qed

text \<open>C24. An action that was not verified is never carried out, whatever is decided: unless the very
  operation has a stored result, executing the change leaves the devices and the store as they are.\<close>

theorem unverified_never_carried_out:
  assumes "a \<in> set (ag_pending st)" and "\<not> ea_verified a" and "map_of db (strip (ag_key st)) = None"
  shows "snd (execute_change ex pl fw st (db, w)) = (db, w)"
proof -
  have g: "\<not> guard_ok (ag_pending st) flows allowed" for flows allowed
    using assms(1,2) by (auto simp: guard_ok_iff)
  have e: "snd (run_executor ex pl (ag_pending st) flows (strip (ag_key st)) (db, w)) = (db, w)" for flows
    using assms(3) by (auto simp: run_executor_def apply_once_def device_apply_def g device_result_def split: option.splits)
  show ?thesis
  proof (cases "decision_of st = ''reject''")
    case True
    then show ?thesis by (simp add: execute_change_def)
  next
    case False
    show ?thesis
    proof (cases "verify_change (map action.truncate (ag_pending st)) (ag_denied st) fw")
      case (Inr report)
      obtain r es' where "run_executor ex pl (ag_pending st) (ag_denied st) (strip (ag_key st)) (db, w) = (r, es')"
        by (cases "run_executor ex pl (ag_pending st) (ag_denied st) (strip (ag_key st)) (db, w)")
      moreover from this e have "es' = (db, w)" by (metis snd_conv)
      ultimately show ?thesis using Inr False by (cases r) (simp_all add: execute_change_def)
    qed (simp add: execute_change_def False)
  qed
qed

definition demo_unverified :: agent_state where
  "demo_unverified = demo_start\<lparr>ag_pending := [(lab_action ''A'' 10)\<lparr>ea_verified := False\<rparr>],
     ag_denied := [demo_flow], ag_decision := ''approve''\<rparr>"

lemma unverified_never_carried_out_witness:
  "snd (execute_change (Some lab_cfg) lab_plant (demo_fw 20) demo_unverified ([], lab_rules)) = ([], lab_rules)"
  by (rule unverified_never_carried_out[of "(lab_action ''A'' 10)\<lparr>ea_verified := False\<rparr>"])
    (simp_all add: demo_unverified_def)

end
