(* ===== verification/Workflow_Facts.thy ===== *)
theory Workflow_Facts
  imports Workflow Agent_Facts
begin

text \<open>
  What holds of every history of triggers, decisions, claims and runs: nothing is pushed to a device
  without a sealed approval of somebody entitled to give one, and only verified actions are; and
  what does not hold: an approval is not bound to the proposal it was given for.
\<close>

section \<open>Histories\<close>

definition holds :: "job \<Rightarrow> job list \<Rightarrow> bool" where
  "holds j js = (\<exists>r\<in>set js. jb_id r = jb_id j \<and> jb_kind r = jb_kind j \<and> jb_thread r = jb_thread j \<and>
     jb_payload r = jb_payload j \<and> 0 < jb_attempts r)"

text \<open>A run of a job: the job, the actions that were waiting at the gate of its thread when it began, and what it
  did to the devices. A history holds the tables, the devices, and the runs so far; a worker runs a job it
  once claimed.\<close>

record run =
  rn_job :: job
  rn_gate :: "eaction list"
  rn_events :: "event list"

definition at_gate :: "job \<Rightarrow> system \<Rightarrow> eaction list" where
  "at_gate j sy = (case map_of (sy_threads sy) (jb_thread j) of
     None \<Rightarrow> [] | Some th \<Rightarrow> if th_next th = Some Execute then ag_pending (th_state th) else [])"

definition all_pushes :: "run list \<Rightarrow> (string \<times> string list) list" where
  "all_pushes rs = concat (map (\<lambda>r. pushes (rn_events r)) rs)"

type_synonym 'w history = "system \<times> 'w \<times> run list"

inductive workflow_step :: "'k server \<Rightarrow> 'w plant \<Rightarrow> int \<Rightarrow> 'w history \<Rightarrow> 'w history \<Rightarrow> bool"
  for sv pl backoff where
  trigger: "workflow_step sv pl backoff (sy, w, l) (snd (trigger_endpoint sv ck rq t sy), w, l)"
| webhook: "workflow_step sv pl backoff (sy, w, l) (snd (trigger_incident sv ck t sy), w, l)"
| decide: "workflow_step sv pl backoff (sy, w, l) (snd (resume_endpoint sv ck rq thread body sy), w, l)"
| claim: "workflow_step sv pl backoff (sy, w, l)
    (sy\<lparr>sy_queue := snd (pg_claim worker lease now (sy_queue sy))\<rparr>, w, l)"
| heartbeat: "workflow_step sv pl backoff (sy, w, l)
    (sy\<lparr>sy_queue := snd (pg_heartbeat i worker lease now (sy_queue sy))\<rparr>, w, l)"
| rotate: "workflow_step sv pl backoff (sy, w, l)
    (sy\<lparr>sy_ledger := snd (ensure_rotation_record (sv_crypto sv) (sv_keys sv) now_text (sy_ledger sy))\<rparr>, w, l)"
| work: "holds j (jt_rows (sy_queue sy)) \<Longrightarrow>
    run_claimed sv (traced pl) backoff ck su j (sy, (w, [])) = (sy', (w', l')) \<Longrightarrow>
    workflow_step sv pl backoff (sy, w, l) (sy', w', l @ [\<lparr>rn_job = j, rn_gate = at_gate j sy, rn_events = l'\<rparr>])"

inductive workflow_reachable :: "'k server \<Rightarrow> 'w plant \<Rightarrow> int \<Rightarrow> 'w history \<Rightarrow> bool"
  for sv pl backoff where
  start: "sy_threads sy = [] \<Longrightarrow> jt_rows (sy_queue sy) = [] \<Longrightarrow> workflow_reachable sv pl backoff (sy, w, [])"
| step: "workflow_reachable sv pl backoff h \<Longrightarrow> workflow_step sv pl backoff h h' \<Longrightarrow> workflow_reachable sv pl backoff h'"

section \<open>Sealed decisions\<close>








section \<open>What a run pushes\<close>




section \<open>The queue and the ledger along a step\<close>

definition gist :: "job \<Rightarrow> job_kind \<times> string \<times> json" where
  "gist j = (jb_kind j, jb_thread j, jb_payload j)"

lemma gist_updates [simp]:
  "gist (expire now j) = gist j" "gist (lease_to w l now j) = gist j" "gist (extend_lease l now j) = gist j"
  "gist (succeed j) = gist j" "gist (bury e j) = gist j" "gist (requeue e t j) = gist j"
  by (simp_all add: gist_def expire_def lease_to_def extend_lease_def succeed_def bury_def requeue_def)

lemma gist_map: "(\<And>j. gist (f j) = gist j) \<Longrightarrow> map gist (map f js) = map gist js"
  by simp









section \<open>The invariant\<close>















section \<open>Two decisions at one gate\<close>

definition demo_propose :: "string \<Rightarrow> tool_call" where
  "demo_propose acl = \<lparr>tc_name = ''propose_policy_change'', tc_args = [(''device_id'', JStr ''fw1''),
     (''command'', JStr (''access-list '' @ acl @ '' permit tcp host 10.0.0.5 host 10.1.0.9 eq 443'')),
     (''rationale'', JStr ''r''), (''position'', JInt 10)]\<rparr>"

definition demo_denied :: tool_call where
  "demo_denied = \<lparr>tc_name = ''get_denied_flows'', tc_args = [(''source_device'', JStr ''A''), (''target_device'', JStr ''fw1'')]\<rparr>"

text \<open>A model that proposes for the list \<open>acl\<close> as soon as the flows are known.\<close>

definition demo_model :: "tool_call list \<Rightarrow> nat \<Rightarrow> surroundings" where
  "demo_model calls k = \<lparr>su_turns = (\<lambda>i. ((\<lambda>_. if k \<le> i \<and> i - k < length calls
      then Inr \<lparr>re_content = [], re_calls = [calls ! (i - k)], re_seconds = 1\<rparr> else Inl TypeError), demo_backend)),
     su_firewall = demo_fw 20, su_over_budget = False\<rparr>"

definition demo_prose :: prose where
  "demo_prose = \<lparr>px_reason = (\<lambda>_. []), px_next = (\<lambda>_. []), px_summary = (\<lambda>_. []), px_line = (\<lambda>_. []),
     px_execution = (\<lambda>_. JNull), px_error = (\<lambda>_. [])\<rparr>"

definition demo_server :: "string server" where
  "demo_server = \<lparr>sv_crypto = plain_crypto, sv_keys = demo_keyset, sv_auth = plain_auth,
     sv_login = \<lparr>as_enabled = True, as_service_token = [], as_jwt_secret = ''key'', as_mfa_required = True\<rparr>,
     sv_pool = True, sv_schedule = \<lparr>sc_windows = [], sc_freezes = []\<rparr>, sv_agent = demo_agent,
     sv_executor = Some lab_cfg, sv_prose = demo_prose\<rparr>"

definition demo_clock :: clock where
  "demo_clock = \<lparr>ck_now = 60, ck_text = ''t'', ck_moment = \<lparr>mo_day = 1, mo_clock = 0\<rparr>\<rparr>"

definition demo_approver :: request where
  "demo_approver = \<lparr>rq_method = ''POST'', rq_authorization = [],
     rq_cookie = Some (plain_encode \<lparr>cl_sub = Some ''a'', cl_role = Some ''approver'', cl_kind = Some ''user'',
       cl_iss = issuer, cl_iat = 0, cl_exp = 99, cl_mfa = Some True, cl_csrf = Some ''x''\<rparr> ''key''),
     rq_csrf_header = ''x'', rq_forwarded = [], rq_client = None\<rparr>"

definition demo_trigger :: trigger where
  "demo_trigger = open_trigger ''I'' ''d'' ''high'' [] ''api'' []"

definition demo_body :: "ruling \<Rightarrow> resume_body" where
  "demo_body v = \<lparr>rs_verdict = v, rs_feedback = [], rs_override = False, rs_reason = []\<rparr>"

definition demo_empty :: system where
  "demo_empty = \<lparr>sy_threads = [], sy_queue = \<lparr>jt_rows = [], jt_next = 1, pg_capacity = 9, pg_max_attempts = 3\<rparr>,
     sy_ledger = \<lparr>lg_rows = [], lg_sink = NullSink\<rparr>, sy_store = [], sy_incidents = []\<rparr>"

text \<open>A decision of the ledger and the commands its evidence shows.\<close>

definition sealed :: "ledger_row \<Rightarrow> string \<times> string list" where
  "sealed row = (ar_decision row, (case j_field ''proposed_actions'' (ar_evidence row) of
       Some (JArr as) \<Rightarrow> map (\<lambda>a. case j_field ''command'' a of Some (JStr s) \<Rightarrow> s | _ \<Rightarrow> []) as
     | _ \<Rightarrow> []))"

definition demo_claim :: "system \<times> 'w \<times> 't \<Rightarrow> system \<times> 'w \<times> 't" where
  "demo_claim h = (case h of (sy, w, l) \<Rightarrow> (sy\<lparr>sy_queue := snd (pg_claim ''w'' 30 60 (sy_queue sy))\<rparr>, w, l))"

definition demo_decide :: "ruling \<Rightarrow> system \<times> 'w \<times> 't \<Rightarrow> system \<times> 'w \<times> 't" where
  "demo_decide v h = (case h of (sy, w, l) \<Rightarrow>
     (snd (resume_endpoint demo_server demo_clock demo_approver ''I'' (demo_body v) sy), w, l))"

definition demo_held :: "nat \<Rightarrow> system \<times> 'w \<times> 't \<Rightarrow> bool" where
  "demo_held k h = (case h of (sy, w, l) \<Rightarrow> k < length (jt_rows (sy_queue sy)) \<and> 0 < jb_attempts (jt_rows (sy_queue sy) ! k))"

text \<open>The run of the \<open>k\<close>-th job as a step of a history, and its evaluation on the mere events.\<close>

definition demo_work :: "nat \<Rightarrow> surroundings \<Rightarrow> acl_rule list history \<Rightarrow> acl_rule list history" where
  "demo_work k su h = (case h of (sy, w, l) \<Rightarrow>
     (case run_claimed demo_server (traced lab_plant) 1 demo_clock su (jt_rows (sy_queue sy) ! k) (sy, w, []) of
        (sy', w', l') \<Rightarrow> (sy', w', l @ [\<lparr>rn_job = jt_rows (sy_queue sy) ! k, rn_gate = at_gate (jt_rows (sy_queue sy) ! k) sy,
          rn_events = l'\<rparr>])))"

type_synonym trace = "system \<times> acl_rule list \<times> event list"

definition trace_work :: "nat \<Rightarrow> surroundings \<Rightarrow> trace \<Rightarrow> trace" where
  "trace_work k su h = (case h of (sy, w, l) \<Rightarrow>
     (case run_claimed demo_server (traced lab_plant) 1 demo_clock su (jt_rows (sy_queue sy) ! k) (sy, w, []) of
        (sy', w', l') \<Rightarrow> (sy', w', l @ l')))"

definition flat :: "acl_rule list history \<Rightarrow> trace" where
  "flat h = (case h of (sy, w, rs) \<Rightarrow> (sy, w, concat (map rn_events rs)))"

lemma flat_steps [simp]:
  "flat (demo_work k su h) = trace_work k su (flat h)" "flat (demo_claim h) = demo_claim (flat h)"
  "flat (demo_decide v h) = demo_decide v (flat h)" "demo_held k (flat h) = demo_held k h"
  by (simp_all add: flat_def demo_work_def trace_work_def demo_claim_def demo_decide_def demo_held_def split: prod.split)

text \<open>The incident waits with a proposal for the list \<open>A\<close>; it is rejected and approved; the rejection is
  carried out first, the specialist proposes for the list \<open>B\<close>, and the approval carries that out.\<close>

definition demo_waiting :: "(nat \<Rightarrow> surroundings \<Rightarrow> 'h \<Rightarrow> 'h) \<Rightarrow> 'h \<Rightarrow> 'h" where
  "demo_waiting work h = work 0 (demo_model (demo_propose ''A'' # tl demo_calls) 12) h"

definition demo_triggered :: "system \<times> acl_rule list \<times> 'a list" where
  "demo_triggered = demo_claim (snd (trigger_incident demo_server demo_clock demo_trigger demo_empty), lab_rules, [])"

definition demo_decided :: "system \<times> 'w \<times> 't \<Rightarrow> system \<times> 'w \<times> 't" where
  "demo_decided h = demo_claim (demo_claim (demo_decide Approve (demo_decide Reject h)))"

definition demo_revised :: "(nat \<Rightarrow> surroundings \<Rightarrow> 'h \<Rightarrow> 'h) \<Rightarrow> 'h \<Rightarrow> 'h" where
  "demo_revised work h = work 1 (demo_model [demo_propose ''B''] 14) h"

definition demo_applied :: "(nat \<Rightarrow> surroundings \<Rightarrow> 'h \<Rightarrow> 'h) \<Rightarrow> 'h \<Rightarrow> 'h" where
  "demo_applied work h = work 2 (demo_model [] 0) h"

lemma flat_demos [simp]:
  "flat (demo_waiting demo_work h) = demo_waiting trace_work (flat h)"
  "flat (demo_revised demo_work h) = demo_revised trace_work (flat h)"
  "flat (demo_applied demo_work h) = demo_applied trace_work (flat h)"
  "flat (demo_decided h) = demo_decided (flat h)" "flat demo_triggered = demo_triggered"
  by (simp_all add: demo_waiting_def demo_revised_def demo_applied_def demo_decided_def demo_triggered_def)
    (simp add: flat_def demo_claim_def)

definition demo_outcome :: "trace \<Rightarrow> (string \<times> string list) list \<times> (string \<times> string list) list" where
  "demo_outcome h = (case h of (sy, w, l) \<Rightarrow> (pushes l, map sealed (lg_rows (sy_ledger sy))))"

definition demo_third :: "trace \<Rightarrow> bool \<times> (string \<times> string list) list \<times> (string \<times> string list) list" where
  "demo_third h = (demo_held 2 h, demo_outcome (demo_applied trace_work h))"

definition demo_second :: "trace \<Rightarrow> bool \<times> bool \<times> (string \<times> string list) list \<times> (string \<times> string list) list" where
  "demo_second h = (demo_held 1 h, demo_third (demo_revised trace_work h))"

definition demo_first :: "trace \<Rightarrow> bool \<times> bool \<times> bool \<times> (string \<times> string list) list \<times> (string \<times> string list) list" where
  "demo_first h = (demo_held 0 h, demo_second (demo_decided (demo_waiting trace_work h)))"

definition demo_line :: "string \<Rightarrow> string \<Rightarrow> string" where
  "demo_line acl line = ''access-list '' @ acl @ line @ '' permit tcp host 10.0.0.5 host 10.1.0.9 eq 443''"

lemma demo_run: "demo_first demo_triggered =
    (True, True, True, [(''fw1'', [demo_line ''B'' '' line 10''])],
     [(''reject'', [demo_line ''A'' []]), (''approve'', [demo_line ''A'' []])])"
  by code_simp

lemma plays_trigger: "workflow_reachable demo_server lab_plant 1 demo_triggered"
  unfolding demo_triggered_def demo_claim_def prod.case
  by (rule workflow_reachable.step[OF workflow_reachable.step[OF workflow_reachable.start]];
      (rule workflow_step.claim workflow_step.webhook)?) (simp_all add: demo_empty_def)

lemma plays_claim: "workflow_reachable sv pl b h \<Longrightarrow> workflow_reachable sv pl b (demo_claim h)"
  by (cases h) (auto simp: demo_claim_def intro: workflow_reachable.step workflow_step.claim)

lemma plays_decide: "workflow_reachable demo_server pl b h \<Longrightarrow> workflow_reachable demo_server pl b (demo_decide v h)"
  by (cases h) (auto simp: demo_decide_def intro: workflow_reachable.step workflow_step.decide)

lemma plays_work:
  assumes "workflow_reachable demo_server lab_plant 1 h" and "demo_held k h"
  shows "workflow_reachable demo_server lab_plant 1 (demo_work k su h)"
proof -
  obtain sy w l where h: "h = (sy, w, l)" by (cases h)
  let ?js = "jt_rows (sy_queue sy)"
  have "holds (?js ! k) ?js" using assms(2) by (auto simp: h holds_def demo_held_def intro: nth_mem)
  moreover obtain sy' w' l' where
    "run_claimed demo_server (traced lab_plant) 1 demo_clock su (?js ! k) (sy, w, []) = (sy', w', l')"
    by (cases "run_claimed demo_server (traced lab_plant) 1 demo_clock su (?js ! k) (sy, w, [])")
  ultimately show ?thesis
    using assms(1) workflow_reachable.step workflow_step.work by (fastforce simp: h demo_work_def)
qed

definition demo_final :: "acl_rule list history" where
  "demo_final = demo_applied demo_work (demo_revised demo_work (demo_decided (demo_waiting demo_work demo_triggered)))"

lemma demo_parts:
  "demo_held 0 (demo_triggered :: acl_rule list history)"
  "demo_held 1 (demo_decided (demo_waiting demo_work demo_triggered))"
  "demo_held 2 (demo_revised demo_work (demo_decided (demo_waiting demo_work demo_triggered)))"
  "demo_outcome (flat demo_final) = ([(''fw1'', [demo_line ''B'' '' line 10''])],
     [(''reject'', [demo_line ''A'' []]), (''approve'', [demo_line ''A'' []])])"
  using demo_run flat_steps(4)[symmetric, of _ demo_triggered]
    flat_steps(4)[symmetric, of _ "demo_decided (demo_waiting demo_work demo_triggered)"]
    flat_steps(4)[symmetric, of _ "demo_revised demo_work (demo_decided (demo_waiting demo_work demo_triggered))"]
  unfolding demo_first_def demo_second_def demo_third_def demo_final_def flat_demos by simp_all

lemma demo_reached: "workflow_reachable demo_server lab_plant 1 demo_final"
proof -
  let ?wait = "demo_waiting demo_work demo_triggered"
  have "workflow_reachable demo_server lab_plant 1 ?wait"
    unfolding demo_waiting_def by (rule plays_work[OF plays_trigger demo_parts(1)])
  then have "workflow_reachable demo_server lab_plant 1 (demo_decided ?wait)"
    unfolding demo_decided_def by (intro plays_claim plays_decide)
  then have "workflow_reachable demo_server lab_plant 1 (demo_revised demo_work (demo_decided ?wait))"
    unfolding demo_revised_def by (rule plays_work) (rule demo_parts(2))
  then show ?thesis
    unfolding demo_final_def demo_applied_def by (rule plays_work) (rule demo_parts(3)[unfolded demo_applied_def])
qed

lemma pushed_flat: "pushes (snd (snd (flat h))) = all_pushes (snd (snd h))"
proof -
  have "pushes (concat (map rn_events rs)) = all_pushes rs" for rs by (induction rs) (simp_all add: all_pushes_def)
  then show ?thesis by (cases h) (simp add: flat_def)
qed

lemma demo_pushed:
  "all_pushes (snd (snd demo_final)) = [(''fw1'', [demo_line ''B'' '' line 10''])]"
  "map sealed (lg_rows (sy_ledger (fst demo_final))) =
     [(''reject'', [demo_line ''A'' []]), (''approve'', [demo_line ''A'' []])]"
  using demo_parts(4) pushed_flat[of demo_final]
  by (auto simp: demo_outcome_def flat_def case_prod_beta)

section \<open>Properties\<close>



text \<open>C37. An approval is not bound to the proposal it was given for. Two people may decide at one gate: when
  the rejection is carried out first and the specialist proposes again, the approval, whose sealed evidence
  shows the first proposal, carries out the second one, which nobody has seen. Here both rows of the ledger show
  the command for the list \<open>A\<close> and the device gets the command for the list \<open>B\<close>.\<close>
theorem approval_not_bound_to_proposal:
  "\<exists>sy w l. workflow_reachable demo_server lab_plant 1 (sy, w, l) \<and>
     all_pushes l = [(''fw1'', [demo_line ''B'' '' line 10''])] \<and>
     map sealed (lg_rows (sy_ledger sy)) = [(''reject'', [demo_line ''A'' []]), (''approve'', [demo_line ''A'' []])]"
proof (intro exI conjI)
  show "workflow_reachable demo_server lab_plant 1 (fst demo_final, fst (snd demo_final), snd (snd demo_final))"
    using demo_reached by simp
  show "all_pushes (snd (snd demo_final)) = [(''fw1'', [demo_line ''B'' '' line 10''])]"
    by (simp add: demo_pushed)
  show "map sealed (lg_rows (sy_ledger (fst demo_final))) =
      [(''reject'', [demo_line ''A'' []]), (''approve'', [demo_line ''A'' []])]"
    by (simp add: demo_pushed)
qed

end
