(* ===== verification/Resilience.thy ===== *)
theory Resilience
  imports Prelude
begin

text \<open>
  The bounds around a model call (\<open>app/jobs/resilience.py\<close>): the time limit of one call, the retries
  with their growing pauses, and the circuit breaker all callers share. Times are whole seconds. What
  the wrapped operation does at each attempt, and how long it would take, is a function of the number of the
  attempt; the locks of the breaker make each of its operations one step.
\<close>

section \<open>Errors\<close>

datatype exn_class = Circuit_open | Os_error | Other_error string

record model_exn =
  mx_class :: exn_class
  mx_text :: string

definition circuit_open :: model_exn where
  "circuit_open = \<lparr>mx_class = Circuit_open, mx_text = ''inference circuit is open''\<rparr>"

definition timed_out :: "int \<Rightarrow> model_exn" where
  "timed_out t = \<lparr>mx_class = Os_error, mx_text = ''model call exceeded '' @ show_int t @ ''s''\<rparr>"

text \<open>\<open>assert last_error is not None\<close>\<close>

definition assertion_error :: model_exn where
  "assertion_error = \<lparr>mx_class = Other_error ''AssertionError'', mx_text = []\<rparr>"

definition transient_needles :: "string list" where
  "transient_needles =
     [''timeout'', ''timed out'', ''connection'', ''temporarily'', ''unavailable'', ''503'']"

text \<open>\<open>_default_transient\<close>; \<open>Os_error\<close> stands for the classes of \<open>OSError\<close>, of which the timeout and the
  connection errors are.\<close>

definition default_transient :: "model_exn \<Rightarrow> bool" where
  "default_transient x = (case mx_class x of
     Other_error n \<Rightarrow> list_ex (\<lambda>w. is_substring w (lower n) \<or> is_substring w (lower (mx_text x))) transient_needles
   | _ \<Rightarrow> True)"

section \<open>The breaker\<close>

record breaker =
  br_threshold :: int
  br_reset :: int
  br_failures :: int
  br_opened :: "int option"

definition allow :: "int \<Rightarrow> breaker \<Rightarrow> bool" where
  "allow now b = (case br_opened b of None \<Rightarrow> True | Some t \<Rightarrow> now - t \<ge> br_reset b)"

definition record_success :: "breaker \<Rightarrow> breaker" where
  "record_success b = b\<lparr>br_failures := 0, br_opened := None\<rparr>"

definition record_failure :: "int \<Rightarrow> breaker \<Rightarrow> breaker" where
  "record_failure now b =
     (let n = br_failures b + 1
      in if n \<ge> br_threshold b then b\<lparr>br_failures := n, br_opened := Some now\<rparr> else b\<lparr>br_failures := n\<rparr>)"

definition breaker_state :: "int \<Rightarrow> breaker \<Rightarrow> string" where
  "breaker_state now b = (case br_opened b of
     None \<Rightarrow> ''closed'' | Some t \<Rightarrow> if now - t \<ge> br_reset b then ''half_open'' else ''open'')"

definition breaker_snapshot :: "int \<Rightarrow> breaker \<Rightarrow> json" where
  "breaker_snapshot now b = JObj [(''state'', JStr (breaker_state now b)), (''failures'', JInt (br_failures b)),
     (''threshold'', JInt (br_threshold b)), (''reset_seconds'', JInt (br_reset b))]"

section \<open>Retries\<close>

text \<open>What an attempt ends with, and after how long.\<close>

type_synonym 'v trial = "(model_exn + 'v) \<times> int"

record retry_cfg =
  rc_timeout :: int
  rc_retries :: int
  rc_backoff :: int
  rc_transient :: "model_exn \<Rightarrow> bool"

definition run_with_timeout :: "int \<Rightarrow> 'v trial \<Rightarrow> 'v trial" where
  "run_with_timeout limit t = (if snd t > limit then (Inl (timed_out limit), limit) else t)"

text \<open>The loop, from attempt \<open>k\<close> on with \<open>left\<close> attempts to go; the number counts the calls made.\<close>

fun retry_loop :: "retry_cfg \<Rightarrow> (nat \<Rightarrow> 'v trial) \<Rightarrow> nat \<Rightarrow> nat \<Rightarrow> int \<times> breaker \<times> nat
    \<Rightarrow> (model_exn + 'v) \<times> int \<times> breaker \<times> nat" where
  "retry_loop cfg op 0 k st = (Inl assertion_error, st)"
| "retry_loop cfg op (Suc left) k (now, b, n) = (case run_with_timeout (rc_timeout cfg) (op k) of
     (Inr v, d) \<Rightarrow> (Inr v, now + d, record_success b, Suc n)
   | (Inl x, d) \<Rightarrow>
       if mx_class x = Circuit_open then (Inl x, now + d, b, Suc n)
       else if \<not> rc_transient cfg x \<or> left = 0 then (Inl x, now + d, record_failure (now + d) b, Suc n)
       else retry_loop cfg op left (Suc k) (now + d + rc_backoff cfg * int k, b, Suc n))"

definition call_with_retry :: "retry_cfg \<Rightarrow> (nat \<Rightarrow> 'v trial) \<Rightarrow> int \<times> breaker
    \<Rightarrow> (model_exn + 'v) \<times> int \<times> breaker \<times> nat" where
  "call_with_retry cfg op st = (case st of (now, b) \<Rightarrow>
     if \<not> allow now b then (Inl circuit_open, now, b, 0)
     else retry_loop cfg op (nat (rc_retries cfg + 1)) 1 (now, b, 0))"

section \<open>Facts about the retries\<close>

text \<open>The pauses after the attempts \<open>k, k + 1, \<dots>\<close>, \<open>m\<close> of them.\<close>

fun pauses :: "int \<Rightarrow> nat \<Rightarrow> nat \<Rightarrow> int" where
  "pauses pause k 0 = 0"
| "pauses pause k (Suc m) = pause * int k + pauses pause (Suc k) m"

lemma pauses_nonneg: "0 \<le> pause \<Longrightarrow> 0 \<le> pauses pause k m"
  by (induction m arbitrary: k) auto

lemma pauses_closed: "2 * pauses pause k m = pause * int m * (2 * int k + int m - 1)"
proof (induction m arbitrary: k)
  case (Suc m)
  show ?case using Suc.IH[of "Suc k"] by (simp add: algebra_simps)
qed simp

lemma run_with_timeout_bounded:
  "run_with_timeout limit t = (r, d) \<Longrightarrow> 0 \<le> limit \<Longrightarrow> 0 \<le> snd t \<Longrightarrow> 0 \<le> d \<and> d \<le> limit"
  by (auto simp: run_with_timeout_def split: if_splits)

lemma retry_loop_bounded:
  assumes "0 \<le> rc_timeout cfg" and "0 \<le> rc_backoff cfg" and "\<And>i. 0 \<le> snd (op i)"
    and "retry_loop cfg op (Suc left) k (now, b, n) = (r, now', b', n')"
  shows "n < n' \<and> n' \<le> n + Suc left \<and>
    now' \<le> now + int (Suc left) * rc_timeout cfg + pauses (rc_backoff cfg) k left"
  using assms(4)
proof (induction left arbitrary: k now b n)
  case 0
  obtain x d where x: "run_with_timeout (rc_timeout cfg) (op k) = (x, d)" by fastforce
  with run_with_timeout_bounded[OF x assms(1,3)] 0 show ?case by (auto split: sum.splits if_splits)
next
  case (Suc left)
  obtain x d where x: "run_with_timeout (rc_timeout cfg) (op k) = (x, d)" by fastforce
  from run_with_timeout_bounded[OF x assms(1,3)] have d: "d \<le> rc_timeout cfg" by simp
  show ?case
  proof (cases "\<exists>e. x = Inl e \<and> mx_class e \<noteq> Circuit_open \<and> rc_transient cfg e")
    case True
    then have "retry_loop cfg op (Suc left) (Suc k) (now + d + rc_backoff cfg * int k, b, Suc n) = (r, now', b', n')"
      using Suc.prems x by auto
    from Suc.IH[OF this] show ?thesis using d by (auto simp: algebra_simps)
  next
    case False
    then have "now' = now + d" "n' = Suc n"
      using Suc.prems x by (auto split: sum.splits if_splits)
    moreover have "0 \<le> pauses (rc_backoff cfg) k (Suc left)" "0 \<le> int (Suc left) * rc_timeout cfg"
      using assms(1,2) pauses_nonneg by simp_all
    ultimately show ?thesis using d by (auto simp: algebra_simps)
  qed
qed

section \<open>Histories of the breaker\<close>

text \<open>What the callers reported so far, the latest last.\<close>

datatype outcome = Succeeded | Failed int

fun report_outcome :: "outcome \<Rightarrow> breaker \<Rightarrow> breaker" where
  "report_outcome Succeeded b = record_success b"
| "report_outcome (Failed t) b = record_failure t b"

definition after_outcomes :: "outcome list \<Rightarrow> breaker \<Rightarrow> breaker" where
  "after_outcomes es b = fold report_outcome es b"

definition fresh_breaker :: "int \<Rightarrow> int \<Rightarrow> breaker" where
  "fresh_breaker threshold reset = \<lparr>br_threshold = threshold, br_reset = reset, br_failures = 0, br_opened = None\<rparr>"

text \<open>The failures since the last success, and when the last of them was.\<close>

definition in_a_row :: "outcome list \<Rightarrow> nat" where
  "in_a_row es = length (takeWhile (\<lambda>e. e \<noteq> Succeeded) (rev es))"

definition tripped :: "int \<Rightarrow> int \<Rightarrow> int \<Rightarrow> outcome list \<Rightarrow> bool" where
  "tripped threshold reset now es =
     (threshold \<le> int (in_a_row es) \<and> (\<exists>t. es \<noteq> [] \<and> last es = Failed t \<and> now - t < reset))"

lemma breaker_history:
  fixes threshold reset :: int
  assumes "1 \<le> threshold"
  defines "b \<equiv> \<lambda>es. after_outcomes es (fresh_breaker threshold reset)"
  shows "br_threshold (b es) = threshold \<and> br_reset (b es) = reset \<and> br_failures (b es) = int (in_a_row es) \<and>
    br_opened (b es) = (if threshold \<le> int (in_a_row es)
      then (case last es of Failed t \<Rightarrow> Some t | Succeeded \<Rightarrow> None) else None)"
proof (induction es rule: rev_induct)
  case Nil
  then show ?case using assms by (simp add: after_outcomes_def fresh_breaker_def in_a_row_def)
next
  case (snoc e es)
  have step: "b (es @ [e]) = report_outcome e (b es)" by (simp add: b_def after_outcomes_def)
  show ?case
  proof (cases e)
    case Succeeded
    then show ?thesis using snoc assms(1) by (simp add: step[unfolded Succeeded] record_success_def in_a_row_def)
  next
    case (Failed t)
    have "in_a_row (es @ [e]) = Suc (in_a_row es)" using Failed by (simp add: in_a_row_def)
    then show ?thesis using snoc Failed by (simp add: step[unfolded Failed] record_failure_def Let_def)
  qed
qed

lemma allow_iff:
  assumes "1 \<le> threshold"
  shows "allow now (after_outcomes es (fresh_breaker threshold reset)) \<longleftrightarrow> \<not> tripped threshold reset now es"
proof (cases "es = []")
  case True
  then show ?thesis by (simp add: allow_def tripped_def after_outcomes_def fresh_breaker_def)
next
  case False
  then show ?thesis
    using breaker_history[OF assms, of es reset] assms
    by (cases "last es") (auto simp: allow_def tripped_def split: option.splits)
qed

text \<open>A breaker that is half open lets every caller through, not one probe: asking changes nothing.\<close>

lemma half_open_admits_all: "breaker_state now b = ''half_open'' \<Longrightarrow> allow now b"
  by (simp add: breaker_state_def allow_def split: option.splits if_splits)

section \<open>Properties\<close>

text \<open>C29. A model call is bounded: after the failures of the last \<open>threshold\<close> outcomes, of which the latest is
  less than the reset time ago, it is refused without calling the model and nothing changes;
  otherwise the model is called at least once, at most once more than the number of retries, and the
  answer or the error is there within the time limits and the growing pauses of those calls.\<close>

theorem model_call_bounded:
  assumes "1 \<le> threshold" and "0 \<le> rc_timeout cfg" and "0 \<le> rc_backoff cfg" and "0 \<le> rc_retries cfg"
    and "\<And>i. 0 \<le> snd (op i)"
    and "call_with_retry cfg op (now, after_outcomes es (fresh_breaker threshold reset)) = (r, now', b', n)"
  shows "if tripped threshold reset now es
    then r = Inl circuit_open \<and> n = 0 \<and> now' = now \<and> b' = after_outcomes es (fresh_breaker threshold reset)
    else 1 \<le> n \<and> int n \<le> rc_retries cfg + 1 \<and>
      2 * (now' - now) \<le> 2 * (rc_retries cfg + 1) * rc_timeout cfg + rc_backoff cfg * rc_retries cfg * (rc_retries cfg + 1)"
proof (cases "tripped threshold reset now es")
  case True
  then show ?thesis using assms(6) allow_iff[OF assms(1)] by (simp add: call_with_retry_def)
next
  case False
  have "nat (rc_retries cfg + 1) = Suc (nat (rc_retries cfg))" using assms(4) by simp
  then have "retry_loop cfg op (Suc (nat (rc_retries cfg))) 1
      (now, after_outcomes es (fresh_breaker threshold reset), 0) = (r, now', b', n)"
    using False assms(6) allow_iff[OF assms(1)] by (simp add: call_with_retry_def)
  from retry_loop_bounded[OF assms(2,3,5) this] show ?thesis
    using False assms(4) pauses_closed[of "rc_backoff cfg" 1 "nat (rc_retries cfg)"] by (auto simp: algebra_simps)
qed

definition flaky_op :: "nat \<Rightarrow> string trial" where
  "flaky_op k = (if k < 3 then (Inl \<lparr>mx_class = Other_error ''RemoteError'', mx_text = ''503 Service Unavailable''\<rparr>, 2)
     else (Inr ''ok'', 4))"

definition flaky_cfg :: retry_cfg where
  "flaky_cfg = \<lparr>rc_timeout = 10, rc_retries = 2, rc_backoff = 1, rc_transient = default_transient\<rparr>"

lemma flaky_op_time: "0 \<le> snd (flaky_op i)"
  by (simp add: flaky_op_def)

lemma model_call_bounded_witness:
  "fst (call_with_retry flaky_cfg flaky_op (100, after_outcomes [Failed 50, Failed 60] (fresh_breaker 3 30))) = Inr ''ok'' \<and>
   2 * (fst (snd (call_with_retry flaky_cfg flaky_op (100, after_outcomes [Failed 50, Failed 60] (fresh_breaker 3 30)))) - 100) \<le> 66"
proof
  show "fst (call_with_retry flaky_cfg flaky_op (100, after_outcomes [Failed 50, Failed 60] (fresh_breaker 3 30))) = Inr ''ok''"
    by code_simp
  obtain r now' b' n where
    c: "call_with_retry flaky_cfg flaky_op (100, after_outcomes [Failed 50, Failed 60] (fresh_breaker 3 30)) = (r, now', b', n)"
    by (metis prod_cases4)
  have "\<not> tripped 3 30 100 [Failed 50, Failed 60]" by (simp add: tripped_def in_a_row_def)
  then show "2 * (fst (snd (call_with_retry flaky_cfg flaky_op (100, after_outcomes [Failed 50, Failed 60] (fresh_breaker 3 30)))) - 100) \<le> 66"
    using model_call_bounded[of 3 flaky_cfg flaky_op, OF _ _ _ _ _ c] flaky_op_time
    by (auto simp add: c) (simp_all add: flaky_cfg_def)
qed

end
