(* ===== verification/Json_Read.thy ===== *)
theory Json_Read
  imports Canonical
begin

text \<open>
  \<open>json.loads\<close> of the standard library, which reads what a model answers (\<open>app/graph/parser.py\<close>) and the
  anchors of the ledger (\<open>app/audit/anchor.py\<close>), with the proof that it reads back what \<open>Canonical\<close>
  writes. A number with a fraction or an exponent, and a character beyond the first 256, have no value in
  the model: what becomes of them is a parameter. The limits on nesting and on the length of numbers are left
  out.
\<close>

section \<open>Texts and numbers\<close>

record json_ext =
  jx_float :: "string \<Rightarrow> json"
  jx_char :: "nat \<Rightarrow> string"

definition is_json_space :: "char \<Rightarrow> bool" where
  "is_json_space c = (c = CHR '' '' \<or> c = CHR 0x09 \<or> c = CHR 0x0A \<or> c = CHR 0x0D)"

definition skip_space :: "string \<Rightarrow> string" where
  "skip_space s = dropWhile is_json_space s"

definition hex_code :: "char \<Rightarrow> nat option" where
  "hex_code c = (let n = of_char c in
     if 48 \<le> n \<and> n \<le> 57 then Some (n - 48)
     else if 97 \<le> n \<and> n \<le> 102 then Some (n - 87)
     else if 65 \<le> n \<and> n \<le> 70 then Some (n - 55) else None)"

definition hex4 :: "string \<Rightarrow> nat option" where
  "hex4 s = (case map hex_code (take 4 s) of
     [Some a, Some b, Some c, Some d] \<Rightarrow> Some (a * 4096 + b * 256 + c * 16 + d) | _ \<Rightarrow> None)"

definition code_text :: "json_ext \<Rightarrow> nat \<Rightarrow> string" where
  "code_text jx n = (if n < 256 then [char_of n] else jx_char jx n)"

definition simple_escape :: "char \<Rightarrow> char option" where
  "simple_escape c =
     (if c = CHR 0x22 \<or> c = CHR 0x5C \<or> c = CHR ''/'' then Some c
      else if c = CHR ''b'' then Some (CHR 0x08) else if c = CHR ''f'' then Some (CHR 0x0C)
      else if c = CHR ''n'' then Some (CHR 0x0A) else if c = CHR ''r'' then Some (CHR 0x0D)
      else if c = CHR ''t'' then Some (CHR 0x09) else None)"

definition high_surrogate :: "nat \<Rightarrow> bool" where "high_surrogate n = (55296 \<le> n \<and> n \<le> 56319)"
definition low_surrogate :: "nat \<Rightarrow> bool" where "low_surrogate n = (56320 \<le> n \<and> n \<le> 57343)"

text \<open>\<open>\u\<close> with the digits at the front of \<open>s\<close>: the text of the character, and the length of what was
  read; two escapes may make one character.\<close>

definition unicode_escape :: "json_ext \<Rightarrow> string \<Rightarrow> (string \<times> nat) option" where
  "unicode_escape jx s = (case hex4 s of None \<Rightarrow> None
   | Some n \<Rightarrow>
       if high_surrogate n \<and> take 2 (drop 4 s) = [CHR 0x5C, CHR ''u'']
       then (case hex4 (drop 6 s) of None \<Rightarrow> None
             | Some m \<Rightarrow> if low_surrogate m
                 then Some (code_text jx (65536 + (n - 55296) * 1024 + (m - 56320)), 10)
                 else Some (code_text jx n, 4))
       else Some (code_text jx n, 4))"

definition put_front :: "string \<Rightarrow> (string \<times> string) option \<Rightarrow> (string \<times> string) option" where
  "put_front a r = map_option (\<lambda>(t, s). (a @ t, s)) r"

text \<open>The rest of a string after its opening quote.\<close>

function read_string :: "json_ext \<Rightarrow> string \<Rightarrow> (string \<times> string) option" where
  "read_string jx [] = None"
| "read_string jx (c # s) =
     (if c = CHR 0x22 then Some ([], s)
      else if (of_char c :: nat) < 32 then None
      else if c \<noteq> CHR 0x5C then put_front [c] (read_string jx s)
      else case s of [] \<Rightarrow> None
        | e # s' \<Rightarrow>
            if e = CHR ''u''
            then (case unicode_escape jx s' of None \<Rightarrow> None
                  | Some (t, k) \<Rightarrow> put_front t (read_string jx (drop k s')))
            else (case simple_escape e of None \<Rightarrow> None
                  | Some d \<Rightarrow> put_front [d] (read_string jx s')))"
  by pat_completeness auto
termination by (relation "measure (\<lambda>(jx, s). length s)") auto

text \<open>\<open>NUMBER_RE\<close>\<close>

definition number_fraction :: "string \<Rightarrow> string" where
  "number_fraction s = (case s of [] \<Rightarrow> [] | c # t \<Rightarrow>
     if c = CHR ''.'' \<and> takeWhile is_digit t \<noteq> [] then c # takeWhile is_digit t else [])"

definition number_exponent :: "string \<Rightarrow> string" where
  "number_exponent s = (case s of [] \<Rightarrow> [] | c # t \<Rightarrow>
     if c \<noteq> CHR ''e'' \<and> c \<noteq> CHR ''E'' then []
     else let sign = (if t \<noteq> [] \<and> (hd t = CHR ''-'' \<or> hd t = CHR ''+'') then [hd t] else []);
              ds = takeWhile is_digit (drop (length sign) t)
          in if ds = [] then [] else c # sign @ ds)"

definition read_number :: "json_ext \<Rightarrow> string \<Rightarrow> (json \<times> string) option" where
  "read_number jx s =
     (let neg = (s \<noteq> [] \<and> hd s = CHR ''-''); t = (if neg then tl s else s); ds = takeWhile is_digit t
      in if ds = [] then None
         else let whole = (if hd ds = CHR ''0'' then ''0'' else ds); r = drop (length whole) t;
                  fr = number_fraction r; r' = drop (length fr) r; ex = number_exponent r'
              in if fr = [] \<and> ex = []
                 then Some (JInt (if neg then - parse_int whole else parse_int whole), r)
                 else Some (jx_float jx ((if neg then ''-'' else []) @ whole @ fr @ ex), drop (length ex) r'))"

section \<open>Values\<close>

text \<open>\<open>dict(pairs)\<close>: the last value of a key counts, at the place of the first.\<close>

definition dict_of :: "(string \<times> json) list \<Rightarrow> (string \<times> json) list" where
  "dict_of ps = foldl (\<lambda>m (k, v). al_put k v m) [] ps"

definition constants :: "json_ext \<Rightarrow> (string \<times> json) list" where
  "constants jx = [(''null'', JNull), (''true'', JBool True), (''false'', JBool False),
     (''NaN'', jx_float jx ''NaN''), (''Infinity'', jx_float jx ''Infinity''),
     (''-Infinity'', jx_float jx ''-Infinity'')]"

definition read_scalar :: "json_ext \<Rightarrow> string \<Rightarrow> (json \<times> string) option" where
  "read_scalar jx s = (case find (\<lambda>(w, v). take (length w) s = w) (constants jx) of
     Some (w, v) \<Rightarrow> Some (v, drop (length w) s) | None \<Rightarrow> read_number jx s)"

text \<open>The first argument bounds the number of nested calls; \<open>loads\<close> gives enough for any text.\<close>

fun read_value :: "json_ext \<Rightarrow> nat \<Rightarrow> string \<Rightarrow> (json \<times> string) option"
and read_elems :: "json_ext \<Rightarrow> nat \<Rightarrow> string \<Rightarrow> (json list \<times> string) option"
and read_members :: "json_ext \<Rightarrow> nat \<Rightarrow> string \<Rightarrow> ((string \<times> json) list \<times> string) option" where
  "read_value jx 0 s = None"
| "read_value jx (Suc n) s = (case s of [] \<Rightarrow> None
   | c # t \<Rightarrow>
       if c = CHR 0x22 then map_option (\<lambda>(x, r). (JStr x, r)) (read_string jx t)
       else if c = CHR ''{''
       then (case skip_space t of [] \<Rightarrow> None
             | d # r \<Rightarrow> if d = CHR ''}'' then Some (JObj [], r)
                 else map_option (\<lambda>(ms, r). (JObj (dict_of ms), r)) (read_members jx n (d # r)))
       else if c = CHR ''[''
       then (case skip_space t of [] \<Rightarrow> None
             | d # r \<Rightarrow> if d = CHR '']'' then Some (JArr [], r)
                 else map_option (\<lambda>(xs, r). (JArr xs, r)) (read_elems jx n (d # r)))
       else read_scalar jx (c # t))"
| "read_elems jx 0 s = None"
| "read_elems jx (Suc n) s = (case read_value jx n s of None \<Rightarrow> None
   | Some (x, r) \<Rightarrow> (case skip_space r of [] \<Rightarrow> None
       | d # r' \<Rightarrow> if d = CHR '']'' then Some ([x], r')
           else if d = CHR '',''
           then map_option (\<lambda>(xs, r). (x # xs, r)) (read_elems jx n (skip_space r'))
           else None))"
| "read_members jx 0 s = None"
| "read_members jx (Suc n) s = (case s of [] \<Rightarrow> None
   | c # t \<Rightarrow> if c \<noteq> CHR 0x22 then None
       else (case read_string jx t of None \<Rightarrow> None
         | Some (k, r) \<Rightarrow> (case skip_space r of [] \<Rightarrow> None
             | d # r' \<Rightarrow> if d \<noteq> CHR '':'' then None
                 else (case read_value jx n (skip_space r') of None \<Rightarrow> None
                   | Some (x, r) \<Rightarrow> (case skip_space r of [] \<Rightarrow> None
                       | d # r' \<Rightarrow> if d = CHR ''}'' then Some ([(k, x)], r')
                           else if d = CHR '',''
                           then map_option (\<lambda>(ms, r). ((k, x) # ms, r)) (read_members jx n (skip_space r'))
                           else None)))))"

definition loads :: "json_ext \<Rightarrow> string \<Rightarrow> json option" where
  "loads jx s = (case read_value jx (2 * length s + 1) (skip_space s) of
     Some (v, r) \<Rightarrow> if skip_space r = [] then Some v else None | None \<Rightarrow> None)"

section \<open>The fuel is enough\<close>

lemma skip_space_length: "length (skip_space s) \<le> length s"
  by (simp add: skip_space_def length_dropWhile_le)

lemma put_front_Some: "put_front a r = Some (t, s) \<longleftrightarrow> (\<exists>u. r = Some (u, s) \<and> t = a @ u)"
  by (auto simp: put_front_def)

lemma read_string_shorter: "read_string jx s = Some (t, r) \<Longrightarrow> length r < length s"
proof (induction jx s arbitrary: t r rule: read_string.induct)
  case (2 jx c s)
  show ?case
  proof (cases "c = CHR 0x22 \<or> (of_char c :: nat) < 32 \<or> c \<noteq> CHR 0x5C")
    case True
    then show ?thesis using 2(1)[of _ r] 2(4) by (auto simp: put_front_Some split: if_splits)
  next
    case False
    then obtain e s' where s: "s = e # s'" using 2(4) by (cases s) auto
    show ?thesis
    proof (cases "e = CHR ''u''")
      case True
      then obtain w k u where "unicode_escape jx s' = Some (w, k)" "read_string jx (drop k s') = Some (u, r)"
        using 2(4) False s by (auto simp: put_front_Some split: option.splits)
      then show ?thesis using 2(2)[of e s' "(w, k)" w k u r] False True s by auto
    next
      case other: False
      then obtain d u where "simple_escape e = Some d" "read_string jx s' = Some (u, r)"
        using 2(4) False s by (auto simp: put_front_Some split: option.splits)
      then show ?thesis using 2(3)[of e s' d u r] False other s by auto
    qed
  qed
qed simp

lemma read_number_shorter: "read_number jx s = Some (v, r) \<Longrightarrow> length r < length s"
proof -
  assume a: "read_number jx s = Some (v, r)"
  define t where "t = (if s \<noteq> [] \<and> hd s = CHR ''-'' then tl s else s)"
  from a have d: "takeWhile is_digit t \<noteq> []" by (auto simp: read_number_def t_def Let_def split: if_splits)
  define w where "w = (if hd (takeWhile is_digit t) = CHR ''0'' then ''0'' else takeWhile is_digit t)"
  have "w \<noteq> []" using d by (simp add: w_def)
  moreover have "t \<noteq> []" using d by auto
  ultimately have "length (drop (length w) t) < length t" by (simp add: length_drop)
  moreover have "length t \<le> length s" by (simp add: t_def)
  moreover have "length r \<le> length (drop (length w) t)"
    using a d unfolding read_number_def t_def[symmetric] w_def[symmetric] Let_def
    by (auto simp: t_def[symmetric] w_def[symmetric] split: if_splits)
  ultimately show ?thesis by simp
qed

lemma constants_nonempty: "(w, v) \<in> set (constants jx) \<Longrightarrow> w \<noteq> []"
  by (auto simp: constants_def)

lemma read_scalar_shorter: "read_scalar jx s = Some (v, r) \<Longrightarrow> s \<noteq> [] \<Longrightarrow> length r < length s"
proof (cases "find (\<lambda>(w, v). take (length w) s = w) (constants jx)")
  case (Some p)
  assume "read_scalar jx s = Some (v, r)" "s \<noteq> []"
  moreover obtain i where "i < length (constants jx)" "p = constants jx ! i" using Some by (auto simp: find_Some_iff)
  then have "p \<in> set (constants jx)" by simp
  then have "fst p \<noteq> []" using constants_nonempty[of "fst p" "snd p" jx] by auto
  ultimately show ?thesis using Some by (cases p) (auto simp: read_scalar_def)
qed (simp add: read_scalar_def read_number_shorter)

lemma read_shorter:
  "read_value jx n s = Some (v, r) \<Longrightarrow> length r < length s"
  "read_elems jx n s = Some (xs, r) \<Longrightarrow> length r < length s"
  "read_members jx n s = Some (ms, r) \<Longrightarrow> length r < length s"
proof (induction jx n s and jx n s and jx n s arbitrary: v r and xs r and ms r
    rule: read_value_read_elems_read_members.induct)
  case (2 jx n s)
  then obtain c t where s: "s = c # t" by (cases s) auto
  have sp: "skip_space t = d # u \<Longrightarrow> length (d # u) \<le> length t" for d u
    using skip_space_length[of t] by simp
  show ?case
    using 2 sp unfolding s
    by (auto split: if_splits list.splits dest!: read_string_shorter read_scalar_shorter)
      (fastforce dest!: sp)+
next
  case (4 jx n s)
  then obtain x u where x: "read_value jx n s = Some (x, u)" by (auto split: option.splits)
  with 4 obtain d w where d: "skip_space u = d # w" by (auto split: list.splits)
  have "length u < length s" "length w < length u"
    using 4(1)[OF x] skip_space_length[of u] d by simp_all
  then show ?case
    using 4 x d skip_space_length[of w] by (fastforce split: if_splits)
next
  case (6 jx n s)
  then obtain t where s: "s = CHR 0x22 # t" by (auto split: list.splits if_splits)
  with 6 obtain k u where k: "read_string jx t = Some (k, u)" by (auto split: option.splits)
  with 6 s obtain w where w: "skip_space u = CHR '':'' # w" by (auto split: list.splits if_splits)
  with 6 s k obtain x y where x: "read_value jx n (skip_space w) = Some (x, y)" by (auto split: option.splits)
  with 6 s k w obtain d z where d: "skip_space y = d # z" by (auto split: list.splits)
  have "length u < length t" "length w < length u" "length y < length w" "length z < length y"
    using read_string_shorter[OF k] skip_space_length[of u] skip_space_length[of w] skip_space_length[of y] w d
      6(1)[OF s _ k refl w _ x] by simp_all
  then show ?case
    using 6 s k w x d skip_space_length[of z] by (fastforce split: if_splits)
qed simp_all

lemma read_stable:
  "2 * length s < n \<Longrightarrow> 2 * length s < m \<Longrightarrow> read_value jx n s = read_value jx m s"
  "2 * length s + 1 < n \<Longrightarrow> 2 * length s + 1 < m \<Longrightarrow> read_elems jx n s = read_elems jx m s"
  "2 * length s + 1 < n \<Longrightarrow> 2 * length s + 1 < m \<Longrightarrow> read_members jx n s = read_members jx m s"
proof (induction jx n s and jx n s and jx n s arbitrary: m and m and m
    rule: read_value_read_elems_read_members.induct)
  case (2 jx n s)
  obtain m' where m: "m = Suc m'" using 2(4) by (cases m) auto
  have sp: "length (d # u) \<le> length t" if "skip_space t = d # u" for d u t
    using skip_space_length[of t] that by simp
  show ?case
  proof (cases s)
    case (Cons c t)
    show ?thesis
    proof (cases "skip_space t")
      case (Cons d u)
      have "read_members jx n (d # u) = read_members jx m' (d # u)" if "c = CHR ''{''" "d \<noteq> CHR ''}''"
        using 2(1)[OF \<open>s = c # t\<close> _ _ Cons, of m'] that 2(3,4) sp[OF Cons] by (simp add: \<open>s = c # t\<close> m)
      moreover have "read_elems jx n (d # u) = read_elems jx m' (d # u)" if "c = CHR ''[''" "d \<noteq> CHR '']''"
        using 2(2)[OF \<open>s = c # t\<close> _ _ _ Cons, of m'] that 2(3,4) sp[OF Cons] by (simp add: \<open>s = c # t\<close> m)
      ultimately show ?thesis by (simp add: \<open>s = c # t\<close> Cons m)
    qed (simp add: Cons m)
  qed (simp add: m)
next
  case (4 jx n s)
  obtain m' where m: "m = Suc m'" using 4(4) by (cases m) auto
  have v: "read_value jx n s = read_value jx m' s" using 4(1)[of m'] 4(3,4) by (simp add: m)
  show ?case
  proof (cases "read_value jx m' s")
    case (Some p)
    then obtain x r where x: "read_value jx m' s = Some (x, r)" by (cases p) auto
    have r: "length r < length s" by (rule read_shorter(1)[OF x])
    show ?thesis
    proof (cases "skip_space r")
      case (Cons d u)
      have "length (skip_space u) < length s"
        using skip_space_length[of r] skip_space_length[of u] r Cons by simp
      then have "read_elems jx n (skip_space u) = read_elems jx m' (skip_space u)" if "d = CHR '',''"
        using 4(2)[OF x[folded v] refl Cons, of m'] that 4(3,4) by (simp add: m)
      then show ?thesis using x v by (simp add: m Cons)
    qed (simp add: m v x)
  qed (simp add: m v)
next
  case (6 jx n s)
  obtain m' where m: "m = Suc m'" using 6(4) by (cases m) auto
  show ?case
  proof (cases "\<exists>t k r w. s = CHR 0x22 # t \<and> read_string jx t = Some (k, r) \<and> skip_space r = CHR '':'' # w")
    case True
    then obtain t k r w where s: "s = CHR 0x22 # t" and k: "read_string jx t = Some (k, r)"
      and w: "skip_space r = CHR '':'' # w" by blast
    have l: "length (skip_space w) + 2 < length s"
      using read_string_shorter[OF k] skip_space_length[of r] skip_space_length[of w] s w by simp
    have v: "read_value jx n (skip_space w) = read_value jx m' (skip_space w)"
      using 6(1)[OF s _ k refl w, of m'] 6(3,4) l by (simp add: m)
    show ?thesis
    proof (cases "read_value jx m' (skip_space w)")
      case (Some p)
      then obtain x y where x: "read_value jx m' (skip_space w) = Some (x, y)" by (cases p) auto
      have y: "length y < length (skip_space w)" by (rule read_shorter(1)[OF x])
      show ?thesis
      proof (cases "skip_space y")
        case (Cons d u)
        have "length (skip_space u) < length s"
          using skip_space_length[of y] skip_space_length[of u] y l Cons by simp
        then have "read_members jx n (skip_space u) = read_members jx m' (skip_space u)" if "d = CHR '',''"
          using 6(2)[OF s _ k refl w _ x[folded v] refl Cons, of m'] that 6(3,4) by (simp add: m)
        then show ?thesis using x v by (simp add: m Cons s k w)
      qed (simp add: m v x s k w)
    qed (simp add: m v s k w)
  next
    case False
    have "read_members jx (Suc i) s = None" for i
    proof (cases s)
      case (Cons c t)
      show ?thesis
      proof (cases "c = CHR 0x22")
        case True
        show ?thesis
        proof (cases "read_string jx t")
          case (Some p)
          then show ?thesis using False Cons True by (cases p; cases "skip_space (snd p)") auto
        qed (simp add: Cons)
      qed (simp add: Cons)
    qed simp
    then show ?thesis by (simp add: m)
  qed
qed simp_all

text \<open>More fuel than \<open>loads\<close> gives never changes what is read.\<close>

lemma loads_fuel: "2 * length s < n \<Longrightarrow> read_value jx n (skip_space s) = read_value jx (2 * length s + 1) (skip_space s)"
  using skip_space_length[of s] by (intro read_stable(1)) simp_all

section \<open>What was written is read back\<close>

lemma hex_code_digit: "n < 16 \<Longrightarrow> hex_code (hex_digit n) = Some n"
proof -
  assume "n < 16"
  then have "(of_char (hex_digit n) :: nat) = (if n < 10 then 48 + n else 87 + n)"
    by (simp add: hex_digit_def)
  with \<open>n < 16\<close> show ?thesis by (simp add: hex_code_def Let_def)
qed

lemma hex4_control:
  assumes "n < 32"
  shows "hex4 (CHR ''0'' # CHR ''0'' # hex_digit (n div 16) # hex_digit (n mod 16) # s) = Some n"
proof -
  have "hex_code (CHR ''0'') = Some 0" by (simp add: hex_code_def)
  then show ?thesis using assms by (simp add: hex4_def hex_code_digit)
qed

lemma read_dump_char: "read_string jx (dump_char c @ s) = put_front [c] (read_string jx s)"
proof (cases c rule: dump_char_cases)
  case 1
  then show ?thesis by (auto simp: dump_char_def simple_escape_def)
next
  case (2 n)
  have "unicode_escape jx (CHR ''0'' # CHR ''0'' # hex_digit (n div 16) # hex_digit (n mod 16) # s) = Some ([c], 4)"
    using 2(1,2) by (simp add: unicode_escape_def hex4_control high_surrogate_def code_text_def)
  then show ?thesis using 2(3) by simp
next
  case 3
  have "\<not> (of_char c :: nat) < 32" using 3 by (auto simp: dump_char_def Let_def split: if_splits)
  then show ?thesis using 3 by simp
qed

lemma read_dump_str: "read_string jx (concat (map dump_char a) @ CHR 0x22 # s) = Some (a, s)"
  by (induction a) (simp_all add: read_dump_char put_front_def del: read_string.simps(2), simp)

lemma al_put_fresh: "k \<notin> fst ` set m \<Longrightarrow> al_put k v m = m @ [(k, v)]"
  by (induction m) auto

lemma dict_of_distinct: "distinct (map fst ps) \<Longrightarrow> dict_of ps = ps"
proof -
  have "distinct (map fst (m @ ps)) \<Longrightarrow> foldl (\<lambda>m (k, v). al_put k v m) m ps = m @ ps" for m
  proof (induction ps arbitrary: m)
    case (Cons p ps)
    then show ?case using Cons.IH[of "m @ [p]"] by (cases p) (auto simp: al_put_fresh)
  qed simp
  from this[of "[]"] show "distinct (map fst ps) \<Longrightarrow> dict_of ps = ps" by (simp add: dict_of_def)
qed

text \<open>What follows a value inside a text.\<close>

definition ends :: "string \<Rightarrow> bool" where
  "ends s = (s = [] \<or> hd s \<in> {CHR '','', CHR '']'', CHR ''}''})"

lemma ends_simps [simp]: "ends []" "ends (CHR '','' # s)" "ends (CHR '']'' # s)" "ends (CHR ''}'' # s)"
  by (simp_all add: ends_def)

lemma digits_before_end: "all_digits a \<Longrightarrow> ends s \<Longrightarrow> takeWhile is_digit (a @ s) = a"
  unfolding all_digits_def
  by (cases s) (auto simp: ends_def is_digit_def list_all_iff takeWhile_append)

lemma no_more_number: "ends s \<Longrightarrow> number_fraction s = [] \<and> number_exponent s = []"
  by (cases s) (auto simp: ends_def number_fraction_def number_exponent_def)

lemma read_show_int: "ends s \<Longrightarrow> read_number jx (show_int i @ s) = Some (JInt i, s)"
proof -
  assume e: "ends s"
  define j where "j = \<bar>i\<bar>"
  have j: "0 \<le> j" "i = (if i < 0 then - j else j)" by (simp_all add: j_def)
  have t: "takeWhile is_digit (show_digits j @ s) = show_digits j"
    using digits_before_end[OF show_digits_all[OF j(1)] e] .
  have ne: "show_digits j \<noteq> []" using show_digits_all[OF j(1)] by (simp add: all_digits_def)
  have zero: "show_digits j = ''0'' \<or> hd (show_digits j) \<noteq> CHR ''0''"
    using hd_show_digits[of j] j(1) by (cases "j = 0") (simp_all add: show_digits.simps[of 0] digit_char_def)
  have minus: "hd (show_digits j) \<noteq> CHR ''-''"
    using show_digits_all[OF j(1)] ne by (cases "show_digits j") (auto simp: all_digits_def is_digit_def)
  show ?thesis
  proof (cases "i < 0")
    case True
    then have "show_int i = CHR ''-'' # show_digits j" by (simp add: show_int_def j_def)
    then show ?thesis
      using True e t ne zero j parse_show_digits[OF j(1)]
      by (elim disjE) (simp_all add: read_number_def Let_def no_more_number)
  next
    case False
    then have "show_int i = show_digits j" by (simp add: show_int_def j_def)
    then show ?thesis
      using False e t ne zero minus j parse_show_digits[OF j(1)]
      by (elim disjE) (simp_all add: read_number_def Let_def no_more_number)
  qed
qed

lemma kind_char_eq: "kind_char c = k \<Longrightarrow> k \<noteq> kind_char d \<Longrightarrow> c \<noteq> d"
  by auto

lemma kinds: "kind_char (CHR 0x22) = KStr" "kind_char (CHR ''{'') = KObj" "kind_char (CHR ''['') = KArr"
  "kind_char (CHR ''n'') = KNull" "kind_char (CHR ''t'') = KTrue" "kind_char (CHR ''f'') = KFalse"
  by (simp_all add: kind_char_def)

lemma kind_chars:
  shows kind_char_str: "kind_char c = KStr \<longleftrightarrow> c = CHR 0x22" and
  kind_char_obj: "kind_char c = KObj \<longleftrightarrow> c = CHR ''{''" and
  kind_char_arr: "kind_char c = KArr \<longleftrightarrow> c = CHR ''[''"
  unfolding kind_char_def
  by (cases "c = CHR ''n''"; cases "c = CHR ''t''"; cases "c = CHR ''f''"; cases "c = CHR 0x22"; cases "c = CHR ''[''";
      cases "c = CHR ''{''"; simp)+

lemma dump_starts:
  assumes "dump_json v = c # u"
  shows "\<not> is_json_space c" "c \<noteq> CHR '']''" "c \<noteq> CHR ''}''"
    "c = CHR 0x22 \<longleftrightarrow> kind_of v = KStr" "c = CHR ''{'' \<longleftrightarrow> kind_of v = KObj" "c = CHR ''['' \<longleftrightarrow> kind_of v = KArr"
proof -
  have k: "kind_char c = kind_of v" using kind_first[of v] assms by auto
  have none: "kind_of v \<noteq> KNone" by (cases v) auto
  have other: "kind_char d = KNone" if "d \<in> {CHR '' '', CHR 0x09, CHR 0x0A, CHR 0x0D, CHR '']'', CHR ''}''}" for d
    using that by (auto simp: kind_char_def numeric_def is_digit_def)
  have "c \<notin> {CHR '' '', CHR 0x09, CHR 0x0A, CHR 0x0D, CHR '']'', CHR ''}''}"
    using other[of c] none unfolding k by blast
  then show "\<not> is_json_space c" "c \<noteq> CHR '']''" "c \<noteq> CHR ''}''" by (simp_all add: is_json_space_def)
  show "c = CHR 0x22 \<longleftrightarrow> kind_of v = KStr" "c = CHR ''{'' \<longleftrightarrow> kind_of v = KObj" "c = CHR ''['' \<longleftrightarrow> kind_of v = KArr"
    using k kind_char_str[of c] kind_char_obj[of c] kind_char_arr[of c] by simp_all
qed

lemma skip_dump: "skip_space (dump_json v @ s) = dump_json v @ s"
  using dump_starts(1)[of v] kind_first[of v] by (auto simp: skip_space_def)

lemma read_scalar_int: "ends s \<Longrightarrow> read_scalar jx (show_int i @ s) = Some (JInt i, s)"
proof -
  assume e: "ends s"
  obtain c u where c: "show_int i = c # u" "numeric c" using hd_show_int by blast
  have two: "c \<noteq> CHR ''-'' \<or> (\<exists>d w. u = d # w \<and> is_digit d)"
  proof (cases "i < 0")
    case True
    then have "show_int i = CHR ''-'' # show_digits (- i)" "all_digits (show_digits (- i))"
      by (simp_all add: show_int_def show_digits_all)
    moreover obtain d w where "show_digits (- i) = d # w"
      using calculation(2) by (cases "show_digits (- i)") (auto simp: all_digits_def)
    ultimately show ?thesis using c by (auto simp: all_digits_def)
  next
    case False
    then have "all_digits (show_int i)" by (simp add: show_int_def show_digits_all)
    then show ?thesis using c by (auto simp: all_digits_def is_digit_def)
  qed
  have "find (\<lambda>(w, v). take (length w) (show_int i @ s) = w) (constants jx) = None"
  proof -
    have "c \<noteq> CHR ''n''" "c \<noteq> CHR ''t''" "c \<noteq> CHR ''f''" "c \<noteq> CHR ''N''" "c \<noteq> CHR ''I''"
      using c(2) by (auto simp: numeric_def is_digit_def)
    moreover have "c \<noteq> CHR ''-'' \<or> (\<exists>d w. u = d # w \<and> d \<noteq> CHR ''I'')"
      using two by (auto simp: is_digit_def)
    ultimately show ?thesis unfolding constants_def c(1)
      by (elim disjE exE conjE) (simp_all add: c(1))
  qed
  then show ?thesis using read_show_int[OF e] by (simp add: read_scalar_def)
qed

text \<open>A value in which no dict has a key twice.\<close>

fun keys_ok :: "json \<Rightarrow> bool" and elems_ok :: "json list \<Rightarrow> bool" and members_ok :: "(string \<times> json) list \<Rightarrow> bool" where
  "keys_ok (JArr xs) = elems_ok xs"
| "keys_ok (JObj ms) = (distinct (map fst ms) \<and> members_ok ms)"
| "keys_ok JNull = True"
| "keys_ok (JBool b) = True"
| "keys_ok (JInt i) = True"
| "keys_ok (JStr s) = True"
| "elems_ok [] = True"
| "elems_ok (x # xs) = (keys_ok x \<and> elems_ok xs)"
| "members_ok [] = True"
| "members_ok ((k, x) # ms) = (keys_ok x \<and> members_ok ms)"

lemma skip_elems: "skip_space (dump_elems xs @ CHR '']'' # s) = dump_elems xs @ CHR '']'' # s"
  by (cases xs) (simp_all add: skip_dump, simp add: skip_space_def is_json_space_def)

lemma skip_members: "skip_space (dump_members ms @ CHR ''}'' # s) = dump_members ms @ CHR ''}'' # s"
  by (cases ms; cases "hd ms") (auto simp: skip_space_def is_json_space_def dump_str_def)

lemma elems_start:
  assumes "xs \<noteq> []"
  obtains c u where "dump_elems xs @ s = c # u" "c \<noteq> CHR '']''"
proof -
  obtain x ys where xs: "xs = x # ys" using assms by (cases xs) auto
  obtain c u where "dump_json x = c # u" using kind_first[of x] by blast
  then show thesis using that dump_starts(2)[of x] by (simp add: xs)
qed

lemma members_start:
  assumes "ms \<noteq> []"
  obtains u where "dump_members ms @ s = CHR 0x22 # u"
  using assms that by (cases ms; cases "hd ms") (auto simp: dump_str_def)

lemma fuel_suc: "2 * length (c # s) < n \<Longrightarrow> \<exists>m. n = Suc m \<and> 2 * length s + 1 < m"
  by (cases n) auto

lemma read_dump:
  "keys_ok v \<Longrightarrow> ends s \<Longrightarrow> 2 * length (dump_json v @ s) < n \<Longrightarrow> read_value jx n (dump_json v @ s) = Some (v, s)"
  "elems_ok xs \<Longrightarrow> xs \<noteq> [] \<Longrightarrow> 2 * length (dump_elems xs @ CHR '']'' # s) + 1 < n \<Longrightarrow>
     read_elems jx n (dump_elems xs @ CHR '']'' # s) = Some (xs, s)"
  "members_ok ms \<Longrightarrow> ms \<noteq> [] \<Longrightarrow> 2 * length (dump_members ms @ CHR ''}'' # s) + 1 < n \<Longrightarrow>
     read_members jx n (dump_members ms @ CHR ''}'' # s) = Some (ms, s)"
proof (induction v and xs and ms arbitrary: s n and s n and s n rule: dump_json_dump_elems_dump_members.induct)
  case 1
  then show ?case by (cases n) (auto simp: read_scalar_def constants_def)
next
  case (2 b)
  then show ?case by (cases n) (auto simp: read_scalar_def constants_def)
next
  case (3 i)
  obtain c u where c: "show_int i = c # u" using hd_show_int by blast
  then have "c \<noteq> CHR 0x22" "c \<noteq> CHR ''{''" "c \<noteq> CHR ''[''" using dump_starts(4-6)[of "JInt i" c u] by simp_all
  then show ?case using 3 read_scalar_int[OF 3(2), of jx i] c by (cases n) simp_all
next
  case (4 x)
  then show ?case by (cases n) (simp_all add: dump_str_def read_dump_str)
next
  case (5 xs)
  obtain m where n: "n = Suc m" "2 * length (dump_elems xs @ CHR '']'' # s) + 1 < m"
    using fuel_suc[of "CHR ''[''" "dump_elems xs @ CHR '']'' # s" n] 5(4) by auto
  show ?case
  proof (cases "xs = []")
    case True
    then show ?thesis by (simp add: n(1) skip_space_def is_json_space_def)
  next
    case False
    then obtain c u where "dump_elems xs @ CHR '']'' # s = c # u" "c \<noteq> CHR '']''" by (rule elems_start)
    then show ?thesis using 5(1)[of s m] 5(2) False n skip_elems[of xs s] by simp
  qed
next
  case (6 ms)
  obtain m where n: "n = Suc m" "2 * length (dump_members ms @ CHR ''}'' # s) + 1 < m"
    using fuel_suc[of "CHR ''{''" "dump_members ms @ CHR ''}'' # s" n] 6(4) by auto
  show ?case
  proof (cases "ms = []")
    case True
    then show ?thesis by (simp add: n(1) skip_space_def is_json_space_def)
  next
    case False
    then obtain u where "dump_members ms @ CHR ''}'' # s = CHR 0x22 # u" by (rule members_start)
    then show ?thesis using 6(1)[of s m] 6(2) False n skip_members[of ms s] by (simp add: dict_of_distinct)
  qed
next
  case (8 x xs)
  let ?r = "(if xs = [] then [] else CHR '','' # dump_elems xs) @ CHR '']'' # s"
  obtain m where n: "n = Suc m" using 8(5) by (cases n) auto
  have x: "read_value jx m (dump_json x @ ?r) = Some (x, ?r)"
    using 8(1)[of ?r m] 8(3,5) by (simp add: n)
  show ?case
  proof (cases "xs = []")
    case True
    then show ?thesis using x by (simp add: n skip_space_def is_json_space_def)
  next
    case False
    have "skip_space ?r = ?r" using False by (simp add: skip_space_def is_json_space_def)
    moreover have "read_elems jx m (dump_elems xs @ CHR '']'' # s) = Some (xs, s)"
      using 8(2)[of s m] 8(3,5) False by (simp add: n)
    ultimately show ?thesis using x False by (simp add: n skip_elems)
  qed
next
  case (10 k x ms)
  let ?r = "(if ms = [] then [] else CHR '','' # dump_members ms) @ CHR ''}'' # s"
  obtain m where n: "n = Suc m" using 10(5) by (cases n) auto
  have k: "read_string jx (concat (map dump_char k) @ CHR 0x22 # CHR '':'' # dump_json x @ ?r) =
      Some (k, CHR '':'' # dump_json x @ ?r)" by (rule read_dump_str)
  have x: "read_value jx m (dump_json x @ ?r) = Some (x, ?r)"
    using 10(1)[of ?r m] 10(3,5) by (simp add: n dump_str_def)
  have colon: "skip_space (CHR '':'' # u) = CHR '':'' # u" for u by (simp add: skip_space_def is_json_space_def)
  show ?case
  proof (cases "ms = []")
    case True
    then show ?thesis using x k by (simp add: n dump_str_def colon skip_dump) (simp add: skip_space_def is_json_space_def)
  next
    case False
    have "skip_space ?r = ?r" using False by (simp add: skip_space_def is_json_space_def)
    moreover have "read_members jx m (dump_members ms @ CHR ''}'' # s) = Some (ms, s)"
      using 10(2)[of s m] 10(3,5) False by (simp add: n dump_str_def)
    ultimately show ?thesis using x k False by (simp add: n dump_str_def colon skip_dump skip_members)
  qed
qed simp_all

text \<open>What the program writes as JSON it reads back: a value without a repeated key is the one \<open>json.loads\<close>
  finds in the compact text of \<open>json.dumps\<close>, whatever its texts contain.\<close>

lemma loads_dump:
  assumes "keys_ok v"
  shows "loads jx (dump_json v) = Some v"
proof -
  have "skip_space (dump_json v) = dump_json v" using skip_dump[of v "[]"] by simp
  moreover have "read_value jx (2 * length (dump_json v) + 1) (dump_json v) = Some (v, [])"
    using read_dump(1)[OF assms, of "[]" "2 * length (dump_json v) + 1"] by (simp del: read_value.simps(2))
  ultimately show ?thesis by (simp add: loads_def skip_space_def del: read_value.simps(2))
qed

end
