(* ===== verification/Tool_Call.thy ===== *)
theory Tool_Call
  imports Agent Json_Read
begin

text \<open>
  Reading the answer of a model (\<open>app/graph/parser.py\<close>): the thinking text, the candidates for a JSON
  object, the call a candidate spells, and the call that is inferred from the state when the answer has none.
  Texts that the agent keeps as constructors are turned into strings by a parameter.
\<close>

section \<open>The text of an answer\<close>

text \<open>\<open>message_text\<close>; \<open>text_of\<close> is \<open>str\<close> of a value that is no text.\<close>

fun block_text :: "(json \<Rightarrow> string) \<Rightarrow> json \<Rightarrow> string" where
  "block_text text_of (JStr s) = s"
| "block_text text_of (JObj ms) = (case map_of ms ''text'' of None \<Rightarrow> []
     | Some (JStr s) \<Rightarrow> s | Some v \<Rightarrow> text_of v)"
| "block_text text_of v = []"

fun message_text :: "(json \<Rightarrow> string) \<Rightarrow> json \<Rightarrow> string" where
  "message_text text_of (JStr s) = s"
| "message_text text_of (JArr vs) = concat (map (block_text text_of) vs)"
| "message_text text_of v = text_of v"

definition tool_call_re :: rx where
  "tool_call_re = rseq [r_lit_ci ''<tool_call>'', RStar r_space, RGrp 1 (RLazy r_any), RStar r_space,
     r_lit_ci ''</tool_call>'']"

definition unclosed_tool_re :: rx where
  "unclosed_tool_re = rseq [r_lit_ci ''<tool_call>'', RStar r_space, RGrp 1 (RSeq (r_lit ''{'') (RStar r_any))]"

definition thinking_re :: rx where
  "thinking_re = rseq [r_lit_ci ''<thinking>'', RStar r_space, RGrp 1 (RLazy r_any), RStar r_space,
     RAlt (r_lit_ci ''</thinking>'') REol]"

definition backticks :: string where "backticks = replicate 3 (CHR 0x60)"

definition fence_re :: rx where
  "fence_re = RAlt (rseq [RBol, r_lit backticks, ROpt (r_lit_ci ''json''), RStar r_space])
     (rseq [RStar r_space, r_lit backticks, REol])"

definition extract_thinking :: "string \<Rightarrow> string" where
  "extract_thinking text = (case rx_search thinking_re text of None \<Rightarrow> [] | Some t \<Rightarrow> strip (group_or [] 1 t))"

section \<open>Candidates\<close>

text \<open>The text up to the brace that closes the depth.\<close>

fun balanced :: "nat \<Rightarrow> string \<Rightarrow> string option" where
  "balanced d [] = None"
| "balanced d (c # s) =
     (if c = CHR ''{'' then map_option ((#) c) (balanced (Suc d) s)
      else if c = CHR ''}'' then (if d = 1 then Some [c] else map_option ((#) c) (balanced (d - 1) s))
      else map_option ((#) c) (balanced d s))"

fun brace_blobs :: "string \<Rightarrow> string list" where
  "brace_blobs [] = []"
| "brace_blobs (c # s) =
     (if c = CHR ''{'' then (case balanced 0 (c # s) of None \<Rightarrow> [] | Some b \<Rightarrow> b # brace_blobs s)
      else brace_blobs s)"

definition found_blob :: "rx \<Rightarrow> string \<Rightarrow> string list" where
  "found_blob r text = (case rx_search r text of None \<Rightarrow> [] | Some t \<Rightarrow> [strip (group_or [] 1 t)])"

definition candidate_json_blobs :: "string \<Rightarrow> string list" where
  "candidate_json_blobs text = found_blob tool_call_re text @ found_blob unclosed_tool_re text @ brace_blobs text"

section \<open>The call\<close>

definition payload_to_call :: "json_ext \<Rightarrow> string \<Rightarrow> tool_call option" where
  "payload_to_call jx raw = (case loads jx (rx_sub fence_re [] (strip raw)) of
     Some (JObj ms) \<Rightarrow>
       (case map_of ms ''name'' of
          Some (JStr name) \<Rightarrow>
            if name = [] then None
            else (case map_of ms ''arguments'' of
                    None \<Rightarrow> Some \<lparr>tc_name = name, tc_args = []\<rparr>
                  | Some JNull \<Rightarrow> Some \<lparr>tc_name = name, tc_args = []\<rparr>
                  | Some (JObj args) \<Rightarrow> Some \<lparr>tc_name = name, tc_args = args\<rparr>
                  | Some _ \<Rightarrow> None)
        | _ \<Rightarrow> None)
   | _ \<Rightarrow> None)"

fun first_some :: "('a \<Rightarrow> 'b option) \<Rightarrow> 'a list \<Rightarrow> 'b option" where
  "first_some f [] = None"
| "first_some f (x # xs) = (case f x of None \<Rightarrow> first_some f xs | Some y \<Rightarrow> Some y)"

definition parse_tool_call :: "json_ext \<Rightarrow> string \<Rightarrow> tool_call option" where
  "parse_tool_call jx text = first_some (payload_to_call jx) (candidate_json_blobs text)"

section \<open>What the state tells\<close>

fun split_arrow :: "string \<Rightarrow> string list" where
  "split_arrow [] = [[]]"
| "split_arrow [c] = [[c]]"
| "split_arrow (c # d # s) =
     (if c = CHR ''-'' \<and> d = CHR ''>'' then [] # split_arrow s
      else (case split_arrow (d # s) of [] \<Rightarrow> [[c]] | w # ws \<Rightarrow> (c # w) # ws))"

definition path_re :: rx where
  "path_re = rseq [r_lit_ci ''traffic flows through:'', RStar r_space, RGrp 1 (RPlus r_dot)]"

definition path_hops :: "string \<Rightarrow> string list" where
  "path_hops context = (case rx_search path_re context of None \<Rightarrow> []
     | Some t \<Rightarrow> filter (\<lambda>h. h \<noteq> []) (map strip (split_arrow (group_or [] 1 t))))"

definition r_name :: rx where
  "r_name = RSeq (RSet is_alpha) (RStar (RSet (\<lambda>d. is_alnum d \<or> d = CHR ''_'' \<or> d = CHR ''-'')))"

definition alert_endpoints_re :: rx where
  "alert_endpoints_re = rseq [RGrp 1 r_name, RPlus r_space, r_lit_ci ''cannot reach'', RPlus r_space, RGrp 2 r_name]"

definition alert_endpoints :: "string list \<Rightarrow> (string \<times> string) option" where
  "alert_endpoints messages = first_some (\<lambda>m. map_option
     (\<lambda>t. (group_or [] 1 t, hd (split_on (CHR '':'') (group_or [] 2 t)))) (rx_search alert_endpoints_re m))
     (rev messages)"

definition quoted :: "string \<Rightarrow> string" where
  "quoted s = CHR 0x27 # s @ [CHR 0x27]"

definition text_field_re :: "string \<Rightarrow> rx" where
  "text_field_re k = rseq [r_lit (quoted k @ '':''), RStar r_space, r_lit [CHR 0x27],
     RGrp 1 (RPlus (RSet (\<lambda>c. c \<noteq> CHR 0x27))), r_lit [CHR 0x27]]"

definition number_field_re :: "string \<Rightarrow> rx" where
  "number_field_re k = rseq [r_lit (quoted k @ '':''), RStar r_space, RGrp 1 (RPlus r_digit)]"

definition field_of :: "rx \<Rightarrow> string \<Rightarrow> string option" where
  "field_of r entry = map_option (group_or [] 1) (rx_search r entry)"

record deny_facts =
  df_src :: string
  df_dst :: string
  df_port :: string
  df_rule :: string

definition denied_flow_facts :: "string list \<Rightarrow> deny_facts option" where
  "denied_flow_facts log = first_some (\<lambda>entry.
     if \<not> starts_with ''get_denied_flows:'' entry then None
     else case (field_of (text_field_re ''src'') entry, field_of (text_field_re ''dst'') entry,
                field_of (number_field_re ''port'') entry) of
            (Some s, Some d, Some p) \<Rightarrow> Some \<lparr>df_src = s, df_dst = d, df_port = p,
              df_rule = (case field_of (text_field_re ''rule_id'') entry of None \<Rightarrow> ''unknown'' | Some r \<Rightarrow> r)\<rparr>
          | _ \<Rightarrow> None) (rev log)"

definition deny_rule_line :: "string list \<Rightarrow> int option" where
  "deny_rule_line log = first_some (\<lambda>entry.
     if starts_with ''get_acl_hits:'' entry \<and> is_substring (quoted ''action'' @ '': '' @ quoted ''deny'') entry
     then map_option parse_int (field_of (number_field_re ''line'') entry) else None) (rev log)"

section \<open>The inferred call\<close>

definition endpoints :: "string list \<Rightarrow> string list \<Rightarrow> string \<times> string" where
  "endpoints hops messages =
     (if hops \<noteq> [] then (hd hops, last hops)
      else case alert_endpoints messages of Some pair \<Rightarrow> pair | None \<Rightarrow> (''Web_App'', ''DB_Primary''))"

definition both_devices :: "string \<Rightarrow> string \<Rightarrow> (string \<times> json) list" where
  "both_devices s d = [(''source_device'', JStr s), (''target_device'', JStr d)]"

definition inferred_proposal :: "deny_facts \<Rightarrow> int \<Rightarrow> tool_call" where
  "inferred_proposal f n = \<lparr>tc_name = ''propose_policy_change'', tc_args =
     [(''device_id'', JStr ''FW_Edge''),
      (''command'', JStr (''access-list DMZ_TO_TRUST extended permit tcp host '' @ df_src f @ '' host '' @ df_dst f
         @ '' eq '' @ df_port f)),
      (''position'', JInt (max (n - 1) 1)),
      (''rationale'', JStr (''Synthesized by ZeroNode from denied flow '' @ df_rule f @ '' ('' @ df_src f @ '' -> ''
         @ df_dst f @ '':'' @ df_port f @ '') because the model did not emit a tool call. Requires human review.''))]\<rparr>"

definition firewall_step :: "string \<Rightarrow> string \<Rightarrow> string list \<Rightarrow> tool_call" where
  "firewall_step src dst log = (case denied_flow_facts log of
     None \<Rightarrow> \<lparr>tc_name = ''get_denied_flows'', tc_args = both_devices src dst\<rparr>
   | Some f \<Rightarrow> (case deny_rule_line log of
         None \<Rightarrow> \<lparr>tc_name = ''get_acl_hits'',
           tc_args = [(''device_id'', JStr ''FW_Edge''), (''rule_id'', JStr (df_rule f))]\<rparr>
       | Some n \<Rightarrow> inferred_proposal f n))"

definition delegation :: "string \<Rightarrow> string \<Rightarrow> string list \<Rightarrow> string \<Rightarrow> string \<Rightarrow> tool_call" where
  "delegation src dst hops topology zone =
     (let devices = (if ''FW_Edge'' \<in> set hops then hops else take 1 hops @ [''FW_Edge''] @ drop 1 hops);
          context = join '' '' (filter (\<lambda>p. p \<noteq> []) [topology, zone])
      in \<lparr>tc_name = ''delegate_to_firewall_specialist'', tc_args =
           [(''context'', JStr (if context = [] then src @ '' cannot reach '' @ dst else context)),
            (''target_devices'', JArr (map JStr devices))]\<rparr>)"

definition infer_tool_call :: "string list \<Rightarrow> string \<Rightarrow> string \<Rightarrow> string list \<Rightarrow> string list \<Rightarrow> tool_call option" where
  "infer_tool_call allowed topology zone log messages =
     (let hops = path_hops topology; (src, dst) = endpoints hops messages
      in if ''propose_policy_change'' \<in> set allowed then Some (firewall_step src dst log)
         else if hops = [] then Some \<lparr>tc_name = ''trace_network_path'', tc_args = both_devices src dst\<rparr>
         else if strip zone = [] \<and> ''security_boundary_check'' \<in> set allowed
         then Some \<lparr>tc_name = ''security_boundary_check'', tc_args = both_devices src dst\<rparr>
         else if ''delegate_to_firewall_specialist'' \<in> set allowed then Some (delegation src dst hops topology zone)
         else None)"

section \<open>The agent with this parser\<close>

record text_view =
  tv_tool :: "tool_text \<Rightarrow> string"
  tv_message :: "message \<Rightarrow> string"

fun log_text :: "text_view \<Rightarrow> log_entry \<Rightarrow> string" where
  "log_text tv (Inferred n) = ''inferred '' @ n @ '' after truncated model output''"
| "log_text tv (Parse_error s) = ''parse_error: '' @ s"
| "log_text tv (Called n t) = n @ '': '' @ tv_tool tv t"

definition parsing_agent :: "json_ext \<Rightarrow> text_view \<Rightarrow> agent_cfg \<Rightarrow> agent_cfg" where
  "parsing_agent jx tv cfg = cfg\<lparr>cf_parse := parse_tool_call jx,
     cf_infer := (\<lambda>allowed st. infer_tool_call allowed (ag_topology st) (ag_zone st)
       (map (log_text tv) (ag_log st)) (map (tv_message tv) (ag_messages st)))\<rparr>"

section \<open>What the patterns capture\<close>

lemma first_some_Some: "first_some f xs = Some y \<Longrightarrow> \<exists>x\<in>set xs. f x = Some y"
  by (induction xs) (auto split: option.splits)

lemma rseq_elim:
  assumes "t \<in> set (run_rx (rseq (r # rs)) s)"
  obtains u where "u \<in> set (run_rx r s)" "t \<in> set (run_rx (rseq rs) u)"
  using assms unfolding run_rseq_Cons set_concat set_map by blast

lemma name_group:
  assumes "t \<in> set (run_rx (RGrp n r_name) s)"
  shows "\<exists>w. device_name w \<and> r_caps t = (n, w) # r_caps s"
proof -
  let ?P = "\<lambda>d. is_alnum d \<or> d = CHR ''_'' \<or> d = CHR ''-''"
  from assms obtain u where u: "u \<in> set (run_rx r_name s)"
    and t: "t = (fst u, r_rest u, (n, take (length (r_rest s) - length (r_rest u)) (r_rest s)) # r_caps u)"
    by auto
  from u obtain v where v: "v \<in> set (run_rx (RSet is_alpha) s)" "u \<in> set (run_rx (RStar (RSet ?P)) v)"
    unfolding r_name_def run_rx.simps(3) set_concat set_map by blast
  from v(1) obtain c where c: "r_rest s = c # r_rest v" "is_alpha c" by (cases "r_rest s") (auto split: if_splits)
  from star_reads[OF v(2)] obtain w where w: "r_rest v = w @ r_rest u" "list_all ?P w" by blast
  have "r_caps u = r_caps s" by (rule no_groups_caps[OF _ u]) (simp add: r_name_def)
  moreover have "take (length (r_rest s) - length (r_rest u)) (r_rest s) = c # w" by (simp add: c w)
  moreover have "device_name (c # w)" using c w by (simp add: device_name_def)
  ultimately show ?thesis by (simp add: t)
qed

lemma alert_endpoints_groups:
  assumes "t \<in> set (run_rx alert_endpoints_re s)" and "r_caps s = []"
  shows "\<exists>a b. device_name a \<and> device_name b \<and> group_or [] 1 t = a \<and> group_or [] 2 t = b"
proof -
  from assms(1) obtain u where u: "u \<in> set (run_rx (RGrp 1 r_name) s)"
    and "t \<in> set (run_rx (rseq [RPlus r_space, r_lit_ci ''cannot reach'', RPlus r_space, RGrp 2 r_name]) u)"
    unfolding alert_endpoints_re_def by (rule rseq_elim)
  from this(2) obtain v1 where v1: "v1 \<in> set (run_rx (RPlus r_space) u)"
    and "t \<in> set (run_rx (rseq [r_lit_ci ''cannot reach'', RPlus r_space, RGrp 2 r_name]) v1)"
    by (rule rseq_elim)
  from this(2) obtain v2 where v2: "v2 \<in> set (run_rx (r_lit_ci ''cannot reach'') v1)"
    and "t \<in> set (run_rx (rseq [RPlus r_space, RGrp 2 r_name]) v2)"
    by (rule rseq_elim)
  from this(2) obtain v where v: "v \<in> set (run_rx (RPlus r_space) v2)"
    and "t \<in> set (run_rx (rseq [RGrp 2 r_name]) v)"
    by (rule rseq_elim)
  then have t: "t \<in> set (run_rx (RGrp 2 r_name) v)" by (simp only: rseq.simps)
  obtain a where a: "device_name a" "r_caps u = (1, a) # r_caps s" using name_group[OF u] by blast
  have "r_caps v = r_caps u"
    using no_groups_caps[OF _ v1] no_groups_caps[OF _ v2] no_groups_caps[OF _ v] by (simp add: RPlus_def r_space_def)
  moreover obtain b where b: "device_name b" "r_caps t = (2, b) # r_caps v" using name_group[OF t] by blast
  ultimately show ?thesis using a b assms(2) by (simp add: group_or_def group_def)
qed

lemma device_name_no_colon: "device_name w \<Longrightarrow> CHR '':'' \<notin> set w"
  by (cases w) (auto simp: device_name_def list_all_iff is_alpha_def is_alnum_def is_digit_def)

lemma alert_endpoints_devices: "alert_endpoints ms = Some (a, b) \<Longrightarrow> device_name a \<and> device_name b"
proof -
  assume "alert_endpoints ms = Some (a, b)"
  then obtain m t where "rx_search alert_endpoints_re m = Some t"
    and ab: "a = group_or [] 1 t" "b = hd (split_on (CHR '':'') (group_or [] 2 t))"
    unfolding alert_endpoints_def by (auto dest!: first_some_Some)
  then obtain q v where "t \<in> set (run_rx alert_endpoints_re (q, v, []))"
    unfolding rx_search_def using search_Some by blast
  from alert_endpoints_groups[OF this] ab show ?thesis
    by (auto simp: split_on_plain device_name_no_colon)
qed

lemma endpoints_devices:
  "list_all device_name hops \<Longrightarrow> endpoints hops ms = (a, b) \<Longrightarrow> device_name a \<and> device_name b"
proof -
  have lab: "device_name ''Web_App''" "device_name ''DB_Primary''" by code_simp+
  assume "list_all device_name hops" "endpoints hops ms = (a, b)"
  then show ?thesis
    using lab alert_endpoints_devices[of ms a b]
    by (auto simp: endpoints_def list_all_iff split: if_splits option.splits)
qed

section \<open>Inferred calls are well formed\<close>

lemma strings_read: "j_strings (map JStr ws) = Some ws"
  by (induction ws) (simp_all add: j_string_def)

lemma both_devices_read: "device_name a \<Longrightarrow> device_name b \<Longrightarrow> two_devices (both_devices a b) f = Some (f a b)"
  by (simp add: two_devices_def both_devices_def device_field_def str_field_def)

lemma edge_device: "device_name ''FW_Edge''"
  by code_simp

lemma firewall_step_validates:
  assumes "device_name a" and "device_name b" and "\<And>i. as_int (JInt i) = Some i"
  shows "tc_name (firewall_step a b log) \<in> set firewall_tools \<and> validate_args as_int (firewall_step a b log) \<noteq> None"
proof (cases "denied_flow_facts log")
  case None
  then show ?thesis
    by (simp add: firewall_step_def firewall_tools_def validate_args_def both_devices_read[OF assms(1,2)])
      (simp add: port_field_def optional_field_def both_devices_def)
next
  case (Some f)
  show ?thesis
  proof (cases "deny_rule_line log")
    case None
    then show ?thesis
      using Some edge_device
      by (simp add: firewall_step_def firewall_tools_def validate_args_def device_field_def str_field_def
          optional_field_def j_nullable_def j_string_def)
  next
    case (Some n)
    then show ?thesis
      using \<open>denied_flow_facts log = Some f\<close> edge_device assms(3)
      by (simp add: firewall_step_def firewall_tools_def validate_args_def inferred_proposal_def propose_args_def
          device_field_def str_field_def optional_field_def j_nullable_def)
  qed
qed

lemma topology_step_validates:
  assumes "device_name a" and "device_name b"
    and "tc_name c \<in> {''trace_network_path'', ''security_boundary_check''}" and "tc_args c = both_devices a b"
  shows "tc_name c \<in> set supervisor_tools \<and> validate_args as_int c \<noteq> None"
  using assms both_devices_read[OF assms(1,2)] by (auto simp: supervisor_tools_def validate_args_def Let_def)

lemma delegation_validates:
  "tc_name (delegation a b hops tp z) \<in> set supervisor_tools \<and> validate_args as_int (delegation a b hops tp z) \<noteq> None"
  by (simp add: delegation_def supervisor_tools_def validate_args_def Let_def str_field_def strings_read)

section \<open>The first match\<close>

text \<open>The match a pattern prefers.\<close>

definition wins :: "rx \<Rightarrow> rpos \<Rightarrow> rpos \<Rightarrow> bool" where
  "wins r s t = (\<exists>ts. run_rx r s = t # ts)"

lemma wins_rseq: "wins r s u \<Longrightarrow> wins (rseq rs) u t \<Longrightarrow> wins (rseq (r # rs)) s t"
  by (auto simp: wins_def run_rseq_Cons)

lemma wins_last: "wins r s t \<Longrightarrow> wins (rseq [r]) s t"
  by simp

lemma run_lit_ci_exact: "\<exists>q. run_rx (r_lit_ci (lower x)) (p, x @ s, g) = [(q, s, g)]"
proof (induction x arbitrary: p)
  case (Cons c x)
  obtain q where "run_rx (r_lit_ci (lower x)) (Some c, x @ s, g) = [(q, s, g)]" using Cons by blast
  then have "run_rx (rseq (RSet (\<lambda>d. lower_char d = lower_char c) # map (\<lambda>c. RSet (\<lambda>d. lower_char d = c)) (lower x)))
      (p, (c # x) @ s, g) = [(q, s, g)]"
    unfolding run_rseq_Cons by (simp add: r_lit_ci_def)
  then show ?case by (auto simp: r_lit_ci_def lower_def)
qed (simp add: r_lit_ci_def lower_def)

lemma run_lit_ci_miss: "lower_char c \<noteq> a \<Longrightarrow> run_rx (r_lit_ci (a # w)) (p, c # s, g) = []"
  unfolding r_lit_ci_def list.map run_rseq_Cons by simp

lemma lit_reads: "t \<in> set (run_rx (r_lit w) s) \<Longrightarrow> r_rest s = w @ r_rest t"
proof (induction w arbitrary: s)
  case (Cons c w)
  have "t \<in> set (run_rx (rseq (RSet (\<lambda>d. d = c) # map (\<lambda>c. RSet (\<lambda>d. d = c)) w)) s)"
    using Cons.prems by (simp add: r_lit_def)
  then obtain u where u: "u \<in> set (run_rx (RSet (\<lambda>d. d = c)) s)"
    and t: "t \<in> set (run_rx (rseq (map (\<lambda>c. RSet (\<lambda>d. d = c)) w)) u)" by (rule rseq_elim)
  from u have "r_rest s = c # r_rest u" by (cases "r_rest s") (auto split: if_splits)
  then show ?case using Cons.IH[of u] t by (simp add: r_lit_def)
qed (simp add: r_lit_def)

lemma spaces_first:
  assumes "list_all is_space w" and "s = [] \<or> \<not> is_space (hd s)"
  shows "\<exists>q. wins (RStar r_space) (p, w @ s, g) (q, s, g)"
proof -
  have "length w \<le> length fuel \<Longrightarrow> \<exists>q ts. rep_greedy (run_rx r_space) fuel (p, w @ s, g) = (q, s, g) # ts" for fuel
    using assms(1)
  proof (induction w arbitrary: p fuel)
    case Nil
    have "run_rx r_space (p, s, g) = []" using assms(2) by (cases s) (auto simp: r_space_def)
    then show ?case by (cases fuel) auto
  next
    case (Cons c w)
    then obtain d f where fuel: "fuel = d # f" "length w \<le> length f" by (cases fuel) auto
    then obtain q ts where "rep_greedy (run_rx r_space) f (Some c, w @ s, g) = (q, s, g) # ts"
      using Cons by fastforce
    then show ?case using Cons.prems(2) by (simp add: fuel(1) r_space_def)
  qed
  from this[of "w @ s"] show ?thesis by (auto simp: wins_def)
qed

text \<open>A lazy group stops where the rest of the pattern first matches.\<close>

lemma lazy_group_first:
  assumes fail: "\<And>x y q caps. b = x @ y \<Longrightarrow> y \<noteq> [] \<Longrightarrow> run_rx r (q, y @ s, caps) = []"
    and hit: "\<And>q caps. \<exists>q'. wins r (q, s, caps) (q', s', caps)"
  shows "\<exists>q. wins (RSeq (RGrp n (RLazy r_any)) r) (p, b @ s, g) (q, s', (n, b) # g)"
proof -
  define wrap where "wrap = (\<lambda>t. (fst t, r_rest t, (n, take (length (b @ s) - length (r_rest t)) (b @ s)) # r_caps t))"
  have "\<exists>q ts. concat (map (run_rx r) (map wrap (rep_lazy (run_rx r_any) fuel (p, y @ s, g)))) = (q, s', (n, b) # g) # ts"
    if "b = x @ y" "length y \<le> length fuel" for x y fuel p
    using that
  proof (induction y arbitrary: x p fuel)
    case Nil
    then have w: "wrap (p, s, g) = (p, s, (n, b) # g)" by (simp add: wrap_def)
    obtain q' ts where "run_rx r (p, s, (n, b) # g) = (q', s', (n, b) # g) # ts" using hit by (fastforce simp: wins_def)
    then show ?case using w by (cases fuel) auto
  next
    case (Cons c y)
    then obtain d f where fuel: "fuel = d # f" "length y \<le> length f" by (cases fuel) auto
    have "run_rx r (wrap (p, (c # y) @ s, g)) = []" using fail[OF Cons.prems(1)] by (simp add: wrap_def)
    moreover obtain q ts where
      "concat (map (run_rx r) (map wrap (rep_lazy (run_rx r_any) f (Some c, y @ s, g)))) = (q, s', (n, b) # g) # ts"
      using Cons.IH[of "x @ [c]" f "Some c"] Cons.prems(1) fuel(2) by auto
    ultimately show ?case by (simp add: fuel(1) r_any_def)
  qed
  from this[of "[]" b "b @ s" p] show ?thesis by (auto simp: wins_def wrap_def)
qed

lemma search_skips:
  "(\<And>p x c u. w = x @ c # u \<Longrightarrow> run_rx r (p, c # u @ s, []) = []) \<Longrightarrow>
     search_from r p (w @ s) = search_from r (if w = [] then p else Some (last w)) s"
proof (induction w arbitrary: p)
  case (Cons c w)
  then have "run_rx r (p, c # w @ s, []) = []" by blast
  moreover have "search_from r (Some c) (w @ s) = search_from r (if w = [] then Some c else Some (last w)) s"
    by (rule Cons.IH) (use Cons.prems in \<open>metis append_Cons\<close>)
  ultimately show ?case by simp
qed simp

lemma wins_search: "wins r (p, s, []) t \<Longrightarrow> search_from r p s = Some t"
  by (cases s) (auto simp: wins_def)

section \<open>A tagged call\<close>

definition tagged :: "string \<Rightarrow> string \<Rightarrow> string \<Rightarrow> string \<Rightarrow> string \<Rightarrow> string" where
  "tagged pre w1 body w2 post = pre @ ''<tool_call>'' @ w1 @ body @ w2 @ ''</tool_call>'' @ post"

lemma lower_tags: "lower ''<tool_call>'' = ''<tool_call>''" "lower ''</tool_call>'' = ''</tool_call>''"
  by code_simp+

text \<open>Text in which the tag begins nowhere, not even in a way that the text after it completes.\<close>

fun free_of :: "string \<Rightarrow> string \<Rightarrow> bool" where
  "free_of tag [] = True"
| "free_of tag (c # s) = (lower (take (length tag) (c # s)) \<noteq> take (Suc (length s)) tag \<and> free_of tag s)"

lemma free_of_append: "free_of tag (x @ y) \<Longrightarrow> free_of tag y"
  by (induction x) auto

lemma lit_ci_reads: "t \<in> set (run_rx (r_lit_ci w) s) \<Longrightarrow> lower (take (length w) (r_rest s)) = w"
proof (induction w arbitrary: s)
  case (Cons c w)
  have "t \<in> set (run_rx (rseq (RSet (\<lambda>d. lower_char d = c) # map (\<lambda>c. RSet (\<lambda>d. lower_char d = c)) w)) s)"
    using Cons.prems by (simp add: r_lit_ci_def)
  then obtain u where u: "u \<in> set (run_rx (RSet (\<lambda>d. lower_char d = c)) s)"
    and t: "t \<in> set (run_rx (rseq (map (\<lambda>c. RSet (\<lambda>d. lower_char d = c)) w)) u)" by (rule rseq_elim)
  from u obtain d where "r_rest s = d # r_rest u" "lower_char d = c" by (cases "r_rest s") (auto split: if_splits)
  then show ?case using Cons.IH[of u] t by (simp add: r_lit_ci_def lower_def)
qed (simp add: lower_def)

lemma take_lower: "take (length x) (lower (take m (x @ s))) = lower (take m x)"
  by (cases "length x \<le> m") (simp_all add: lower_def take_map min_def)

lemma free_of_miss:
  assumes "free_of tag (c # u)"
  shows "run_rx (r_lit_ci tag) (p, c # u @ s, g) = []"
proof (rule ccontr)
  assume "run_rx (r_lit_ci tag) (p, c # u @ s, g) \<noteq> []"
  then obtain t where "t \<in> set (run_rx (r_lit_ci tag) (p, c # u @ s, g))" by (meson list.set_sel(1))
  then have "lower (take (length tag) (r_rest (p, c # u @ s, g))) = tag" by (rule lit_ci_reads)
  then have "lower (take (length tag) ((c # u) @ s)) = tag" by (simp only: r_rest_def fst_conv snd_conv append_Cons)
  then have "take (Suc (length u)) (lower (take (length tag) ((c # u) @ s))) = take (Suc (length u)) tag" by (rule arg_cong)
  moreover have "take (Suc (length u)) (lower (take (length tag) ((c # u) @ s))) = lower (take (length tag) (c # u))"
    using take_lower[of "c # u" "length tag" s] by (simp only: list.size(4) add_Suc_right add_0_right)
  ultimately show False using assms by simp
qed

lemma close_tag_missing:
  assumes "y \<noteq> []" and "free_of ''</tool_call>'' y" and "\<not> is_space (last y)"
  shows "run_rx (rseq [RStar r_space, r_lit_ci ''</tool_call>'']) (q, y @ s, g) = []"
proof -
  have "run_rx (r_lit_ci ''</tool_call>'') u = []" if "u \<in> set (run_rx (RStar r_space) (q, y @ s, g))" for u
  proof -
    have "\<exists>w. y @ s = w @ r_rest u \<and> list_all is_space w"
      using star_reads[of u is_space "(q, y @ s, g)"] that unfolding r_space_def by (simp del: run_rx.simps)
    then obtain w where w: "y @ s = w @ r_rest u" "list_all is_space w" by blast
    have "length w < length y"
    proof (rule ccontr)
      assume "\<not> length w < length y"
      then have "y = take (length y) w" using w(1) by (metis append_eq_append_conv_if append_take_drop_id linorder_not_less same_append_eq take_all_iff)
      then have "set y \<subseteq> set w" by (metis set_take_subset)
      then have "last y \<in> set w" using last_in_set[OF assms(1)] by blast
      then show False using w(2) assms(3) by (simp add: list_all_iff)
    qed
    then have "r_rest u = drop (length w) y @ s" using w(1) by (metis append_eq_conv_conj drop_append diff_is_0_eq drop_0 less_imp_le_nat)
    moreover obtain c z where "drop (length w) y = c # z" using \<open>length w < length y\<close> by (cases "drop (length w) y") auto
    moreover have "free_of ''</tool_call>'' (c # z)"
      using assms(2) calculation(2) by (metis append_take_drop_id free_of_append)
    ultimately show ?thesis
      using free_of_miss[of "''</tool_call>''" c z "fst u" s "r_caps u"] by (cases u) (simp add: r_rest_def r_caps_def)
  qed
  then show ?thesis by (simp add: run_rseq_Cons)
qed

lemma tagged_search:
  assumes "free_of ''<tool_call>'' pre" and "free_of ''</tool_call>'' body" and "body \<noteq> []"
    and "\<not> is_space (hd body)" "\<not> is_space (last body)" and "list_all is_space w1" "list_all is_space w2"
  shows "\<exists>q. rx_search tool_call_re (tagged pre w1 body w2 post) = Some (q, post, [(1, body)])"
proof -
  let ?close = "rseq [RStar r_space, r_lit_ci ''</tool_call>'']"
  let ?tl = "w2 @ ''</tool_call>'' @ post"
  have re: "tool_call_re = rseq (r_lit_ci ''<tool_call>'' # RStar r_space # [RSeq (RGrp 1 (RLazy r_any)) ?close])"
    by (simp add: tool_call_re_def)
  have skip: "run_rx tool_call_re (p, c # u @ s, []) = []" if "pre = x @ c # u" for p x c u s
    using free_of_miss[OF free_of_append[of _ x "c # u"]] that assms(1) unfolding re run_rseq_Cons by simp
  have hit: "\<exists>q'. wins ?close (q, ?tl, g) (q', post, g)" for q g
  proof -
    obtain q1 where "wins (RStar r_space) (q, ?tl, g) (q1, ''</tool_call>'' @ post, g)"
      using spaces_first[OF assms(7), of "''</tool_call>'' @ post"] by (auto simp: is_space_def)
    moreover obtain q2 where "wins (r_lit_ci ''</tool_call>'') (q1, ''</tool_call>'' @ post, g) (q2, post, g)"
      using run_lit_ci_exact[of "''</tool_call>''" q1 post g] unfolding lower_tags by (auto simp: wins_def)
    ultimately show ?thesis using wins_rseq wins_last by blast
  qed
  have fail: "run_rx ?close (q, y @ ?tl, caps) = []" if "body = x @ y" "y \<noteq> []" for x y q caps
    using that assms(2,5) by (intro close_tag_missing) (auto dest: free_of_append)
  define p where "p = (if pre = [] then None else Some (last pre))"
  obtain p1 where "run_rx (r_lit_ci ''<tool_call>'') (p, ''<tool_call>'' @ w1 @ body @ ?tl, []) = [(p1, w1 @ body @ ?tl, [])]"
    using run_lit_ci_exact[of "''<tool_call>''" p "w1 @ body @ ?tl" "[]"] unfolding lower_tags by blast
  then have a: "wins (r_lit_ci ''<tool_call>'') (p, ''<tool_call>'' @ w1 @ body @ ?tl, []) (p1, w1 @ body @ ?tl, [])"
    by (simp add: wins_def)
  obtain p2 where b: "wins (RStar r_space) (p1, w1 @ body @ ?tl, []) (p2, body @ ?tl, [])"
    using spaces_first[OF assms(6), of "body @ ?tl" p1 "[]"] assms(3,4) by auto
  have c': "\<exists>q. wins (RSeq (RGrp 1 (RLazy r_any)) ?close) (p2, body @ ?tl, []) (q, post, [(1, body)])"
    by (rule lazy_group_first) (erule (1) fail, rule hit)
  obtain q where c: "wins (RSeq (RGrp 1 (RLazy r_any)) ?close) (p2, body @ ?tl, []) (q, post, [(1, body)])"
    using c' by blast
  have "wins tool_call_re (p, ''<tool_call>'' @ w1 @ body @ ?tl, []) (q, post, [(1, body)])"
    unfolding re by (rule wins_rseq[OF a wins_rseq[OF b wins_last[OF c]]])
  then have "search_from tool_call_re p (''<tool_call>'' @ w1 @ body @ ?tl) = Some (q, post, [(1, body)])"
    by (rule wins_search)
  then have "search_from tool_call_re None (tagged pre w1 body w2 post) = Some (q, post, [(1, body)])"
    unfolding tagged_def p_def using skip by (subst search_skips) blast+
  then show ?thesis unfolding rx_search_def by blast
qed

text \<open>A text without backticks at its ends has no fence.\<close>

lemma no_fence:
  assumes "s \<noteq> []" and "hd s \<noteq> CHR 0x60" and "last s \<noteq> CHR 0x60" and "last s \<noteq> CHR 0x0A"
  shows "rx_sub fence_re [] s = s"
proof -
  let ?start = "rseq [RBol, r_lit backticks, ROpt (r_lit_ci ''json''), RStar r_space]"
  let ?stop = "rseq [RStar r_space, r_lit backticks, REol]"
  have start: "run_rx ?start (p, u, []) = []" if "p = None \<Longrightarrow> u = s" for p u
  proof (cases p)
    case None
    have "run_rx (r_lit backticks) (None, s, []) = []"
    proof -
      have "\<not> (\<exists>v. s = backticks @ v)" using assms(2) by (auto simp: backticks_def numeral_3_eq_3)
      then have "t \<notin> set (run_rx (r_lit backticks) (None, s, []))" for t
        using lit_reads[of t backticks "(None, s, [])"] by auto
      then show ?thesis by (metis list.set_intros(1) neq_Nil_conv)
    qed
    then show ?thesis using that None by (simp add: run_rseq_Cons del: rseq.simps)
  qed (simp add: run_rseq_Cons del: rseq.simps)
  have stop: "run_rx ?stop (p, u, []) = []" if "suffix u s" "u \<noteq> []" for p u
  proof (rule ccontr)
    assume "run_rx ?stop (p, u, []) \<noteq> []"
    then obtain t where "t \<in> set (run_rx ?stop (p, u, []))" by (meson list.set_sel(1))
    then obtain v where v: "v \<in> set (run_rx (RStar r_space) (p, u, []))"
      and "t \<in> set (run_rx (rseq [r_lit backticks, REol]) v)" by (rule rseq_elim)
    from this(2) obtain x where x: "x \<in> set (run_rx (r_lit backticks) v)"
      and "t \<in> set (run_rx (rseq [REol]) x)" by (rule rseq_elim)
    then have "at_end x" by (auto split: if_splits)
    moreover have "suffix (r_rest v) u" using run_rx_suffix[OF v] by simp
    then have "suffix (backticks @ r_rest x) s" using lit_reads[OF x] that(1) by (auto intro: suffix_order.trans)
    ultimately have "last s \<in> {CHR 0x60, CHR 0x0A}"
      by (auto simp: at_end_def suffix_def backticks_def numeral_3_eq_3)
    then show False using assms(3,4) by simp
  qed
  have "sub_from fence_re [] p u = u" if "p = None \<Longrightarrow> u = s" "suffix u s" for p u
    using that
  proof (induction u arbitrary: p)
    case (Cons c u)
    have "run_rx fence_re (p, c # u, []) = []"
      using start[of p "c # u"] stop[of "c # u" p] Cons.prems by (simp add: fence_re_def del: rseq.simps)
    then show ?case using Cons.IH[of "Some c"] Cons.prems(2) by (simp add: suffix_ConsD)
  qed simp
  from this[of None s] show ?thesis by (simp add: rx_sub_def)
qed

lemma payload_of_call:
  assumes "v = JObj [(''name'', JStr name), (''arguments'', JObj args)]" and "keys_ok v" and "name \<noteq> []"
  shows "payload_to_call jx (dump_json v) = Some \<lparr>tc_name = name, tc_args = args\<rparr>"
proof -
  have shape: "dump_json v = CHR ''{'' # dump_members [(''name'', JStr name), (''arguments'', JObj args)] @ ''}''"
    by (simp add: assms(1))
  have "strip (dump_json v) = dump_json v"
    by (rule strip_fixed) (simp add: shape is_space_def del: dump_members.simps)
  moreover have "rx_sub fence_re [] (dump_json v) = dump_json v"
    by (rule no_fence) (simp_all add: shape del: dump_members.simps)
  ultimately show ?thesis
    using assms by (simp add: payload_to_call_def loads_dump del: dump_json.simps)
qed

section \<open>Properties\<close>

lemma parse_tagged:
  assumes "payload_to_call jx body = Some call" and "free_of ''<tool_call>'' pre" and "free_of ''</tool_call>'' body" and "body \<noteq> []"
    and "\<not> is_space (hd body)" "\<not> is_space (last body)" and "list_all is_space w1" "list_all is_space w2"
  shows "parse_tool_call jx (tagged pre w1 body w2 post) = Some call"
proof -
  obtain q where "rx_search tool_call_re (tagged pre w1 body w2 post) = Some (q, post, [(1, body)])"
    using tagged_search[OF assms(2-8)] by blast
  moreover have "strip body = body" by (rule strip_fixed) (simp add: assms)
  ultimately show ?thesis
    by (simp add: assms(1) parse_tool_call_def candidate_json_blobs_def found_blob_def group_or_def group_def)
qed

text \<open>C27. A call that the model writes between the tags is recovered exactly, as long as its JSON text does not
  contain the closing tag itself: whatever prose without an opening tag stands before it, the thinking block included,
  whatever follows it, whatever blanks surround it and whatever name and arguments it has, the first candidate is
  its JSON text and the call is the one that was spelled.\<close>

theorem tagged_call_recovered:
  assumes "v = JObj [(''name'', JStr name), (''arguments'', JObj args)]" and "keys_ok v" and "name \<noteq> []"
    and "free_of ''<tool_call>'' pre" and "free_of ''</tool_call>'' (dump_json v)"
    and "list_all is_space w1" and "list_all is_space w2"
  shows "parse_tool_call jx (tagged pre w1 (dump_json v) w2 post) = Some \<lparr>tc_name = name, tc_args = args\<rparr>"
proof -
  have shape: "dump_json v = CHR ''{'' # dump_members [(''name'', JStr name), (''arguments'', JObj args)] @ ''}''"
    by (simp add: assms(1))
  have "dump_json v \<noteq> []" "\<not> is_space (hd (dump_json v))" "\<not> is_space (last (dump_json v))"
    by (simp_all add: shape is_space_def del: dump_members.simps)
  then show ?thesis using parse_tagged[OF payload_of_call[OF assms(1-3)] assms(4,5)] assms(6,7) by blast
qed

definition plain_ext :: json_ext where
  "plain_ext = \<lparr>jx_float = JStr, jx_char = (\<lambda>_. [])\<rparr>"

lemma tagged_call_recovered_witness:
  "parse_tool_call plain_ext (tagged ''<thinking>I check.</thinking> '' [CHR 0x0A]
     (dump_json (JObj [(''name'', JStr ''resolve_without_change''), (''arguments'', JObj [(''summary'', JStr ''a <b> c'')])]))
     [] ''done'') = Some \<lparr>tc_name = ''resolve_without_change'', tc_args = [(''summary'', JStr ''a <b> c'')]\<rparr>"
proof (rule tagged_call_recovered)
  show "free_of ''</tool_call>'' (dump_json (JObj [(''name'', JStr ''resolve_without_change''),
    (''arguments'', JObj [(''summary'', JStr ''a <b> c'')])]))" by code_simp
  show "free_of ''<tool_call>'' ''<thinking>I check.</thinking> ''" by code_simp
qed (simp_all add: is_space_def)

text \<open>A closing tag within an argument ends the first candidate there, and a brace before it the others.\<close>

theorem closing_tag_loses_call:
  "parse_tool_call plain_ext (tagged [] []
     (dump_json (JObj [(''name'', JStr ''t''), (''arguments'', JObj [(''x'', JStr ''}</tool_call>'')])])) [] []) = None"
  by code_simp

text \<open>C28. Where inference is allowed, a turn of a model that answers with prose always has a call, it is one
  of the node's own tools, and its arguments pass the validation of that tool, so that an inferred step is
  never lost; the hops of the traced path only have to be well-formed names.\<close>

theorem inferred_call_validates:
  assumes "n = Supervisor \<or> n = Specialist" and "list_all device_name (path_hops (ag_topology st))"
    and "\<And>i. cf_int cfg (JInt i) = Some i"
  shows "\<exists>call. cf_infer (parsing_agent jx tv cfg) (tools_of n) st = Some call \<and>
    tc_name call \<in> set (tools_of n) \<and> validate_args (cf_int cfg) call \<noteq> None"
proof -
  let ?hops = "path_hops (ag_topology st)" and ?log = "map (log_text tv) (ag_log st)"
  let ?ms = "map (tv_message tv) (ag_messages st)"
  obtain a b where e: "endpoints ?hops ?ms = (a, b)" by (cases "endpoints ?hops ?ms")
  from endpoints_devices[OF assms(2) e] have ab: "device_name a" "device_name b" by auto
  have i: "cf_infer (parsing_agent jx tv cfg) (tools_of n) st =
      infer_tool_call (tools_of n) (ag_topology st) (ag_zone st) ?log ?ms"
    by (simp add: parsing_agent_def)
  show ?thesis
  proof (cases "n = Specialist")
    case True
    then have n: "tools_of n = firewall_tools" by (simp add: tools_of_def)
    have "''propose_policy_change'' \<in> set firewall_tools" by (simp add: firewall_tools_def)
    then have "infer_tool_call (tools_of n) (ag_topology st) (ag_zone st) ?log ?ms = Some (firewall_step a b ?log)"
      using e by (simp add: n infer_tool_call_def)
    then show ?thesis
      unfolding i using firewall_step_validates[OF ab, of "cf_int cfg" ?log] assms(3) by (simp add: n)
  next
    case False
    then have n: "tools_of n = supervisor_tools" using assms(1) by (simp add: tools_of_def)
    have no: "''propose_policy_change'' \<notin> set supervisor_tools" by (simp add: supervisor_tools_def)
    have yes: "''delegate_to_firewall_specialist'' \<in> set supervisor_tools" by (simp add: supervisor_tools_def)
    let ?good = "\<lambda>c. tc_name c \<in> set supervisor_tools \<and> validate_args (cf_int cfg) c \<noteq> None"
    have t: "?good \<lparr>tc_name = w, tc_args = both_devices a b\<rparr>"
      if "w \<in> {''trace_network_path'', ''security_boundary_check''}" for w
      using topology_step_validates[OF ab, of "\<lparr>tc_name = w, tc_args = both_devices a b\<rparr>"] that by simp
    have "\<exists>call. infer_tool_call supervisor_tools (ag_topology st) (ag_zone st) ?log ?ms = Some call \<and> ?good call"
    proof (cases "?hops = []")
      case True
      then show ?thesis
        using t[of "''trace_network_path''"] e no by (simp add: infer_tool_call_def Let_def)
    next
      case False
      then show ?thesis
        using t[of "''security_boundary_check''"] delegation_validates[of a b ?hops _ _ "cf_int cfg"] e no yes
        by (cases "strip (ag_zone st) = [] \<and> ''security_boundary_check'' \<in> set supervisor_tools")
          (simp_all add: infer_tool_call_def Let_def)
    qed
    then show ?thesis unfolding i by (simp add: n)
  qed
qed

definition plain_view :: text_view where
  "plain_view = \<lparr>tv_tool = (\<lambda>_. []), tv_message = (\<lambda>m. case m of User_text s \<Rightarrow> s | _ \<Rightarrow> [])\<rparr>"

definition silent_agent :: agent_cfg where
  "silent_agent = \<lparr>cf_parse = (\<lambda>_. None), cf_infer = (\<lambda>_ _. None),
     cf_int = (\<lambda>v. case v of JInt n \<Rightarrow> Some n | _ \<Rightarrow> None), cf_fallback = True, cf_node_budget = 0,
     cf_incident_budget = 0, cf_store = Memory lab_devices\<rparr>"

definition first_state :: agent_state where
  "first_state = \<lparr>ag_messages = [User_text ''Host A cannot reach B''], ag_incident = ''I'', ag_worker = [],
     ag_summary = Text [], ag_pending = [], ag_denied = [], ag_verification = [], ag_attempts = 0,
     ag_execution = None, ag_topology = ''Traffic flows through: A -> FW_Edge -> B'', ag_zone = [], ag_flags = [],
     ag_log = [], ag_brief = [], ag_decision = [], ag_feedback = [], ag_actor = [], ag_key = [], ag_site = [],
     ag_elapsed = 0, ag_by_node = []\<rparr>"

lemma inferred_call_validates_witness:
  "\<exists>call. cf_infer (parsing_agent plain_ext plain_view silent_agent) (tools_of Supervisor) first_state = Some call \<and>
     tc_name call \<in> set (tools_of Supervisor) \<and> validate_args (cf_int silent_agent) call \<noteq> None"
proof (rule inferred_call_validates)
  show "list_all device_name (path_hops (ag_topology first_state))" by code_simp
qed (simp_all add: silent_agent_def)

end
