(* ===== verification/Netbox.thy ===== *)
theory Netbox
  imports Ingress "HOL-Library.List_Lexorder"
begin

text \<open>
  Reading the inventory: \<open>store/netbox.py\<close> (the paginating reader, \<open>build_topology\<close>, \<open>to_cypher\<close>) and the
  ingest of \<open>store/topology_ingest.py\<close>. The payloads are JSON values with the types that NetBox documents:
  names, slugs and addresses are texts or null, nested objects are dicts or null. The six statements the
  program sends to the graph database are constructors, with the meaning Cypher gives them.
\<close>

section \<open>Payloads\<close>

definition get :: "string \<Rightarrow> json \<Rightarrow> json" where
  "get k v = (case v of JObj ms \<Rightarrow> (case map_of ms k of None \<Rightarrow> JNull | Some x \<Rightarrow> x) | _ \<Rightarrow> JNull)"

definition either :: "json \<Rightarrow> json \<Rightarrow> json" where
  "either a b = (if truthy a then a else b)"

fun as_text :: "json \<Rightarrow> string" where
  "as_text (JStr s) = s"
| "as_text v = []"

fun items :: "json \<Rightarrow> json list" where
  "items (JArr vs) = vs"
| "items v = []"

section \<open>The topology\<close>

record nb_interface =
  nf_device :: string
  nf_name :: string
  nf_ip :: string
  nf_mac :: string
  nf_enabled :: bool

definition port_id :: "string \<Rightarrow> string \<Rightarrow> string" where
  "port_id device name = device @ '':'' @ name"

definition nf_id :: "nb_interface \<Rightarrow> string" where
  "nf_id f = port_id (nf_device f) (nf_name f)"

record nb_device =
  nd_name :: string
  nd_role :: string
  nd_vendor :: string
  nd_platform :: string
  nd_site :: string
  nd_ip :: string
  nd_zone :: string

datatype nb_warning = Unnamed json | No_zone string | Untraced string

record nb_topology =
  nt_devices :: "nb_device list"
  nt_interfaces :: "nb_interface list"
  nt_links :: "(string \<times> string) list"
  nt_warnings :: "nb_warning list"

definition nb_summary :: "nb_topology \<Rightarrow> string" where
  "nb_summary t =
     (let n = (\<lambda>k. show_int (int k)); devices = length (nt_devices t)
      in n devices @ '' devices, '' @ n (length (nt_interfaces t)) @ '' interfaces, '' @ n (length (nt_links t))
         @ '' links, '' @ n (length (filter (\<lambda>d. nd_zone d \<noteq> []) (nt_devices t))) @ ''/'' @ n devices
         @ '' with a security zone'')"

definition strip_prefix :: "string \<Rightarrow> string" where
  "strip_prefix address = hd (split_on (CHR ''/'') address)"

text \<open>\<open>str_of\<close> is \<open>str\<close> of a value that is no text.\<close>

definition tag_name :: "(json \<Rightarrow> string) \<Rightarrow> json \<Rightarrow> string" where
  "tag_name str_of tag = (case tag of JObj ms \<Rightarrow> as_text (get ''name'' tag) | JStr s \<Rightarrow> s | _ \<Rightarrow> str_of tag)"

definition zone_of :: "(json \<Rightarrow> string) \<Rightarrow> json \<Rightarrow> string" where
  "zone_of str_of device =
     (let custom = get ''security_zone'' (get ''custom_fields'' device)
      in if truthy custom then upper (strip (case custom of JStr s \<Rightarrow> s | _ \<Rightarrow> str_of custom))
         else case List.find (\<lambda>tag. starts_with ''zone:'' (lower (tag_name str_of tag))) (items (get ''tags'' device)) of
                None \<Rightarrow> [] | Some tag \<Rightarrow> upper (strip (drop 5 (tag_name str_of tag))))"

definition device_of :: "(json \<Rightarrow> string) \<Rightarrow> json \<Rightarrow> nb_device" where
  "device_of str_of r =
     \<lparr>nd_name = as_text (get ''name'' r),
      nd_role = as_text (get ''slug'' (either (get ''role'' r) (get ''device_role'' r))),
      nd_vendor = as_text (get ''name'' (get ''manufacturer'' (get ''device_type'' r))),
      nd_platform = as_text (get ''slug'' (get ''platform'' r)),
      nd_site = as_text (get ''name'' (get ''site'' r)),
      nd_ip = strip_prefix (as_text (get ''address'' (either (get ''primary_ip4'' r) (get ''primary_ip'' r)))),
      nd_zone = zone_of str_of r\<rparr>"

definition add_device :: "(json \<Rightarrow> string) \<Rightarrow> nb_topology \<Rightarrow> json \<Rightarrow> nb_topology" where
  "add_device str_of t r =
     (let d = device_of str_of r
      in if nd_name d = [] then t\<lparr>nt_warnings := nt_warnings t @ [Unnamed (get ''id'' r)]\<rparr>
         else t\<lparr>nt_devices := nt_devices t @ [d],
                nt_warnings := nt_warnings t @ (if nd_zone d = [] then [No_zone (nd_name d)] else [])\<rparr>)"

definition address_by_interface :: "json list \<Rightarrow> (json \<times> string) list" where
  "address_by_interface addresses = foldl (\<lambda>m r.
     if truthy (get ''assigned_object_id'' r) \<and> get ''assigned_object_type'' r = JStr ''dcim.interface''
     then al_put (get ''assigned_object_id'' r) (strip_prefix (as_text (get ''address'' r))) m else m) [] addresses"

definition interface_of :: "(json \<times> string) list \<Rightarrow> json \<Rightarrow> nb_interface" where
  "interface_of addresses r =
     \<lparr>nf_device = as_text (get ''name'' (get ''device'' r)), nf_name = as_text (get ''name'' r),
      nf_ip = (case map_of addresses (get ''id'' r) of None \<Rightarrow> [] | Some a \<Rightarrow> a),
      nf_mac = as_text (get ''mac_address'' r),
      nf_enabled = (case r of JObj ms \<Rightarrow> (case map_of ms ''enabled'' of None \<Rightarrow> True | Some v \<Rightarrow> truthy v) | _ \<Rightarrow> True)\<rparr>"

definition on_known :: "string list \<Rightarrow> json \<Rightarrow> bool" where
  "on_known names r \<longleftrightarrow> (let n = as_text (get ''name'' (get ''device'' r)) in n \<noteq> [] \<and> n \<in> set names)"

text \<open>The interfaces and the dict of their names by NetBox's id.\<close>

definition add_interface ::
  "string list \<Rightarrow> (json \<times> string) list \<Rightarrow> nb_interface list \<times> (json \<times> string) list \<Rightarrow> json \<Rightarrow>
   nb_interface list \<times> (json \<times> string) list" where
  "add_interface names addresses st r =
     (if \<not> on_known names r then st
      else let f = interface_of addresses r in (fst st @ [f], al_put (get ''id'' r) (nf_id f) (snd st)))"

section \<open>Links\<close>

definition peer_target :: "json \<Rightarrow> string option" where
  "peer_target peer = (case peer of
     JObj ms \<Rightarrow> (let d = as_text (get ''name'' (get ''device'' peer)); n = as_text (get ''name'' peer)
                 in if d = [] \<or> n = [] then None else Some (port_id d n))
   | _ \<Rightarrow> None)"

definition edge :: "string \<times> string \<Rightarrow> string \<times> string" where
  "edge = (\<lambda>(a, b). if b < a then (b, a) else (a, b))"

text \<open>\<open>seen\<close> is the set of the edges of the links so far.\<close>

definition add_peer :: "string list \<Rightarrow> string \<Rightarrow> (string \<times> string) list \<Rightarrow> json \<Rightarrow> (string \<times> string) list" where
  "add_peer ids source links peer = (case peer_target peer of
     None \<Rightarrow> links
   | Some target \<Rightarrow> if target \<notin> set ids \<or> edge (source, target) \<in> set (map edge links) then links
                    else links @ [(source, target)])"

definition add_links :: "(json \<times> string) list \<Rightarrow> nb_topology \<Rightarrow> json \<Rightarrow> nb_topology" where
  "add_links by_id t r = (case map_of by_id (get ''id'' r) of
     None \<Rightarrow> t
   | Some source \<Rightarrow>
       let peers = items (get ''connected_endpoints'' r)
       in t\<lparr>nt_links := foldl (add_peer (map snd by_id) source) (nt_links t) peers,
            nt_warnings := nt_warnings t @
              (if peers = [] \<and> truthy (get ''cable'' r) then [Untraced source] else [])\<rparr>)"

definition build_topology :: "(json \<Rightarrow> string) \<Rightarrow> json list \<Rightarrow> json list \<Rightarrow> json list \<Rightarrow> nb_topology" where
  "build_topology str_of devices interfaces addresses =
     (let t = foldl (add_device str_of) \<lparr>nt_devices = [], nt_interfaces = [], nt_links = [], nt_warnings = []\<rparr> devices;
          names = map nd_name (nt_devices t);
          (fs, by_id) = foldl (add_interface names (address_by_interface addresses)) ([], []) interfaces
      in foldl (add_links by_id) (t\<lparr>nt_interfaces := fs\<rparr>) interfaces)"

section \<open>The reader\<close>

text \<open>\<open>_get\<close>: the pages that are linked by \<open>next\<close>, the end of which depends on the service; \<open>fetch_page\<close> is
  a response, an error or the body.\<close>

partial_function (option) pages :: "(string \<Rightarrow> string + json) \<Rightarrow> string \<Rightarrow> json list \<Rightarrow> (string + json list) option" where
  "pages fetch_page url results =
     (if url = [] then Some (Inr results)
      else case fetch_page url of
             Inl e \<Rightarrow> Some (Inl e)
           | Inr body \<Rightarrow> pages fetch_page (as_text (get ''next'' body)) (results @ items (get ''results'' body)))"

section \<open>Statements\<close>

datatype cypher = Merge_zone string | Merge_device nb_device | Merge_belongs string string
  | Merge_interface string nb_interface | Merge_has string string | Merge_connects string string

definition device_statements :: "nb_device \<Rightarrow> cypher list" where
  "device_statements d = Merge_device d # (if nd_zone d = [] then [] else [Merge_belongs (nd_name d) (nd_zone d)])"

definition interface_statements :: "nb_interface \<Rightarrow> cypher list" where
  "interface_statements f = [Merge_interface (nf_id f) f, Merge_has (nf_device f) (nf_id f)]"

definition to_cypher :: "nb_topology \<Rightarrow> cypher list" where
  "to_cypher t =
     map Merge_zone (sorted_list_of_set (set (filter (\<lambda>z. z \<noteq> []) (map nd_zone (nt_devices t)))))
     @ concat (map device_statements (nt_devices t))
     @ concat (map interface_statements (nt_interfaces t))
     @ map (\<lambda>(a, b). Merge_connects a b) (nt_links t)"

section \<open>The graph\<close>

text \<open>\<open>MERGE\<close> finds or creates; \<open>MATCH\<close> of a node that is missing makes the statement do nothing.\<close>

record graph =
  gr_zones :: "string set"
  gr_devices :: "string \<Rightarrow> nb_device option"
  gr_belongs :: "(string \<times> string) set"
  gr_interfaces :: "string \<Rightarrow> nb_interface option"
  gr_has :: "(string \<times> string) set"
  gr_connects :: "(string \<times> string) set"

definition empty_graph :: graph where
  "empty_graph = \<lparr>gr_zones = {}, gr_devices = Map.empty, gr_belongs = {}, gr_interfaces = Map.empty, gr_has = {},
     gr_connects = {}\<rparr>"

fun run_cypher :: "graph \<Rightarrow> cypher \<Rightarrow> graph" where
  "run_cypher g (Merge_zone z) = g\<lparr>gr_zones := insert z (gr_zones g)\<rparr>"
| "run_cypher g (Merge_device d) = g\<lparr>gr_devices := (gr_devices g)(nd_name d \<mapsto> d\<lparr>nd_zone := []\<rparr>)\<rparr>"
| "run_cypher g (Merge_belongs d z) =
     (if gr_devices g d \<noteq> None \<and> z \<in> gr_zones g then g\<lparr>gr_belongs := insert (d, z) (gr_belongs g)\<rparr> else g)"
| "run_cypher g (Merge_interface i f) = g\<lparr>gr_interfaces := (gr_interfaces g)(i \<mapsto> f)\<rparr>"
| "run_cypher g (Merge_has d i) =
     (if gr_devices g d \<noteq> None \<and> gr_interfaces g i \<noteq> None then g\<lparr>gr_has := insert (d, i) (gr_has g)\<rparr> else g)"
| "run_cypher g (Merge_connects a b) =
     (if gr_interfaces g a \<noteq> None \<and> gr_interfaces g b \<noteq> None
      then g\<lparr>gr_connects := insert (b, a) (insert (a, b) (gr_connects g))\<rparr> else g)"

text \<open>\<open>run_netbox_ingest\<close> once the payloads are read: \<open>fails\<close> is the number of statements after which the
  connection breaks, if it does. Each statement commits by itself.\<close>

definition ingest :: "bool \<Rightarrow> nat option \<Rightarrow> nb_topology \<Rightarrow> graph \<Rightarrow> graph" where
  "ingest replace fails t g =
     (let statements = (case fails of None \<Rightarrow> to_cypher t | Some n \<Rightarrow> take n (to_cypher t))
      in foldl run_cypher (if replace then empty_graph else g) statements)"

section \<open>What is built\<close>

definition device_ids :: "nb_topology \<Rightarrow> string set" where
  "device_ids t = nd_name ` set (nt_devices t)"

definition interface_ids :: "nb_topology \<Rightarrow> string set" where
  "interface_ids t = nf_id ` set (nt_interfaces t)"

text \<open>Every interface belongs to a device, and every link joins two interfaces.\<close>

definition closed_topology :: "nb_topology \<Rightarrow> bool" where
  "closed_topology t \<longleftrightarrow> nf_device ` set (nt_interfaces t) \<subseteq> device_ids t \<and>
     set (nt_links t) \<subseteq> interface_ids t \<times> interface_ids t"

lemma edge_eq: "edge (a, b) = edge (c, d) \<longleftrightarrow> (a, b) = (c, d) \<or> (a, b) = (d, c)"
  by (auto simp: edge_def)

lemma devices_built:
  "nt_devices (foldl (add_device s) t rs) = nt_devices t @ filter (\<lambda>d. nd_name d \<noteq> []) (map (device_of s) rs)"
  "nt_interfaces (foldl (add_device s) t rs) = nt_interfaces t" "nt_links (foldl (add_device s) t rs) = nt_links t"
  by (induction rs arbitrary: t) (simp_all add: add_device_def Let_def)

lemma interfaces_built:
  "fst (foldl (add_interface names addresses) st rs) = fst st @ map (interface_of addresses) (filter (on_known names) rs)"
  by (induction rs arbitrary: st) (simp_all add: add_interface_def Let_def)

lemma ids_built:
  "map_of (snd (foldl (add_interface names addresses) st rs)) =
     map_of (snd st) ++ map_of (rev (map (\<lambda>r. (get ''id'' r, nf_id (interface_of addresses r))) (filter (on_known names) rs)))"
  by (induction rs arbitrary: st) (auto simp: add_interface_def Let_def fun_eq_iff map_add_def split: option.splits)

lemma id_keys_distinct:
  "distinct (map fst (snd st)) \<Longrightarrow> distinct (map fst (snd (foldl (add_interface names addresses) st rs)))"
  by (induction rs arbitrary: st) (auto simp: add_interface_def Let_def distinct_al_put)

text \<open>The edges that the peers of an interface report.\<close>

definition peer_edges :: "string list \<Rightarrow> string \<Rightarrow> json list \<Rightarrow> (string \<times> string) set" where
  "peer_edges ids source ps = {edge (source, b) | b p. p \<in> set ps \<and> peer_target p = Some b \<and> b \<in> set ids}"

lemma peer_edges_simps [simp]:
  "peer_edges ids source [] = {}"
  "peer_edges ids source (p # ps) = (case peer_target p of
     None \<Rightarrow> {} | Some b \<Rightarrow> if b \<in> set ids then {edge (source, b)} else {}) \<union> peer_edges ids source ps"
  by (auto simp: peer_edges_def split: option.splits)

lemma peer_added:
  "edge ` set (add_peer ids source links p) = edge ` set links \<union> peer_edges ids source [p]"
  "distinct (map edge links) \<Longrightarrow> distinct (map edge (add_peer ids source links p))"
  "set (add_peer ids source links p) \<subseteq> set links \<union> {source} \<times> set ids"
  by (auto simp: add_peer_def split: option.splits)

lemma peers_added:
  "edge ` set (foldl (add_peer ids source) links ps) = edge ` set links \<union> peer_edges ids source ps"
  "distinct (map edge links) \<Longrightarrow> distinct (map edge (foldl (add_peer ids source) links ps))"
  "set (foldl (add_peer ids source) links ps) \<subseteq> set links \<union> {source} \<times> set ids"
proof (induction ps arbitrary: links)
  case (Cons p ps)
  { case 1 then show ?case using Cons.IH(1)[of "add_peer ids source links p"] peer_added(1)[of ids source links p]
      by (auto split: option.splits) }
  { case 2 then show ?case using Cons.IH(2)[of "add_peer ids source links p"] peer_added(2)[of links ids source p] by simp }
  { case 3 then show ?case using Cons.IH(3)[of "add_peer ids source links p"] peer_added(3)[of ids source links p] by auto }
qed simp_all

text \<open>The edges that a list of interface records reports.\<close>

definition reported :: "(json \<times> string) list \<Rightarrow> json list \<Rightarrow> (string \<times> string) set" where
  "reported by_id rs = (\<Union>r\<in>set rs. case map_of by_id (get ''id'' r) of None \<Rightarrow> {}
     | Some source \<Rightarrow> peer_edges (map snd by_id) source (items (get ''connected_endpoints'' r)))"

lemma links_added:
  "nt_devices (foldl (add_links by_id) t rs) = nt_devices t"
  "nt_interfaces (foldl (add_links by_id) t rs) = nt_interfaces t"
  "edge ` set (nt_links (foldl (add_links by_id) t rs)) = edge ` set (nt_links t) \<union> reported by_id rs"
  "distinct (map edge (nt_links t)) \<Longrightarrow> distinct (map edge (nt_links (foldl (add_links by_id) t rs)))"
  "set (nt_links (foldl (add_links by_id) t rs)) \<subseteq> set (nt_links t) \<union> snd ` set by_id \<times> snd ` set by_id"
proof (induction rs arbitrary: t)
  case (Cons r rs)
  have r: "reported by_id (r # rs) = (case map_of by_id (get ''id'' r) of None \<Rightarrow> {}
     | Some source \<Rightarrow> peer_edges (map snd by_id) source (items (get ''connected_endpoints'' r))) \<union> reported by_id rs"
    by (simp add: reported_def)
  have ids: "map_of by_id k = Some a \<Longrightarrow> a \<in> snd ` set by_id" for k a by (force dest: map_of_SomeD)
  have one: "nt_devices (add_links by_id t r) = nt_devices t" "nt_interfaces (add_links by_id t r) = nt_interfaces t" for t
    by (simp_all add: add_links_def Let_def split: option.splits)
  have links: "edge ` set (nt_links (add_links by_id t r)) = edge ` set (nt_links t) \<union> reported by_id [r]" for t
    by (simp add: add_links_def Let_def reported_def peers_added split: option.splits)
  have dist: "distinct (map edge (nt_links t)) \<Longrightarrow> distinct (map edge (nt_links (add_links by_id t r)))" for t
    by (auto simp: add_links_def Let_def peers_added split: option.splits)
  have sub: "set (nt_links (add_links by_id t r)) \<subseteq> set (nt_links t) \<union> snd ` set by_id \<times> snd ` set by_id" for t
    using peers_added(3)[of "map snd by_id"] ids by (fastforce simp: add_links_def Let_def split: option.splits)
  { case 1 show ?case by (simp add: Cons.IH(1) one) }
  { case 2 show ?case by (simp add: Cons.IH(2) one) }
  { case 3 show ?case using Cons.IH(3)[of "add_links by_id t r"] links by (auto simp: reported_def) }
  { case 4 then show ?case using Cons.IH(4)[of "add_links by_id t r"] dist by simp }
  { case 5 show ?case using Cons.IH(5)[of "add_links by_id t r"] sub by auto }
qed (simp_all add: reported_def)

lemma built:
  assumes "build_topology s ds fs addrs = t"
  defines "names \<equiv> map nd_name (nt_devices t)"
  defines "by_id \<equiv> snd (foldl (add_interface names (address_by_interface addrs)) ([], []) fs)"
  shows "nt_devices t = filter (\<lambda>d. nd_name d \<noteq> []) (map (device_of s) ds)"
    and "nt_interfaces t = map (interface_of (address_by_interface addrs)) (filter (on_known names) fs)"
    and "edge ` set (nt_links t) = reported by_id fs"
    and "distinct (map edge (nt_links t))"
    and "set (nt_links t) \<subseteq> snd ` set by_id \<times> snd ` set by_id"
proof -
  let ?t0 = "foldl (add_device s) \<lparr>nt_devices = [], nt_interfaces = [], nt_links = [], nt_warnings = []\<rparr> ds"
  let ?st = "foldl (add_interface (map nd_name (nt_devices ?t0)) (address_by_interface addrs)) ([], []) fs"
  have t: "t = foldl (add_links (snd ?st)) (?t0\<lparr>nt_interfaces := fst ?st\<rparr>) fs"
    using assms(1) by (simp add: build_topology_def Let_def split: prod.splits)
  have names: "names = map nd_name (nt_devices ?t0)" by (simp add: names_def t links_added)
  show "nt_devices t = filter (\<lambda>d. nd_name d \<noteq> []) (map (device_of s) ds)"
    by (simp add: t links_added devices_built)
  show "nt_interfaces t = map (interface_of (address_by_interface addrs)) (filter (on_known names) fs)"
    by (simp add: t links_added interfaces_built names)
  show "edge ` set (nt_links t) = reported by_id fs" "distinct (map edge (nt_links t))"
    "set (nt_links t) \<subseteq> snd ` set by_id \<times> snd ` set by_id"
    using links_added(5)[of "snd ?st" "?t0\<lparr>nt_interfaces := fst ?st\<rparr>" fs]
    by (simp_all add: t links_added devices_built by_id_def names del: links_added(5))
qed

lemma ids_values:
  "snd ` set (snd (foldl (add_interface names addresses) st rs)) \<subseteq>
     snd ` set (snd st) \<union> nf_id ` set (map (interface_of addresses) (filter (on_known names) rs))"
proof (induction rs arbitrary: st)
  case (Cons r rs)
  have "snd ` set (al_put k v xs) \<subseteq> insert v (snd ` set xs)" for k and v :: string and xs :: "(json \<times> string) list"
    by (induction k v xs rule: al_put.induct) auto
  then have step: "snd ` set (snd (add_interface names addresses st r)) \<subseteq>
      snd ` set (snd st) \<union> nf_id ` set (map (interface_of addresses) (filter (on_known names) [r]))"
    by (simp add: add_interface_def Let_def)
  have "snd ` set (snd (foldl (add_interface names addresses) st (r # rs))) =
      snd ` set (snd (foldl (add_interface names addresses) (add_interface names addresses st r) rs))" by simp
  also have "\<dots> \<subseteq> snd ` set (snd (add_interface names addresses st r)) \<union>
      nf_id ` set (map (interface_of addresses) (filter (on_known names) rs))" by (rule Cons.IH)
  also have "\<dots> \<subseteq> snd ` set (snd st) \<union> nf_id ` set (map (interface_of addresses) (filter (on_known names) [r])) \<union>
      nf_id ` set (map (interface_of addresses) (filter (on_known names) rs))" by (intro Un_mono step order_refl)
  also have "\<dots> = snd ` set (snd st) \<union> nf_id ` set (map (interface_of addresses) (filter (on_known names) (r # rs)))"
    by (cases "on_known names r") simp_all
  finally show ?case .
qed simp

lemma built_closed:
  assumes "build_topology s ds fs addrs = t"
  shows "closed_topology t" and "nd_name d \<noteq> [] \<or> d \<notin> set (nt_devices t)"
proof -
  note b = built[OF assms]
  show "nd_name d \<noteq> [] \<or> d \<notin> set (nt_devices t)" by (auto simp: b(1))
  have "nf_device ` set (nt_interfaces t) \<subseteq> device_ids t"
    by (auto simp: b(2) device_ids_def on_known_def interface_of_def Let_def)
  moreover have "snd ` set (snd (foldl (add_interface (map nd_name (nt_devices t)) (address_by_interface addrs)) ([], []) fs))
      \<subseteq> interface_ids t"
    unfolding interface_ids_def b(2)
    using ids_values[of "map nd_name (nt_devices t)" "address_by_interface addrs" "([], [])" fs] by simp
  then have "set (nt_links t) \<subseteq> interface_ids t \<times> interface_ids t" using b(5) by blast
  ultimately show "closed_topology t" by (simp add: closed_topology_def)
qed

text \<open>With NetBox's ids unique, the dict of ids is the list of the interfaces that were kept.\<close>

lemma ids_distinct:
  assumes "distinct (map (get ''id'') rs)" and "get ''id'' ` set rs \<inter> fst ` set (snd st) = {}"
  shows "snd (foldl (add_interface names addresses) st rs) =
     snd st @ map (\<lambda>r. (get ''id'' r, nf_id (interface_of addresses r))) (filter (on_known names) rs)"
  using assms
proof (induction rs arbitrary: st)
  case (Cons r rs)
  have new: "k \<notin> fst ` set xs \<Longrightarrow> al_put k v xs = xs @ [(k, v)]" for k and v :: string and xs :: "(json \<times> string) list"
    by (induction k v xs rule: al_put.induct) auto
  show ?case
    using Cons.IH[of "add_interface names addresses st r"] Cons.prems new[of "get ''id'' r" "snd st"]
    by (auto simp: add_interface_def Let_def)
qed simp

section \<open>What is written\<close>

definition zones_of :: "nb_topology \<Rightarrow> string set" where
  "zones_of t = {nd_zone d | d. d \<in> set (nt_devices t) \<and> nd_zone d \<noteq> []}"

lemma zones_written: "foldl run_cypher g (map Merge_zone zs) = g\<lparr>gr_zones := set zs \<union> gr_zones g\<rparr>"
  by (induction zs arbitrary: g) simp_all

lemma devices_written:
  assumes "\<forall>d\<in>set ds. nd_zone d \<noteq> [] \<longrightarrow> nd_zone d \<in> gr_zones g"
  shows "foldl run_cypher g (concat (map device_statements ds)) =
    g\<lparr>gr_devices := gr_devices g ++ map_of (rev (map (\<lambda>d. (nd_name d, d\<lparr>nd_zone := []\<rparr>)) ds)),
      gr_belongs := {(nd_name d, nd_zone d) | d. d \<in> set ds \<and> nd_zone d \<noteq> []} \<union> gr_belongs g\<rparr>"
  using assms
proof (induction ds arbitrary: g)
  case (Cons d ds)
  let ?g = "foldl run_cypher g (device_statements d)"
  have g: "?g = g\<lparr>gr_devices := (gr_devices g)(nd_name d \<mapsto> d\<lparr>nd_zone := []\<rparr>),
      gr_belongs := (if nd_zone d = [] then {} else {(nd_name d, nd_zone d)}) \<union> gr_belongs g\<rparr>"
    using Cons.prems by (simp add: device_statements_def)
  have rest: "foldl run_cypher ?g (concat (map device_statements ds)) =
    ?g\<lparr>gr_devices := gr_devices ?g ++ map_of (rev (map (\<lambda>d. (nd_name d, d\<lparr>nd_zone := []\<rparr>)) ds)),
      gr_belongs := {(nd_name d, nd_zone d) | d. d \<in> set ds \<and> nd_zone d \<noteq> []} \<union> gr_belongs ?g\<rparr>"
    using Cons.prems by (intro Cons.IH) (simp add: g)
  show ?case unfolding list.map concat.simps foldl_append rest
    by (rule graph.equality) (auto simp: g map_add_def fun_eq_iff split: option.splits)
qed simp

lemma interfaces_written:
  assumes "\<forall>f\<in>set fs. gr_devices g (nf_device f) \<noteq> None"
  shows "foldl run_cypher g (concat (map interface_statements fs)) =
    g\<lparr>gr_interfaces := gr_interfaces g ++ map_of (rev (map (\<lambda>f. (nf_id f, f)) fs)),
      gr_has := {(nf_device f, nf_id f) | f. f \<in> set fs} \<union> gr_has g\<rparr>"
  using assms
proof (induction fs arbitrary: g)
  case (Cons f fs)
  let ?g = "foldl run_cypher g (interface_statements f)"
  have g: "?g = g\<lparr>gr_interfaces := (gr_interfaces g)(nf_id f \<mapsto> f), gr_has := insert (nf_device f, nf_id f) (gr_has g)\<rparr>"
    using Cons.prems by (simp add: interface_statements_def)
  have rest: "foldl run_cypher ?g (concat (map interface_statements fs)) =
    ?g\<lparr>gr_interfaces := gr_interfaces ?g ++ map_of (rev (map (\<lambda>f. (nf_id f, f)) fs)),
      gr_has := {(nf_device f, nf_id f) | f. f \<in> set fs} \<union> gr_has ?g\<rparr>"
    using Cons.prems by (intro Cons.IH) (simp add: g)
  show ?case unfolding list.map concat.simps foldl_append rest
    by (rule graph.equality) (auto simp: g map_add_def fun_eq_iff split: option.splits)
qed simp

lemma links_written:
  assumes "\<forall>(a, b)\<in>set ls. gr_interfaces g a \<noteq> None \<and> gr_interfaces g b \<noteq> None"
  shows "foldl run_cypher g (map (\<lambda>(a, b). Merge_connects a b) ls) =
    g\<lparr>gr_connects := set ls \<union> (set ls)\<inverse> \<union> gr_connects g\<rparr>"
  using assms
proof (induction ls arbitrary: g)
  case (Cons l ls)
  obtain a b where l: "l = (a, b)" by (cases l)
  let ?g = "g\<lparr>gr_connects := insert (b, a) (insert (a, b) (gr_connects g))\<rparr>"
  have "run_cypher g (Merge_connects a b) = ?g" using Cons.prems by (simp add: l)
  moreover have "foldl run_cypher ?g (map (\<lambda>(a, b). Merge_connects a b) ls) =
      ?g\<lparr>gr_connects := set ls \<union> (set ls)\<inverse> \<union> gr_connects ?g\<rparr>"
    using Cons.prems by (intro Cons.IH) (auto simp: l)
  ultimately show ?case by (intro graph.equality) (auto simp: l)
qed simp

section \<open>Properties\<close>

text \<open>C23. The links of an inventory are its cables: between two interfaces there is a link exactly when one of
  them, on a known device, reports the other, also known, as its connected endpoint; a cable reported from both
  ends is one link, and no link leads to an interface that was left out.\<close>

theorem links_are_cables:
  assumes "build_topology s ds fs addrs = t" and "distinct (map (get ''id'') fs)"
  defines "names \<equiv> map nd_name (nt_devices t)"
  shows "closed_topology t \<and> distinct (map edge (nt_links t)) \<and>
    edge ` set (nt_links t) = {edge (nf_id (interface_of (address_by_interface addrs) r), b) | r p b.
      r \<in> set fs \<and> on_known names r \<and> p \<in> set (items (get ''connected_endpoints'' r)) \<and>
      peer_target p = Some b \<and> b \<in> interface_ids t}"
proof -
  let ?by = "map (\<lambda>r. (get ''id'' r, nf_id (interface_of (address_by_interface addrs) r))) (filter (on_known names) fs)"
  note b = built[OF assms(1)]
  have by_id: "snd (foldl (add_interface names (address_by_interface addrs)) ([], []) fs) = ?by"
    using ids_distinct[OF assms(2), of "([], [])"] by simp
  have ids: "set (map snd ?by) = interface_ids t"
    by (auto simp: interface_ids_def b(2) names_def)
  have dist: "distinct (map fst ?by)" using assms(2) by (auto simp: comp_def distinct_map_filter)
  have known: "map_of ?by (get ''id'' r) =
      (if on_known names r then Some (nf_id (interface_of (address_by_interface addrs) r)) else None)" if "r \<in> set fs" for r
  proof (cases "on_known names r")
    case True
    then have "(get ''id'' r, nf_id (interface_of (address_by_interface addrs) r)) \<in> set ?by" using that by auto
    then show ?thesis using True dist by (simp add: map_of_is_SomeI)
  next
    case False
    have "get ''id'' r \<notin> fst ` set ?by"
    proof
      assume "get ''id'' r \<in> fst ` set ?by"
      then obtain q where q: "q \<in> set fs" "on_known names q" "get ''id'' q = get ''id'' r" by auto
      then have "q = r" using assms(2) that unfolding distinct_map by (blast dest: inj_onD)
      then show False using q(2) False by simp
    qed
    then show ?thesis using False by (simp add: map_of_eq_None_iff)
  qed
  have "edge ` set (nt_links t) = reported ?by fs" using b(3) by (simp add: by_id names_def[symmetric])
  also have "\<dots> = {edge (nf_id (interface_of (address_by_interface addrs) r), b) | r p b.
      r \<in> set fs \<and> on_known names r \<and> p \<in> set (items (get ''connected_endpoints'' r)) \<and>
      peer_target p = Some b \<and> b \<in> interface_ids t}"
    (is "_ = ?edges")
  proof -
    have "(case map_of ?by (get ''id'' r) of None \<Rightarrow> {}
        | Some source \<Rightarrow> peer_edges (map snd ?by) source (items (get ''connected_endpoints'' r))) =
      {edge (nf_id (interface_of (address_by_interface addrs) r), b) | p b. on_known names r \<and>
         p \<in> set (items (get ''connected_endpoints'' r)) \<and> peer_target p = Some b \<and> b \<in> interface_ids t}"
      if "r \<in> set fs" for r
      unfolding peer_edges_def ids known[OF that] by (cases "on_known names r") auto
    then have "reported ?by fs = (\<Union>r\<in>set fs. {edge (nf_id (interface_of (address_by_interface addrs) r), b) | p b.
        on_known names r \<and> p \<in> set (items (get ''connected_endpoints'' r)) \<and> peer_target p = Some b \<and>
        b \<in> interface_ids t})"
      unfolding reported_def by (intro SUP_cong) simp_all
    also have "\<dots> = ?edges" by blast
    finally show ?thesis .
  qed
  finally show ?thesis using built_closed(1)[OF assms(1)] b(4) by simp
qed

lemma ingest_exact:
  assumes "build_topology s ds fs addrs = t"
  shows "ingest True None t g = \<lparr>gr_zones = zones_of t,
    gr_devices = map_of (rev (map (\<lambda>d. (nd_name d, d\<lparr>nd_zone := []\<rparr>)) (nt_devices t))),
    gr_belongs = {(nd_name d, nd_zone d) | d. d \<in> set (nt_devices t) \<and> nd_zone d \<noteq> []},
    gr_interfaces = map_of (rev (map (\<lambda>f. (nf_id f, f)) (nt_interfaces t))),
    gr_has = {(nf_device f, nf_id f) | f. f \<in> set (nt_interfaces t)},
    gr_connects = set (nt_links t) \<union> (set (nt_links t))\<inverse>\<rparr>"
proof -
  have c: "closed_topology t" by (rule built_closed(1)[OF assms])
  have dom: "map_of (rev (map (\<lambda>x. (k x, v x)) xs)) a \<noteq> None \<longleftrightarrow> a \<in> k ` set xs" for k :: "'x \<Rightarrow> string" and v xs a
    by (auto simp: map_of_eq_None_iff image_image)
  have z: "set (sorted_list_of_set (set (filter (\<lambda>z. z \<noteq> []) (map nd_zone (nt_devices t))))) = zones_of t"
    by (auto simp: zones_of_def)
  let ?g1 = "empty_graph\<lparr>gr_zones := zones_of t\<rparr>"
  let ?g2 = "?g1\<lparr>gr_devices := map_of (rev (map (\<lambda>d. (nd_name d, d\<lparr>nd_zone := []\<rparr>)) (nt_devices t))),
      gr_belongs := {(nd_name d, nd_zone d) | d. d \<in> set (nt_devices t) \<and> nd_zone d \<noteq> []}\<rparr>"
  let ?g3 = "?g2\<lparr>gr_interfaces := map_of (rev (map (\<lambda>f. (nf_id f, f)) (nt_interfaces t))),
      gr_has := {(nf_device f, nf_id f) | f. f \<in> set (nt_interfaces t)}\<rparr>"
  have g1: "foldl run_cypher empty_graph (map Merge_zone
      (sorted_list_of_set (set (filter (\<lambda>z. z \<noteq> []) (map nd_zone (nt_devices t)))))) = ?g1"
    unfolding zones_written z by (simp add: empty_graph_def)
  have "\<forall>d\<in>set (nt_devices t). nd_zone d \<noteq> [] \<longrightarrow> nd_zone d \<in> gr_zones ?g1" by (auto simp: zones_of_def)
  then have g2: "foldl run_cypher ?g1 (concat (map device_statements (nt_devices t))) = ?g2"
    by (simp only: devices_written) (simp add: empty_graph_def)
  have "\<forall>f\<in>set (nt_interfaces t). gr_devices ?g2 (nf_device f) \<noteq> None"
  proof
    fix f assume "f \<in> set (nt_interfaces t)"
    then have "nf_device f \<in> nd_name ` set (nt_devices t)" using c by (auto simp: closed_topology_def device_ids_def)
    then show "gr_devices ?g2 (nf_device f) \<noteq> None"
      using dom[of nd_name "\<lambda>d. d\<lparr>nd_zone := []\<rparr>" "nt_devices t" "nf_device f"] by simp
  qed
  then have g3: "foldl run_cypher ?g2 (concat (map interface_statements (nt_interfaces t))) = ?g3"
    by (simp only: interfaces_written) (simp add: empty_graph_def)
  have "\<forall>(a, b)\<in>set (nt_links t). gr_interfaces ?g3 a \<noteq> None \<and> gr_interfaces ?g3 b \<noteq> None"
  proof clarify
    fix a b assume "(a, b) \<in> set (nt_links t)"
    then have "a \<in> nf_id ` set (nt_interfaces t)" "b \<in> nf_id ` set (nt_interfaces t)"
      using c by (auto simp: closed_topology_def interface_ids_def)
    then show "gr_interfaces ?g3 a \<noteq> None \<and> gr_interfaces ?g3 b \<noteq> None"
      using dom[of nf_id "\<lambda>f. f" "nt_interfaces t" a] dom[of nf_id "\<lambda>f. f" "nt_interfaces t" b] by simp
  qed
  then have g4: "foldl run_cypher ?g3 (map (\<lambda>(a, b). Merge_connects a b) (nt_links t)) =
      ?g3\<lparr>gr_connects := set (nt_links t) \<union> (set (nt_links t))\<inverse>\<rparr>"
    by (simp only: links_written) (simp add: empty_graph_def)
  show ?thesis
    unfolding ingest_def to_cypher_def option.case Let_def foldl_append if_True g1 g2 g3 g4 by (simp add: empty_graph_def)
qed

text \<open>C17. The import writes the whole inventory: replacing the graph, the statements find every node they refer
  to, and the graph they leave is exactly the topology that was built, its links in both directions.\<close>

theorem ingested_graph_exact:
  assumes "build_topology s ds fs addrs = t"
  shows "ingest True None t g = \<lparr>gr_zones = zones_of t,
    gr_devices = map_of (rev (map (\<lambda>d. (nd_name d, d\<lparr>nd_zone := []\<rparr>)) (nt_devices t))),
    gr_belongs = {(nd_name d, nd_zone d) | d. d \<in> set (nt_devices t) \<and> nd_zone d \<noteq> []},
    gr_interfaces = map_of (rev (map (\<lambda>f. (nf_id f, f)) (nt_interfaces t))),
    gr_has = {(nf_device f, nf_id f) | f. f \<in> set (nt_interfaces t)},
    gr_connects = set (nt_links t) \<union> (set (nt_links t))\<inverse>\<rparr>"
  by (rule ingest_exact[OF assms])

section \<open>Witnesses\<close>

definition nb_demo_devices :: "json list" where
  "nb_demo_devices =
     [JObj [(''id'', JInt 1), (''name'', JStr ''FW''), (''tags'', JArr [JObj [(''name'', JStr ''Zone: dmz'')]])],
      JObj [(''id'', JInt 2), (''name'', JStr ''SW''), (''custom_fields'', JObj [(''security_zone'', JStr ''trust'')])],
      JObj [(''id'', JInt 3), (''name'', JNull)]]"

definition nb_demo_port :: "int \<Rightarrow> string \<Rightarrow> string \<Rightarrow> string \<Rightarrow> string \<Rightarrow> json" where
  "nb_demo_port i d n pd pn = JObj [(''id'', JInt i), (''device'', JObj [(''name'', JStr d)]), (''name'', JStr n),
     (''connected_endpoints'', JArr [JObj [(''device'', JObj [(''name'', JStr pd)]), (''name'', JStr pn)]])]"

definition nb_demo :: nb_topology where
  "nb_demo = build_topology (\<lambda>_. []) nb_demo_devices
     [nb_demo_port 10 ''FW'' ''e0'' ''SW'' ''e1'', nb_demo_port 11 ''SW'' ''e1'' ''FW'' ''e0'',
      nb_demo_port 12 ''XX'' ''e9'' ''FW'' ''e0''] []"

lemma nb_demo_links: "nt_links nb_demo = [(''FW:e0'', ''SW:e1'')]" "map nd_zone (nt_devices nb_demo) = [''DMZ'', ''TRUST'']"
  by code_simp+

lemma links_are_cables_witness: "closed_topology nb_demo \<and> distinct (map edge (nt_links nb_demo))"
proof -
  have "distinct (map (get ''id'') [nb_demo_port 10 ''FW'' ''e0'' ''SW'' ''e1'', nb_demo_port 11 ''SW'' ''e1'' ''FW'' ''e0'',
      nb_demo_port 12 ''XX'' ''e9'' ''FW'' ''e0''])" by code_simp
  from links_are_cables[OF nb_demo_def[symmetric] this] show ?thesis by blast
qed

lemma ingested_graph_exact_witness:
  "gr_connects (ingest True None nb_demo empty_graph) = {(''FW:e0'', ''SW:e1''), (''SW:e1'', ''FW:e0'')}"
  unfolding ingested_graph_exact[OF nb_demo_def[symmetric]] by (auto simp: nb_demo_links)

end
