(* ===== verification/Secrets.thy ===== *)
theory Secrets
  imports Executor
begin

text \<open>
  Credentials: references to secrets and the resolver with its cache (\<open>secretref.py\<close>), and the two places
  that turn configuration into a session with a device, \<open>firewall/devices.py\<close> for reading and
  \<open>execute/factory.py\<close> for writing. The environment, the file system, subprocesses and Vault are functions
  of \<open>secret_world\<close>.
\<close>

section \<open>References\<close>

definition schemes :: "string list" where
  "schemes = [''env'', ''file'', ''vault'', ''exec'']"

definition scheme_of :: "string \<Rightarrow> string" where
  "scheme_of reference = (case partition_at (CHR '':'') reference of (h, sep, rest) \<Rightarrow>
     if sep \<and> lower h \<in> set schemes \<and> rest \<noteq> [] then lower h else ''literal'')"

definition is_managed :: "string \<Rightarrow> bool" where
  "is_managed reference \<longleftrightarrow> scheme_of reference \<noteq> ''literal''"

definition describe_secret :: "string \<Rightarrow> string" where
  "describe_secret reference =
     (let scheme = scheme_of reference; rest = snd (snd (partition_at (CHR '':'') reference))
      in if scheme = ''literal'' then (if reference \<noteq> [] then ''inline value'' else ''unset'')
         else if scheme = ''exec'' then ''exec:<command>''
         else scheme @ '':'' @ hd (split_on (CHR ''#'') rest))"

section \<open>Providers\<close>

datatype secret_exn = Secret_error string | Other_exn string

text \<open>\<open>sw_file\<close> is \<open>None\<close> for a path that does not exist, \<open>sw_path\<close> the text of a \<open>Path\<close>, \<open>sw_exec\<close> the return
  code and the output of a command, \<open>sw_get\<close> the status and the body of a response, \<open>sw_str\<close> is \<open>str\<close> and
  \<open>sw_misuse\<close> the text of the exception Python raises when the value is used as a dict.\<close>

record secret_world =
  sw_env :: "string \<Rightarrow> string option"
  sw_path :: "string \<Rightarrow> string"
  sw_file :: "string \<Rightarrow> (string + string) option"
  sw_exec :: "string \<Rightarrow> string + int \<times> string"
  sw_get :: "string \<Rightarrow> string \<Rightarrow> string + int \<times> (string + json)"
  sw_str :: "json \<Rightarrow> string"
  sw_misuse :: "json \<Rightarrow> string"

definition from_env :: "secret_world \<Rightarrow> string \<Rightarrow> secret_exn + string" where
  "from_env w name = (case sw_env w (strip name) of
     Some (c # v) \<Rightarrow> Inr (c # v)
   | _ \<Rightarrow> Inl (Secret_error (''environment variable '' @ strip name @ '' is unset'')))"

definition from_file :: "secret_world \<Rightarrow> string \<Rightarrow> secret_exn + string" where
  "from_file w path = (case sw_file w (strip path) of
     None \<Rightarrow> Inl (Secret_error (''secret file '' @ sw_path w (strip path) @ '' does not exist''))
   | Some (Inl e) \<Rightarrow> Inl (Other_exn e)
   | Some (Inr content) \<Rightarrow> Inr (strip content))"

definition from_exec :: "secret_world \<Rightarrow> string \<Rightarrow> secret_exn + string" where
  "from_exec w command = (case sw_exec w command of
     Inl e \<Rightarrow> Inl (Other_exn e)
   | Inr (code, out) \<Rightarrow>
       if code \<noteq> 0 then Inl (Secret_error (''command exited '' @ show_int code)) else Inr (strip out))"

text \<open>The field of a KV v2 or v1 payload.\<close>

definition vault_field :: "secret_world \<Rightarrow> string \<Rightarrow> json \<Rightarrow> secret_exn + string" where
  "vault_field w field values =
     (let missing = Inl (Secret_error (''field '' @ field @ '' is not present at that path''));
          misuse = Inl (Other_exn (sw_misuse w values))
      in case values of
           JObj ms \<Rightarrow> (case map_of ms field of None \<Rightarrow> missing | Some v \<Rightarrow> Inr (sw_str w v))
         | JArr vs \<Rightarrow> if JStr field \<in> set vs then misuse else missing
         | JStr s \<Rightarrow> if is_substring field s then misuse else missing
         | _ \<Rightarrow> misuse)"

definition vault_values :: "secret_world \<Rightarrow> json \<Rightarrow> secret_exn + json" where
  "vault_values w answer = (case answer of
     JObj ms \<Rightarrow> (case map_of ms ''data'' of
         None \<Rightarrow> Inr (JObj [])
       | Some (JObj body) \<Rightarrow> Inr (case map_of body ''data'' of None \<Rightarrow> JObj body | Some v \<Rightarrow> v)
       | Some v \<Rightarrow> Inl (Other_exn (sw_misuse w v)))
   | v \<Rightarrow> Inl (Other_exn (sw_misuse w v)))"

section \<open>The resolver\<close>

record resolver =
  rv_ttl :: int
  rv_addr :: string
  rv_token :: string
  rv_cache :: "(string \<times> string \<times> int) list"

definition trim_char :: "char \<Rightarrow> string \<Rightarrow> string" where
  "trim_char c s = rev (dropWhile (\<lambda>d. d = c) (rev (dropWhile (\<lambda>d. d = c) s)))"

definition trim_right :: "char \<Rightarrow> string \<Rightarrow> string" where
  "trim_right c s = rev (dropWhile (\<lambda>d. d = c) (rev s))"

definition new_resolver :: "int \<Rightarrow> string \<Rightarrow> string \<Rightarrow> resolver" where
  "new_resolver ttl addr token = \<lparr>rv_ttl = ttl, rv_addr = trim_right (CHR ''/'') addr, rv_token = token, rv_cache = []\<rparr>"

definition from_vault :: "secret_world \<Rightarrow> resolver \<Rightarrow> string \<Rightarrow> secret_exn + string" where
  "from_vault w rv spec =
     (case partition_at (CHR ''#'') spec of (path, sep, field) \<Rightarrow>
      if rv_addr rv = [] \<or> rv_token rv = []
      then Inl (Secret_error ''VAULT_ADDR and VAULT_TOKEN must be set to use vault: references'')
      else if field = [] then Inl (Secret_error ''a vault reference needs a #field suffix'')
      else case sw_get w (rv_addr rv @ ''/v1/'' @ trim_char (CHR ''/'') path) (rv_token rv) of
             Inl e \<Rightarrow> Inl (Other_exn e)
           | Inr (status, body) \<Rightarrow>
               if status \<noteq> 200 then Inl (Secret_error (''vault returned '' @ show_int status))
               else case body of
                      Inl e \<Rightarrow> Inl (Other_exn e)
                    | Inr answer \<Rightarrow> (case vault_values w answer of
                          Inl e \<Rightarrow> Inl e | Inr values \<Rightarrow> vault_field w field values))"

definition provider :: "secret_world \<Rightarrow> resolver \<Rightarrow> string \<Rightarrow> secret_exn + string" where
  "provider w rv reference =
     (let scheme = scheme_of reference; rest = snd (snd (partition_at (CHR '':'') reference))
      in if scheme = ''env'' then from_env w rest
         else if scheme = ''file'' then from_file w rest
         else if scheme = ''exec'' then from_exec w rest
         else from_vault w rv rest)"

text \<open>\<open>resolve\<close>: the text of the \<open>SecretError\<close> or the value, and the resolver with its cache.\<close>

definition fetch :: "secret_world \<Rightarrow> resolver \<Rightarrow> string \<Rightarrow> string + string" where
  "fetch w rv reference = (case provider w rv reference of
     Inl (Secret_error m) \<Rightarrow> Inl m
   | Inl (Other_exn m) \<Rightarrow> Inl (''could not resolve '' @ describe_secret reference @ '': '' @ m)
   | Inr v \<Rightarrow> if v = [] then Inl (describe_secret reference @ '' resolved to an empty value'') else Inr v)"

definition resolve :: "secret_world \<Rightarrow> int \<Rightarrow> string \<Rightarrow> resolver \<Rightarrow> (string + string) \<times> resolver" where
  "resolve w now reference rv =
     (if \<not> is_managed reference then (Inr reference, rv)
      else let fresh = (case fetch w rv reference of
                 Inl m \<Rightarrow> (Inl m, rv)
               | Inr v \<Rightarrow> (Inr v, rv\<lparr>rv_cache := al_put reference (v, now + rv_ttl rv) (rv_cache rv)\<rparr>))
           in case map_of (rv_cache rv) reference of
                Some (v, expires) \<Rightarrow> if expires > now then (Inr v, rv) else fresh
              | None \<Rightarrow> fresh)"

section \<open>Credentials of a device\<close>

datatype credential = Plain string | Getter string

definition credential_of :: "bool \<Rightarrow> bool \<Rightarrow> string \<Rightarrow> string \<Rightarrow> credential res" where
  "credential_of required enforce label reference =
     (if reference = [] then
        (if required \<and> enforce
         then Inl (RuntimeError (label @ '' is unset. Point it at a secret manager, for example '' @ label
                @ ''=file:/run/secrets/device_password''))
         else Inr (Plain []))
      else if is_managed reference then Inr (Getter reference)
      else if enforce then Inl (RuntimeError (label @ '' holds an inline value. Use env:, file:, vault: or exec: so the ''
             @ ''credential is not carried in the environment, or set '' @ ''REQUIRE_MANAGED_SECRETS=false to accept the risk.''))
      else Inr (Plain reference))"

text \<open>The settings that describe the device (\<open>config.py\<close>), and what a backend is built with.\<close>

record device_settings =
  fs_backend :: string
  fs_host :: string
  fs_username :: string
  fs_password :: string
  fs_secret :: string
  fs_acl :: string
  fs_device_id :: string
  fs_port :: int
  fs_require_managed :: bool

definition default_device :: device_settings where
  "default_device = \<lparr>fs_backend = ''mock'', fs_host = [], fs_username = [], fs_password = [], fs_secret = [],
     fs_acl = [], fs_device_id = ''FW_Edge'', fs_port = 22, fs_require_managed = True\<rparr>"

record device_args =
  da_host :: string
  da_username :: string
  da_password :: string
  da_secret :: string
  da_acl :: string
  da_device_id :: string
  da_port :: int
  da_timeout :: int
  da_enforce :: "bool option"

definition no_args :: device_args where
  "no_args = \<lparr>da_host = [], da_username = [], da_password = [], da_secret = [], da_acl = [], da_device_id = [],
     da_port = 22, da_timeout = 20, da_enforce = None\<rparr>"

record device_session =
  dn_backend :: string
  dn_host :: string
  dn_username :: string
  dn_password :: credential
  dn_secret :: credential
  dn_acl :: "string option"
  dn_device_id :: string
  dn_port :: int
  dn_timeout :: int

definition or_else :: "string \<Rightarrow> string \<Rightarrow> string" where
  "or_else a b = (if a = [] then b else a)"

definition backends :: "string list" where
  "backends = [''mock'', ''cisco_asa'', ''cisco_ios'', ''arista_eos'', ''nokia_srl'']"

definition enforced :: "device_settings \<Rightarrow> device_args \<Rightarrow> bool" where
  "enforced st a \<longleftrightarrow> (case da_enforce a of None \<Rightarrow> fs_require_managed st | Some b \<Rightarrow> b) \<and>
     \<not> (da_password a \<noteq> [] \<or> da_secret a \<noteq> [])"

definition make_device_firewall :: "device_settings \<Rightarrow> string \<Rightarrow> device_args \<Rightarrow> device_session res" where
  "make_device_firewall st backend a =
     (if or_else (da_host a) (fs_host st) = []
      then Inl (RuntimeError (''FIREWALL_BACKEND='' @ backend @ '' requires FIREWALL_HOST''))
      else res_bind (credential_of True (enforced st a) ''FIREWALL_PASSWORD'' (or_else (da_password a) (fs_password st)))
        (\<lambda>password. res_bind (credential_of False (enforced st a) ''FIREWALL_SECRET'' (or_else (da_secret a) (fs_secret st)))
        (\<lambda>secret. if backend \<notin> set (tl backends)
           then Inl (RuntimeError (''Unknown device backend: '' @ py_repr backend))
           else Inr \<lparr>dn_backend = backend, dn_host = or_else (da_host a) (fs_host st),
             dn_username = or_else (da_username a) (fs_username st), dn_password = password, dn_secret = secret,
             dn_acl = (let acl = or_else (da_acl a) (fs_acl st) in if acl = [] then None else Some acl),
             dn_device_id = or_else (da_device_id a) (fs_device_id st),
             dn_port = (if da_port a \<noteq> 22 then da_port a else fs_port st), dn_timeout = da_timeout a\<rparr>)))"

text \<open>\<open>_make_firewall\<close> of \<open>main.py\<close>: \<open>None\<close> is the fixture backend.\<close>

definition make_firewall :: "device_settings \<Rightarrow> device_session option res" where
  "make_firewall st =
     (let backend = backend_name (fs_backend st)
      in if backend = ''mock'' then Inr None
         else if backend \<in> set backends then res_bind (make_device_firewall st backend no_args) (\<lambda>d. Inr (Some d))
         else Inl (RuntimeError (''Unknown FIREWALL_BACKEND: '' @ py_repr backend)))"

text \<open>\<open>session_factory\<close>: the credentials every session of the executor is opened with.\<close>

definition session_factory :: "device_settings \<Rightarrow> string \<Rightarrow> (string \<Rightarrow> device_session) res" where
  "session_factory st backend =
     (if backend \<notin> set device_types then Inl (RuntimeError (backend @ '' cannot execute changes''))
      else res_bind (credential_of True (fs_require_managed st) ''FIREWALL_PASSWORD'' (fs_password st))
        (\<lambda>password. res_bind (credential_of False (fs_require_managed st) ''FIREWALL_SECRET'' (fs_secret st))
        (\<lambda>secret. Inr (\<lambda>device. \<lparr>dn_backend = backend, dn_host = fs_host st, dn_username = fs_username st,
           dn_password = password, dn_secret = secret, dn_acl = None, dn_device_id = device,
           dn_port = fs_port st, dn_timeout = 30\<rparr>))))"

section \<open>Facts\<close>

lemma credential_enforced:
  assumes "credential_of required True label reference = Inr c"
  shows "c = Plain [] \<and> reference = [] \<and> \<not> required \<or> c = Getter reference \<and> is_managed reference"
  using assms by (auto simp: credential_of_def split: if_splits)

lemma fetch_cache [simp]: "fetch w (rv\<lparr>rv_cache := c\<rparr>) = fetch w rv"
proof -
  have "from_vault w (rv\<lparr>rv_cache := c\<rparr>) spec = from_vault w rv spec" for spec
    by (simp add: from_vault_def split: prod.split)
  then have "provider w (rv\<lparr>rv_cache := c\<rparr>) r = provider w rv r" for r
    by (simp add: provider_def Let_def)
  then show ?thesis by (simp add: fetch_def fun_eq_iff)
qed

lemma fetch_nonempty: "fetch w rv r = Inr v \<Longrightarrow> v \<noteq> []"
  by (auto simp: fetch_def split: sum.splits secret_exn.splits if_splits)

text \<open>The calls of \<open>resolve\<close> that were made before, each at its time and in the world it found.\<close>

definition resolves :: "(int \<times> secret_world \<times> string) list \<Rightarrow> resolver \<Rightarrow> resolver" where
  "resolves calls rv = foldl (\<lambda>rv (t, w, r). snd (resolve w t r rv)) rv calls"

definition cache_of_calls :: "(int \<times> secret_world \<times> string) list \<Rightarrow> resolver \<Rightarrow> resolver \<Rightarrow> bool" where
  "cache_of_calls calls start rv \<longleftrightarrow> (\<exists>c. rv = start\<lparr>rv_cache := c\<rparr>) \<and>
     (\<forall>r v e. map_of (rv_cache rv) r = Some (v, e) \<longrightarrow>
        (\<exists>t w. (t, w, r) \<in> set calls \<and> e = t + rv_ttl start \<and> fetch w start r = Inr v))"

lemma cache_of_resolve:
  assumes "cache_of_calls calls start rv"
  shows "cache_of_calls (calls @ [(t, w, r)]) start (snd (resolve w t r rv))"
proof -
  obtain c where c: "rv = start\<lparr>rv_cache := c\<rparr>" using assms by (auto simp: cache_of_calls_def)
  have f: "fetch w rv r = fetch w start r" by (simp add: c)
  show ?thesis
    using assms unfolding cache_of_calls_def resolve_def
    by (fastforce simp: c f Let_def split: sum.splits option.splits if_splits)
qed

lemma cache_of_history: "cache_of_calls calls (new_resolver ttl a k) (resolves calls (new_resolver ttl a k))"
proof (induction calls rule: rev_induct)
  case Nil
  then show ?case by (auto simp: cache_of_calls_def resolves_def new_resolver_def)
next
  case (snoc x calls)
  obtain t w r where x: "x = (t, w, r)" by (cases x)
  show ?case using cache_of_resolve[OF snoc.IH, of t w r] by (simp add: resolves_def x)
qed

section \<open>Properties\<close>

text \<open>A managed secret is never stale by more than the lifetime of the cache and never empty: whatever was
  resolved before, the value is the one its source gave now, or gave to an earlier call for the same reference
  less than that lifetime ago.\<close>

theorem resolved_value_recent:
  assumes "is_managed r"
    and "fst (resolve w now r (resolves calls (new_resolver ttl addr token))) = Inr v"
  shows "v \<noteq> [] \<and> (fetch w (new_resolver ttl addr token) r = Inr v \<or>
    (\<exists>(t, w', r')\<in>set calls. r' = r \<and> now < t + ttl \<and> fetch w' (new_resolver ttl addr token) r = Inr v))"
proof -
  let ?start = "new_resolver ttl addr token" and ?rv = "resolves calls (new_resolver ttl addr token)"
  have inv: "cache_of_calls calls ?start ?rv" by (rule cache_of_history)
  then obtain c where c: "?rv = ?start\<lparr>rv_cache := c\<rparr>" by (auto simp: cache_of_calls_def)
  have f: "fetch w ?rv r = fetch w ?start r" by (simp add: c)
  have "fetch w ?start r = Inr v \<or> (\<exists>e. map_of (rv_cache ?rv) r = Some (v, e) \<and> now < e)"
    using assms unfolding resolve_def f
    by (auto simp: Let_def split: sum.splits option.splits if_splits)
  moreover have "rv_ttl ?start = ttl" by (simp add: new_resolver_def)
  ultimately show ?thesis
    using inv fetch_nonempty unfolding cache_of_calls_def by fastforce
qed

definition env_world :: "string \<Rightarrow> secret_world" where
  "env_world v = \<lparr>sw_env = (\<lambda>n. if n = ''PW'' then Some v else None), sw_path = id, sw_file = (\<lambda>_. None),
     sw_exec = (\<lambda>_. Inr (1, [])), sw_get = (\<lambda>_ _. Inl ''unreachable''), sw_str = (\<lambda>_. []), sw_misuse = (\<lambda>_. [])\<rparr>"

lemma env_managed: "is_managed ''env:PW''"
  by code_simp

lemma env_cached: "fst (resolve (env_world ''new'') 200 ''env:PW''
    (resolves [(100, env_world ''old'', ''env:PW'')] (new_resolver 300 [] []))) = Inr ''old''"
  by code_simp

lemma resolved_value_recent_witness:
  "\<not> (''old'' = [] \<or> \<not> (fetch (env_world ''new'') (new_resolver 300 [] []) ''env:PW'' = Inr ''old'' \<or>
     fetch (env_world ''old'') (new_resolver 300 [] []) ''env:PW'' = Inr ''old''))"
  using resolved_value_recent[OF env_managed env_cached] by auto

text \<open>An enable secret typed at the prompt lifts the rule for the password too: with managed secrets required,
  the password of the configuration goes to the device as the inline text it is.\<close>

theorem typed_secret_admits_inline_password:
  assumes "fs_require_managed st" and "da_enforce a = None" and "da_secret a \<noteq> []" and "da_password a = []"
    and "fs_password st \<noteq> []" and "\<not> is_managed (fs_password st)"
    and "or_else (da_host a) (fs_host st) \<noteq> []" and "backend \<in> set (tl backends)"
  shows "(\<exists>d. make_device_firewall st backend a = Inr d \<and> dn_password d = Plain (fs_password st)) \<and>
    (\<exists>e. make_device_firewall st backend (a\<lparr>da_secret := []\<rparr>) = Inl e)"
proof
  show "\<exists>d. make_device_firewall st backend a = Inr d \<and> dn_password d = Plain (fs_password st)"
    using assms by (auto simp: make_device_firewall_def enforced_def credential_of_def or_else_def)
  show "\<exists>e. make_device_firewall st backend (a\<lparr>da_secret := []\<rparr>) = Inl e"
    using assms by (auto simp: make_device_firewall_def enforced_def credential_of_def or_else_def)
qed

lemma typed_secret_admits_inline_password_witness:
  "(\<exists>d. make_device_firewall (default_device\<lparr>fs_password := ''hunter2''\<rparr>) ''cisco_asa''
      (no_args\<lparr>da_host := ''10.0.0.1'', da_secret := ''enable''\<rparr>) = Inr d \<and> dn_password d = Plain ''hunter2'') \<and>
   (\<exists>e. make_device_firewall (default_device\<lparr>fs_password := ''hunter2''\<rparr>) ''cisco_asa''
      (no_args\<lparr>da_host := ''10.0.0.1'', da_secret := []\<rparr>) = Inl e)"
proof -
  have "\<not> is_managed ''hunter2''" by code_simp
  then show ?thesis
    using typed_secret_admits_inline_password[of "default_device\<lparr>fs_password := ''hunter2''\<rparr>"
      "no_args\<lparr>da_host := ''10.0.0.1'', da_secret := ''enable''\<rparr>" "''cisco_asa''"]
    by (simp add: default_device_def no_args_def or_else_def backends_def)
qed

end
