(* ===== verification/Telemetry.thy ===== *)
theory Telemetry
  imports Prelude
begin

text \<open>
  \<open>observability.py\<close>: the metrics of the service and the extra that are attached to log lines. The calls to
  the Prometheus library are recorded in order as samples; the counters the program itself keeps are the record
  \<open>totals\<close>. Times are integers. Tracing, which only forwards to its library, is left out.
\<close>

section \<open>Metrics\<close>

datatype sample = Jobs_total string string | Job_duration string int | Model_calls string | Model_latency int
  | Node_duration string int | Approval_latency int | Execution_total string | Queue_depth int | Circuit_state int
  | Inference_fallback string string | Budget_exceeded string | Webhook_requests string string | Alert_flags string

record totals =
  tt_fallback :: int
  tt_parse_error :: int
  tt_model_calls :: int

text \<open>The constructor returns before it creates the counters when metrics are disabled: \<open>me_totals\<close> is then
  \<open>None\<close>, and reading them raises \<open>AttributeError\<close>.\<close>

record metrics =
  me_enabled :: bool
  me_samples :: "sample list"
  me_totals :: "totals option"

datatype metrics_exn = Attribute_error string

definition new_metrics :: "bool \<Rightarrow> bool \<Rightarrow> metrics" where
  "new_metrics enabled prometheus =
     \<lparr>me_enabled = (enabled \<and> prometheus), me_samples = [],
      me_totals = (if enabled \<and> prometheus then Some \<lparr>tt_fallback = 0, tt_parse_error = 0, tt_model_calls = 0\<rparr> else None)\<rparr>"

definition emit :: "sample list \<Rightarrow> metrics \<Rightarrow> metrics" where
  "emit ss m = (if me_enabled m then m\<lparr>me_samples := me_samples m @ ss\<rparr> else m)"

definition observe_job :: "string \<Rightarrow> string \<Rightarrow> int \<Rightarrow> metrics \<Rightarrow> metrics" where
  "observe_job kind result seconds = emit [Jobs_total kind result, Job_duration kind seconds]"

definition observe_model :: "string \<Rightarrow> int \<Rightarrow> metrics \<Rightarrow> metrics_exn + metrics" where
  "observe_model result seconds m = (case me_totals m of
     None \<Rightarrow> Inl (Attribute_error ''_model_calls_total'')
   | Some t \<Rightarrow> Inr (emit [Model_calls result, Model_latency seconds]
       (m\<lparr>me_totals := Some (t\<lparr>tt_model_calls := tt_model_calls t + 1\<rparr>)\<rparr>)))"

definition observe_inference_fallback :: "string \<Rightarrow> string \<Rightarrow> metrics \<Rightarrow> metrics_exn + metrics" where
  "observe_inference_fallback node reason m = (case me_totals m of
     None \<Rightarrow> Inl (Attribute_error ''_fallback_total'')
   | Some t \<Rightarrow> Inr (emit [Inference_fallback node reason]
       (m\<lparr>me_totals := Some (t\<lparr>tt_fallback := tt_fallback t + 1,
          tt_parse_error := tt_parse_error t + (if reason = ''parse_error'' then 1 else 0)\<rparr>)\<rparr>)))"

definition observe_budget_exceeded :: "string \<Rightarrow> metrics \<Rightarrow> metrics" where
  "observe_budget_exceeded scope = emit [Budget_exceeded scope]"

definition observe_webhook :: "string \<Rightarrow> string \<Rightarrow> metrics \<Rightarrow> metrics" where
  "observe_webhook source result = emit [Webhook_requests source result]"

definition observe_alert_flag :: "string \<Rightarrow> metrics \<Rightarrow> metrics" where
  "observe_alert_flag flag = emit [Alert_flags flag]"

definition observe_node :: "string \<Rightarrow> int \<Rightarrow> metrics \<Rightarrow> metrics" where
  "observe_node node seconds = emit [Node_duration node seconds]"

definition observe_execution :: "string \<Rightarrow> metrics \<Rightarrow> metrics" where
  "observe_execution state = emit [Execution_total state]"

definition observe_approval_latency :: "int \<Rightarrow> metrics \<Rightarrow> metrics" where
  "observe_approval_latency seconds = emit [Approval_latency seconds]"

definition set_queue_depth :: "int \<Rightarrow> metrics \<Rightarrow> metrics" where
  "set_queue_depth depth = emit [Queue_depth depth]"

definition set_circuit_open :: "bool \<Rightarrow> metrics \<Rightarrow> metrics" where
  "set_circuit_open is_open = emit [Circuit_state (if is_open then 1 else 0)]"

definition inference_stats :: "metrics \<Rightarrow> metrics_exn + totals" where
  "inference_stats m = (case me_totals m of None \<Rightarrow> Inl (Attribute_error ''_model_calls_total'') | Some t \<Rightarrow> Inr t)"

section \<open>Fields of a log line\<close>

definition bind_correlation :: "(string \<times> string) list \<Rightarrow> (string \<times> string) list \<Rightarrow> (string \<times> string) list" where
  "bind_correlation extra current = foldl (\<lambda>d (k, v). if v = [] then d else al_put k v d) current extra"

definition clear_correlation :: "(string \<times> string) list" where
  "clear_correlation = []"

text \<open>The payload of a line: the correlation may overwrite the fixed extra.\<close>

definition log_payload :: "string \<Rightarrow> string \<Rightarrow> string \<Rightarrow> string \<Rightarrow> (string \<times> string) list \<Rightarrow> string option
    \<Rightarrow> (string \<times> json) list" where
  "log_payload ts level logger msg extra exc =
     (let base = foldl (\<lambda>d (k, v). al_put k (JStr v) d)
        [(''ts'', JStr ts), (''level'', JStr level), (''logger'', JStr logger), (''msg'', JStr msg)] extra
      in case exc of None \<Rightarrow> base | Some e \<Rightarrow> al_put ''exc_info'' (JStr e) base)"

section \<open>Histories\<close>

text \<open>What the program tells the metrics; the two operations that may raise stop the history.\<close>

datatype event = Job_done string string int | Model_done string int | Fallback string string | Plain_event sample

fun tell :: "metrics \<Rightarrow> event \<Rightarrow> metrics_exn + metrics" where
  "tell m (Job_done k r s) = Inr (observe_job k r s m)"
| "tell m (Model_done r s) = observe_model r s m"
| "tell m (Fallback n r) = observe_inference_fallback n r m"
| "tell m (Plain_event s) = Inr (emit [s] m)"

fun tell_all :: "metrics \<Rightarrow> event list \<Rightarrow> metrics_exn + metrics" where
  "tell_all m [] = Inr m"
| "tell_all m (e # es) = (case tell m e of Inl x \<Rightarrow> Inl x | Inr m' \<Rightarrow> tell_all m' es)"

definition is_fallback :: "event \<Rightarrow> bool" where
  "is_fallback e \<longleftrightarrow> (case e of Fallback _ _ \<Rightarrow> True | _ \<Rightarrow> False)"

definition is_model_event :: "event \<Rightarrow> bool" where
  "is_model_event e \<longleftrightarrow> (case e of Model_done _ _ \<Rightarrow> True | _ \<Rightarrow> False)"

lemma emit_keeps [simp]: "me_totals (emit ss m) = me_totals m" "me_enabled (emit ss m) = me_enabled m"
  by (simp_all add: emit_def)

lemma tell_all_counts:
  assumes "me_totals m = Some t"
  shows "\<exists>m' t'. tell_all m es = Inr m' \<and> me_totals m' = Some t' \<and>
    tt_fallback t' = tt_fallback t + int (length (filter is_fallback es)) \<and>
    tt_model_calls t' = tt_model_calls t + int (length (filter is_model_event es)) \<and>
    tt_parse_error t' - tt_parse_error t \<le> tt_fallback t' - tt_fallback t"
  using assms
proof (induction es arbitrary: m t)
  case (Cons e es)
  obtain m1 t1 where e: "tell m e = Inr m1" "me_totals m1 = Some t1"
    "tt_fallback t1 = tt_fallback t + (if is_fallback e then 1 else 0)"
    "tt_model_calls t1 = tt_model_calls t + (if is_model_event e then 1 else 0)"
    "tt_parse_error t1 - tt_parse_error t \<le> tt_fallback t1 - tt_fallback t"
    using Cons.prems
    by (cases e) (auto simp: is_fallback_def is_model_event_def observe_job_def observe_model_def observe_inference_fallback_def)
  show ?case using Cons.IH[OF e(2)] e by fastforce
qed auto

lemma disabled_raises:
  assumes "\<not> me_enabled m" and "me_totals m = None" and "e \<in> set es" and "is_fallback e \<or> is_model_event e"
  shows "\<exists>x. tell_all m es = Inl x"
  using assms
proof (induction es arbitrary: m)
  case (Cons d es)
  show ?case
  proof (cases "\<exists>x. tell m d = Inl x")
    case False
    then obtain m' where m': "tell m d = Inr m'" by (cases "tell m d") auto
    then have "\<not> me_enabled m'" "me_totals m' = None" "d \<noteq> e"
      using Cons.prems(1,2,4)
      by (cases d; auto simp: observe_job_def observe_model_def observe_inference_fallback_def is_fallback_def is_model_event_def)+
    then show ?thesis using Cons.IH[of m'] Cons.prems m' by auto
  qed auto
qed simp

lemma tell_all_disabled: "tell_all m es = Inr m' \<Longrightarrow> me_totals m = None \<Longrightarrow> me_totals m' = None"
proof (induction es arbitrary: m)
  case (Cons e es)
  then show ?case
    by (cases e) (auto simp: observe_job_def observe_model_def observe_inference_fallback_def split: sum.splits)
qed simp

end
