(* ===== verification/Worker_Loop.thy ===== *)
theory Worker_Loop
  imports Workflow
begin

text \<open>
  The polling loop of a worker (\<open>jobs/worker.py\<close>): the rounds of \<open>run_forever\<close>, the tasks it starts, their
  heartbeats and the way it stops. A step is what happens between two points where the loop waits, so a claim is
  three of them: the test that leads to it, the answer of the queue, and the task that is started when the loop goes
  on. A stop, a heartbeat, the end of a task and what other workers and the API do to the queue are steps of their
  own and come between any two of these. The end of a task and its call to the queue are one step, and the queue
  always answers.
\<close>

section \<open>The worker\<close>

record worker_cfg =
  wc_id :: string
  wc_concurrency :: int
  wc_lease :: int
  wc_backoff :: int
  wc_meta :: json

text \<open>Where the loop is: before the head of a round, at its first calls, before a claim, waiting for the answer
  of the queue to one, with that answer, gathering the tasks in flight, or done.\<close>

datatype phase = Waiting | Touching | Claiming | Asking | Answered "job option" | Draining | Ended

text \<open>A task is a claimed job, with whether it is still running and whether its heartbeat is.\<close>

record task =
  tk_job :: job
  tk_running :: bool
  tk_beating :: bool

record worker =
  wr_phase :: phase
  wr_stop :: bool
  wr_tasks :: "task list"
  wr_queue :: pg_queue
  wr_table :: "(string \<times> worker_row) list"
  wr_now :: int

definition run_tasks :: "worker \<Rightarrow> task list" where
  "run_tasks w = filter tk_running (wr_tasks w)"

section \<open>The loop\<close>

text \<open>The head of the loop: the heartbeat of the worker, or the tasks in flight are gathered. After the
  heartbeat the tasks that are done are forgotten.\<close>

definition wake :: "worker_cfg \<Rightarrow> worker \<Rightarrow> worker" where
  "wake c w =
     (if wr_stop w then w\<lparr>wr_phase := Draining\<rparr>
      else w\<lparr>wr_phase := Touching,
             wr_table := touch_worker (wc_id c) (wc_concurrency c) (wc_meta c) (wr_now w) (wr_table w)\<rparr>)"

definition begin_claims :: "worker \<Rightarrow> worker" where
  "begin_claims w = w\<lparr>wr_phase := Claiming, wr_tasks := run_tasks w\<rparr>"

text \<open>A turn of the inner loop: the test, the claim in the queue, and the task once the answer is there.\<close>

definition claim_turn :: "worker_cfg \<Rightarrow> worker \<Rightarrow> worker" where
  "claim_turn c w =
     (if int (length (wr_tasks w)) < wc_concurrency c \<and> \<not> wr_stop w
      then w\<lparr>wr_phase := Asking\<rparr> else w\<lparr>wr_phase := Waiting\<rparr>)"

definition ask_queue :: "worker_cfg \<Rightarrow> worker \<Rightarrow> worker" where
  "ask_queue c w =
     (let (answer, q) = pg_claim (wc_id c) (wc_lease c) (wr_now w) (wr_queue w)
      in w\<lparr>wr_queue := q, wr_phase := Answered answer\<rparr>)"

definition start_task :: "job option \<Rightarrow> worker \<Rightarrow> worker" where
  "start_task answer w =
     (case answer of
        None \<Rightarrow> w\<lparr>wr_phase := Waiting\<rparr>
      | Some j \<Rightarrow> w\<lparr>wr_phase := Claiming,
          wr_tasks := wr_tasks w @ [\<lparr>tk_job = j, tk_running = True, tk_beating = True\<rparr>]\<rparr>)"

text \<open>After the loop.\<close>

definition gather :: "worker \<Rightarrow> worker" where
  "gather w = (if run_tasks w = [] then w\<lparr>wr_phase := Ended\<rparr> else w)"

section \<open>A task\<close>

text \<open>The end of \<open>_run_claimed\<close>: the job is completed or failed, and its heartbeat is cancelled.\<close>

definition finish_task :: "worker_cfg \<Rightarrow> nat \<Rightarrow> string option \<Rightarrow> worker \<Rightarrow> worker" where
  "finish_task c i failure w =
     (let t = wr_tasks w ! i;
          q = (case failure of
                 None \<Rightarrow> snd (pg_complete (jb_id (tk_job t)) (wr_queue w))
               | Some e \<Rightarrow> snd (pg_fail (tk_job t) e (retry_delay (wc_backoff c) (jb_attempts (tk_job t))) (wr_now w)
                   (wr_queue w)))
      in w\<lparr>wr_queue := q, wr_tasks := (wr_tasks w)[i := t\<lparr>tk_running := False, tk_beating := False\<rparr>]\<rparr>)"

text \<open>A heartbeat: when the lease is lost the heartbeat ends, and the task goes on.\<close>

definition beat :: "worker_cfg \<Rightarrow> nat \<Rightarrow> worker \<Rightarrow> worker" where
  "beat c i w =
     (let t = wr_tasks w ! i;
          (ok, q) = pg_heartbeat (jb_id (tk_job t)) (wc_id c) (wc_lease c) (wr_now w) (wr_queue w)
      in w\<lparr>wr_queue := q, wr_tasks := (wr_tasks w)[i := t\<lparr>tk_beating := ok\<rparr>]\<rparr>)"

definition initial_worker :: "pg_queue \<Rightarrow> int \<Rightarrow> worker" where
  "initial_worker q now =
     \<lparr>wr_phase = Waiting, wr_stop = False, wr_tasks = [], wr_queue = q, wr_table = [], wr_now = now\<rparr>"

inductive worker_step :: "worker_cfg \<Rightarrow> worker \<Rightarrow> worker \<Rightarrow> bool" for c :: worker_cfg where
  wake: "wr_phase w = Waiting \<Longrightarrow> worker_step c w (wake c w)"
| touched: "wr_phase w = Touching \<Longrightarrow> worker_step c w (begin_claims w)"
| claim: "wr_phase w = Claiming \<Longrightarrow> worker_step c w (claim_turn c w)"
| ask: "wr_phase w = Asking \<Longrightarrow> worker_step c w (ask_queue c w)"
| start: "wr_phase w = Answered answer \<Longrightarrow> worker_step c w (start_task answer w)"
| gather: "wr_phase w = Draining \<Longrightarrow> worker_step c w (gather w)"
| finish: "i < length (wr_tasks w) \<Longrightarrow> tk_running (wr_tasks w ! i) \<Longrightarrow> worker_step c w (finish_task c i failure w)"
| beat: "i < length (wr_tasks w) \<Longrightarrow> tk_beating (wr_tasks w ! i) \<Longrightarrow> worker_step c w (beat c i w)"
| stop: "worker_step c w (w\<lparr>wr_stop := True\<rparr>)"
| others: "wr_now w \<le> now \<Longrightarrow> worker_step c w (w\<lparr>wr_queue := q, wr_now := now\<rparr>)"

inductive_cases worker_stepE: "worker_step c w w'"

inductive worker_reachable :: "worker_cfg \<Rightarrow> worker \<Rightarrow> bool" for c :: worker_cfg where
  start: "worker_reachable c (initial_worker q now)"
| step: "worker_reachable c w \<Longrightarrow> worker_step c w w' \<Longrightarrow> worker_reachable c w'"

section \<open>The invariant\<close>

text \<open>A claim is in flight, and the job it was answered with that has no task yet.\<close>

definition in_flight :: "worker \<Rightarrow> bool" where
  "in_flight w \<longleftrightarrow> (case wr_phase w of Asking \<Rightarrow> True | Answered _ \<Rightarrow> True | _ \<Rightarrow> False)"

definition pending :: "worker \<Rightarrow> job set" where
  "pending w = (case wr_phase w of Answered (Some j) \<Rightarrow> {j} | _ \<Rightarrow> {})"

definition worker_ok :: "worker_cfg \<Rightarrow> worker \<Rightarrow> bool" where
  "worker_ok c w \<longleftrightarrow> int (length (wr_tasks w)) + of_bool (in_flight w) \<le> max (wc_concurrency c) 0 \<and>
     (wr_phase w = Ended \<longrightarrow> run_tasks w = []) \<and> (wr_phase w \<in> {Draining, Ended} \<longrightarrow> wr_stop w) \<and>
     (\<forall>t\<in>set (wr_tasks w). tk_beating t \<longrightarrow> tk_running t)"

lemma run_tasks_le: "length (run_tasks w) \<le> length (wr_tasks w)"
  by (simp add: run_tasks_def)

lemma worker_step_ok:
  assumes "worker_step c w w'" and "worker_ok c w"
  shows "worker_ok c w'"
  using assms(1)
proof cases
  case touched
  have "int (length (run_tasks w)) \<le> max (wc_concurrency c) 0"
    using assms(2) run_tasks_le[of w] unfolding worker_ok_def by (simp add: of_bool_def split: if_splits)
  then show ?thesis
    using assms(2) touched by (auto simp: worker_ok_def in_flight_def begin_claims_def run_tasks_def)
next
  case claim
  then show ?thesis using assms(2) by (auto simp: worker_ok_def in_flight_def claim_turn_def run_tasks_def)
next
  case ask
  then show ?thesis
    using assms(2) by (auto simp: worker_ok_def in_flight_def ask_queue_def run_tasks_def split: prod.splits)
next
  case (start answer)
  then show ?thesis
    using assms(2) by (auto simp: worker_ok_def in_flight_def start_task_def run_tasks_def split: option.splits)
next
  case (finish i failure)
  have "t \<in> set (wr_tasks w) \<or> \<not> tk_beating t \<and> \<not> tk_running t" if "t \<in> set (wr_tasks w')" for t
    using that set_update_subset_insert[of "wr_tasks w" i] by (fastforce simp: finish(1) finish_task_def Let_def)
  moreover have "run_tasks w = [] \<Longrightarrow> run_tasks w' = []"
    using calculation by (auto simp: run_tasks_def filter_empty_conv)
  ultimately show ?thesis
    using assms(2) by (auto simp: worker_ok_def in_flight_def finish(1) finish_task_def Let_def)
next
  case (beat i)
  let ?ok = "fst (pg_heartbeat (jb_id (tk_job (wr_tasks w ! i))) (wc_id c) (wc_lease c) (wr_now w) (wr_queue w))"
  have w': "wr_tasks w' = (wr_tasks w)[i := (wr_tasks w ! i)\<lparr>tk_beating := ?ok\<rparr>]" "wr_phase w' = wr_phase w"
    "wr_stop w' = wr_stop w"
    by (simp_all add: beat(1) beat_def Let_def split: prod.splits)
  have run: "tk_running (wr_tasks w ! i)" using assms(2) beat by (auto simp: worker_ok_def)
  then have "wr_phase w \<noteq> Ended" using assms(2) beat(2) by (auto simp: worker_ok_def run_tasks_def filter_empty_conv)
  moreover have "tk_beating t \<longrightarrow> tk_running t" if "t \<in> set (wr_tasks w')" for t
    using that set_update_subset_insert[of "wr_tasks w" i] assms(2) run by (fastforce simp: w' worker_ok_def)
  ultimately show ?thesis using assms(2) by (simp add: worker_ok_def in_flight_def w')
qed (use assms(2) in \<open>auto simp: worker_ok_def in_flight_def run_tasks_def wake_def gather_def\<close>)

lemma worker_reachable_ok: "worker_reachable c w \<Longrightarrow> worker_ok c w"
proof (induction rule: worker_reachable.induct)
  case (start q now)
  then show ?case by (simp add: worker_ok_def in_flight_def initial_worker_def run_tasks_def)
next
  case (step w w')
  then show ?case by (blast intro: worker_step_ok)
qed

text \<open>The jobs that are being run only grow by claiming. A worker that was told to stop asks for no other job,
  and starts none but the one it had asked for.\<close>

definition jobs_run :: "worker \<Rightarrow> job set" where
  "jobs_run w = tk_job ` set (run_tasks w)"

lemma stopped_step:
  assumes "worker_step c w w'" and "wr_stop w"
  shows "wr_stop w' \<and> (wr_phase w' = Asking \<longrightarrow> wr_phase w = Asking) \<and>
    (if wr_phase w = Asking then jobs_run w' \<subseteq> jobs_run w
     else jobs_run w' \<union> pending w' \<subseteq> jobs_run w \<union> pending w)"
  using assms(1)
proof cases
  case (start answer)
  then show ?thesis
    using assms(2) by (auto simp: jobs_run_def run_tasks_def start_task_def pending_def split: option.splits)
next
  case (finish i failure)
  have "t \<in> set (wr_tasks w) \<or> \<not> tk_running t" if "t \<in> set (wr_tasks w')" for t
    using that set_update_subset_insert[of "wr_tasks w" i] by (fastforce simp: finish(1) finish_task_def Let_def)
  then show ?thesis
    using assms(2) by (auto simp: jobs_run_def run_tasks_def finish(1) finish_task_def pending_def Let_def)
next
  case (beat i)
  have "t \<in> set (wr_tasks w) \<or> tk_job t = tk_job (wr_tasks w ! i) \<and> tk_running t = tk_running (wr_tasks w ! i)"
    if "t \<in> set (wr_tasks w')" for t
    using that set_update_subset_insert[of "wr_tasks w" i] by (fastforce simp: beat(1) beat_def Let_def split: prod.splits)
  then have "jobs_run w' \<subseteq> jobs_run w" using beat(2) by (fastforce simp: jobs_run_def run_tasks_def)
  then show ?thesis using assms(2) by (auto simp: beat(1) beat_def Let_def pending_def split: prod.splits)
qed (use assms(2) in \<open>auto simp: jobs_run_def run_tasks_def pending_def wake_def begin_claims_def claim_turn_def
  ask_queue_def gather_def split: prod.splits\<close>)

lemma stopped_steps:
  assumes "(worker_step c)\<^sup>*\<^sup>* w w'" and "wr_stop w" and "wr_phase w \<noteq> Asking"
  shows "jobs_run w' \<union> pending w' \<subseteq> jobs_run w \<union> pending w"
proof -
  have "wr_stop w' \<and> wr_phase w' \<noteq> Asking \<and> jobs_run w' \<union> pending w' \<subseteq> jobs_run w \<union> pending w"
    using assms(1)
  proof induction
    case (step x y)
    then show ?case using stopped_step[OF step(2)] by auto
  qed (simp add: assms)
  then show ?thesis by blast
qed

lemma pending_single: "\<exists>j. pending w \<subseteq> {j}"
  by (auto simp: pending_def split: phase.split option.split)

lemma stopped_asking_steps:
  assumes "(worker_step c)\<^sup>*\<^sup>* w w'" and "wr_stop w" and "wr_phase w = Asking"
  shows "\<exists>j. jobs_run w' \<subseteq> insert j (jobs_run w)"
proof -
  have "wr_stop w' \<and> (if wr_phase w' = Asking then jobs_run w' \<subseteq> jobs_run w
      else \<exists>j. jobs_run w' \<union> pending w' \<subseteq> insert j (jobs_run w))"
    using assms(1)
  proof induction
    case (step x y)
    show ?case
    proof (cases "wr_phase x = Asking")
      case True
      obtain j where "pending y \<subseteq> {j}" using pending_single by blast
      then have "jobs_run y \<union> pending y \<subseteq> insert j (jobs_run w)" "wr_stop y" "jobs_run y \<subseteq> jobs_run w"
        using True step(3) stopped_step[OF step(2)] by auto
      then show ?thesis by auto
    next
      case False
      then obtain j where j: "jobs_run x \<union> pending x \<subseteq> insert j (jobs_run w)" using step(3) by auto
      have "wr_stop y \<and> wr_phase y \<noteq> Asking \<and> jobs_run y \<union> pending y \<subseteq> insert j (jobs_run w)"
        using False step(3) stopped_step[OF step(2)] j by auto
      then show ?thesis by auto
    qed
  qed (simp add: assms)
  then show ?thesis by (auto split: if_splits)
qed

section \<open>Properties\<close>

text \<open>C20. A worker is bounded and stops cleanly: in every reachable state the jobs it runs and the claim it has in
  flight are together at most its concurrency. Once it was told to stop it asks for no other job: it starts at most
  the one job of the claim that was in flight at that moment, and none when there was no such claim. When it has
  ended it was told to stop, and no job of it is left running.\<close>

theorem worker_loop_bounded:
  assumes "worker_reachable c w" and "(worker_step c)\<^sup>*\<^sup>* w w'"
  shows "int (length (run_tasks w)) + of_bool (in_flight w) \<le> max (wc_concurrency c) 0 \<and>
    (wr_phase w = Ended \<longrightarrow> wr_stop w \<and> run_tasks w = []) \<and>
    (wr_stop w \<longrightarrow> (if wr_phase w = Asking then \<exists>j. jobs_run w' \<subseteq> insert j (jobs_run w)
       else jobs_run w' \<subseteq> jobs_run w \<union> pending w)) \<and>
    (wr_stop w \<and> \<not> in_flight w \<longrightarrow> jobs_run w' \<subseteq> jobs_run w)"
proof -
  have ok: "worker_ok c w" by (rule worker_reachable_ok[OF assms(1)])
  have "wr_stop w \<longrightarrow> (if wr_phase w = Asking then \<exists>j. jobs_run w' \<subseteq> insert j (jobs_run w)
       else jobs_run w' \<subseteq> jobs_run w \<union> pending w)"
    using stopped_steps[OF assms(2)] stopped_asking_steps[OF assms(2)] by auto
  moreover have "\<not> in_flight w \<Longrightarrow> wr_phase w \<noteq> Asking \<and> pending w = {}"
    by (auto simp: in_flight_def pending_def split: phase.splits)
  ultimately show ?thesis using ok run_tasks_le[of w] by (auto simp: worker_ok_def)
qed

text \<open>A lost lease does not stop the job: when another worker has claimed a job whose lease ran out, the
  first one learns it at its next heartbeat and goes on running the job all the same.\<close>

theorem lost_lease_keeps_running:
  assumes "worker_reachable c w" and "i < length (wr_tasks w)" and "wr_tasks w ! i = t"
    and "tk_running t" and "tk_beating t" and "wr_now w \<le> now" and "other \<noteq> wc_id c"
    and "pg_claim other l now (wr_queue w) = (Some j, q)" and "jb_id j = jb_id (tk_job t)"
  shows "\<exists>w'. worker_reachable c w' \<and> (\<exists>t'\<in>set (run_tasks w'). tk_job t' = tk_job t \<and> \<not> tk_beating t') \<and>
    j \<in> set (jt_rows (wr_queue w')) \<and> jb_lease_owner j = Some other"
proof -
  let ?w = "w\<lparr>wr_queue := q, wr_now := now\<rparr>"
  have w: "worker_reachable c ?w"
    using assms(1,6) by (blast intro: worker_reachable.step worker_step.others)
  obtain rows where cl: "sql_claim_next other l now (snd (sql_reclaim_expired now (jt_rows (wr_queue w)))) = (Some j, rows)"
    and q: "jt_rows q = rows" using assms(8) by (auto simp: pg_claim_def split: prod.splits)
  obtain j0 where j0: "j = lease_to other l now j0"
    "rows = update_job (jb_id j0) (lease_to other l now) (snd (sql_reclaim_expired now (jt_rows (wr_queue w))))" "j \<in> set rows"
    by (rule claim_next_Some[OF cl])
  have "\<not> list_ex (\<lambda>r. jb_id r = jb_id (tk_job t) \<and> jb_status r = Running \<and> jb_lease_owner r = Some (wc_id c)) rows"
    using assms(7,9) by (auto simp: j0(1,2) update_job_def lease_to_def list_ex_iff)
  then have "sql_heartbeat (jb_id (tk_job t)) (wc_id c) (wc_lease c) now rows = (False, rows)"
    by (auto simp: sql_heartbeat_def list_ex_iff Let_def intro!: map_idI)
  then have beat: "pg_heartbeat (jb_id (tk_job t)) (wc_id c) (wc_lease c) now q = (False, q)"
    using q by (simp add: pg_heartbeat_def)
  let ?w' = "beat c i ?w"
  have "worker_step c ?w ?w'" using assms(2,3,5) by (intro worker_step.beat) simp_all
  then have "worker_reachable c ?w'" by (rule worker_reachable.step[OF w])
  moreover have w': "?w' = ?w\<lparr>wr_tasks := (wr_tasks w)[i := t\<lparr>tk_beating := False\<rparr>]\<rparr>"
    using beat by (simp add: beat_def assms(3) Let_def)
  have "t\<lparr>tk_beating := False\<rparr> \<in> set (run_tasks ?w')"
    using assms(2,4) by (simp add: w' run_tasks_def set_update_memI)
  then have "\<exists>t'\<in>set (run_tasks ?w'). tk_job t' = tk_job t \<and> \<not> tk_beating t'" by (rule bexI[rotated]) simp
  moreover have "j \<in> set (jt_rows (wr_queue ?w'))" using j0(3) q by (simp add: w')
  moreover have "jb_lease_owner j = Some other" by (simp add: j0(1) lease_to_def)
  ultimately show ?thesis by blast
qed

section \<open>Witnesses\<close>

definition demo_worker_cfg :: worker_cfg where
  "demo_worker_cfg = \<lparr>wc_id = ''a'', wc_concurrency = 1, wc_lease = 60, wc_backoff = 1, wc_meta = JNull\<rparr>"

text \<open>A worker with room for one job asks the queue, is told to stop while it waits, and is answered with a job,
  which it starts.\<close>

definition demo_asking :: worker where
  "demo_asking = claim_turn demo_worker_cfg (begin_claims (wake demo_worker_cfg (initial_worker demo_queue 0)))"

definition demo_worker :: worker where
  "demo_worker = (let w = ask_queue demo_worker_cfg demo_asking
     in case wr_phase w of Answered answer \<Rightarrow> start_task answer w | _ \<Rightarrow> w)"

definition demo_stopped :: worker where
  "demo_stopped = (let w = ask_queue demo_worker_cfg (demo_asking\<lparr>wr_stop := True\<rparr>)
     in case wr_phase w of Answered answer \<Rightarrow> start_task answer w | _ \<Rightarrow> w)"

lemma demo_asking_phase: "wr_phase demo_asking = Asking"
  by code_simp

lemma demo_asking_reachable: "worker_reachable demo_worker_cfg demo_asking"
proof -
  let ?i = "initial_worker demo_queue 0"
  have i: "wr_phase ?i = Waiting" by (simp add: initial_worker_def)
  have w: "wr_phase (wake demo_worker_cfg ?i) = Touching" by (simp add: wake_def initial_worker_def)
  have b: "wr_phase (begin_claims (wake demo_worker_cfg ?i)) = Claiming" by (simp add: begin_claims_def)
  show "worker_reachable demo_worker_cfg demo_asking"
    unfolding demo_asking_def by (intro worker_reachable.step[OF _ worker_step.claim] worker_reachable.step[OF _ worker_step.touched]
      worker_reachable.step[OF _ worker_step.wake] worker_reachable.start i w b)
qed

lemma answered_steps:
  assumes "wr_phase w = Asking"
  shows "(worker_step c)\<^sup>*\<^sup>* w (let v = ask_queue c w in case wr_phase v of Answered answer \<Rightarrow> start_task answer v | _ \<Rightarrow> v)"
proof -
  obtain answer where p: "wr_phase (ask_queue c w) = Answered answer" by (cases "pg_claim (wc_id c) (wc_lease c) (wr_now w) (wr_queue w)") (auto simp: ask_queue_def)
  have "worker_step c w (ask_queue c w)" "worker_step c (ask_queue c w) (start_task answer (ask_queue c w))"
    using assms p by (auto intro: worker_step.ask worker_step.start)
  then show ?thesis by (simp add: p)
qed

lemma demo_worker_reachable: "worker_reachable demo_worker_cfg demo_worker"
proof -
  have "worker_reachable c v" if "(worker_step c)\<^sup>*\<^sup>* w v" "worker_reachable c w" for c w v
    using that by induction (auto intro: worker_reachable.step)
  then show ?thesis
    using answered_steps[OF demo_asking_phase] demo_asking_reachable unfolding demo_worker_def by blast
qed

text \<open>The stop came while the claim was in flight: the worker runs that one job, and no other after it.\<close>

lemma worker_loop_bounded_witness:
  "in_flight (demo_asking\<lparr>wr_stop := True\<rparr>) \<and> jobs_run demo_asking = {} \<and> jobs_run demo_stopped \<noteq> {} \<and>
    (\<exists>j. jobs_run demo_stopped \<subseteq> {j})"
proof -
  let ?w = "demo_asking\<lparr>wr_stop := True\<rparr>"
  have reach: "worker_reachable demo_worker_cfg ?w"
    by (rule worker_reachable.step[OF demo_asking_reachable worker_step.stop])
  have p: "wr_phase ?w = Asking" using demo_asking_phase by simp
  have e: "jobs_run ?w = {}" "run_tasks demo_asking = []" by (simp_all add: jobs_run_def) (code_simp+)
  have "run_tasks demo_stopped \<noteq> []" by code_simp
  then have "jobs_run demo_stopped \<noteq> {}" by (simp add: jobs_run_def)
  moreover have "\<exists>j. jobs_run demo_stopped \<subseteq> insert j (jobs_run ?w)"
    using worker_loop_bounded[OF reach answered_steps[OF p]] p unfolding demo_stopped_def by simp
  ultimately show ?thesis using e p by (simp add: in_flight_def jobs_run_def)
qed

lemma demo_lost_lease:
  "case pg_claim ''b'' 60 100 (wr_queue demo_worker) of (None, q) \<Rightarrow> False
     | (Some j, q) \<Rightarrow> jb_id j = jb_id (tk_job (wr_tasks demo_worker ! 0))"
  "length (wr_tasks demo_worker) = 1" "tk_running (wr_tasks demo_worker ! 0)" "tk_beating (wr_tasks demo_worker ! 0)"
  "wr_now demo_worker = 0"
  by code_simp+

lemma lost_lease_keeps_running_witness:
  "\<exists>w' j. worker_reachable demo_worker_cfg w' \<and> (\<exists>t'\<in>set (run_tasks w'). tk_job t' = tk_job (wr_tasks demo_worker ! 0)) \<and>
     j \<in> set (jt_rows (wr_queue w')) \<and> jb_lease_owner j = Some ''b''"
proof -
  obtain j q where c: "pg_claim ''b'' 60 100 (wr_queue demo_worker) = (Some j, q)"
    "jb_id j = jb_id (tk_job (wr_tasks demo_worker ! 0))"
    using demo_lost_lease(1) by (auto split: prod.splits option.splits)
  have "''b'' \<noteq> wc_id demo_worker_cfg" "0 < length (wr_tasks demo_worker)" "wr_now demo_worker \<le> 100"
    using demo_lost_lease by (simp_all add: demo_worker_cfg_def)
  from lost_lease_keeps_running[OF demo_worker_reachable this(2) refl demo_lost_lease(3,4) this(3,1) c]
  show ?thesis by blast
qed

end
