(* ===== verification/Routes.thy ===== *)
theory Routes
  imports Workflow Json_Read Agent_Facts
begin

text \<open>
  The routes over the ledger (\<open>routers/audit.py\<close>) and the webhooks (\<open>routers/webhooks.py\<close>,
  \<open>auth/webhook_auth.py\<close>): the credential and its signature, the size limit, the JSON reader, the validation
  of each format, its normaliser and the trigger. A result is \<open>Inl\<close> for an exception nobody handles, and
  otherwise an answer or an HTTP error. What Pydantic takes for an integer, the texts of its errors and
  HMAC are parameters.
\<close>

section \<open>The ledger routes\<close>

definition ledger_unavailable :: "int \<times> string" where
  "ledger_unavailable = (503, ''Approval ledger unavailable: the API has no database connection'')"

record key_listing =
  kl_active :: string
  kl_public :: string
  kl_retired :: "string list"
  kl_ephemeral :: bool
  kl_trusted :: "(string \<times> string) list"

definition signing_keys :: "'k server \<Rightarrow> int \<Rightarrow> request \<Rightarrow> key_listing http" where
  "signing_keys sv now rq = http_bind (require_role (sv_auth sv) (sv_login sv) Viewer False False now rq) (\<lambda>_.
     let c = sv_crypto sv; ks = sv_keys sv
     in Inr \<lparr>kl_active = signer_key_id c (ks_active ks), kl_public = cr_public c (sg_key (ks_active ks)),
          kl_retired = sort_key id (map fst (ks_retired ks)), kl_ephemeral = sg_ephemeral (ks_active ks),
          kl_trusted = trusted c ks\<rparr>)"

definition approvals_route :: "'k server \<Rightarrow> int \<Rightarrow> request \<Rightarrow> string \<Rightarrow> system \<Rightarrow> ledger_row list http" where
  "approvals_route sv now rq thread sy = http_bind (require_role (sv_auth sv) (sv_login sv) Viewer False False now rq) (\<lambda>_.
     if \<not> sv_pool sv then Inl ledger_unavailable else Inr (list_approvals thread (sy_ledger sy)))"

record audit_report =
  vr_ok :: bool
  vr_chain_ok :: bool
  vr_protected :: bool
  vr_checked :: nat
  vr_broken_at :: "nat option"
  vr_fault :: "chain_fault option"
  vr_anchor :: anchor_check

definition audit_of :: "'k crypto \<Rightarrow> 'k keyset \<Rightarrow> ledger \<Rightarrow> audit_report" where
  "audit_of c ks l =
     (let rows = list_approvals [] l; report = verify_chain c rows (trusted c ks);
          anchor = check_against_anchor c rows (sink_latest (lg_sink l)) (trusted c ks);
          protected = (ac_ok anchor \<and> ac_present anchor)
      in \<lparr>vr_ok = (ch_ok report \<and> protected), vr_chain_ok = ch_ok report, vr_protected = protected,
          vr_checked = ch_checked report, vr_broken_at = ch_broken_at report, vr_fault = ch_fault report,
          vr_anchor = anchor\<rparr>)"

definition verify_route :: "'k server \<Rightarrow> int \<Rightarrow> request \<Rightarrow> system \<Rightarrow> audit_report http" where
  "verify_route sv now rq sy = http_bind (require_role (sv_auth sv) (sv_login sv) Viewer False False now rq) (\<lambda>_.
     if \<not> sv_pool sv then Inl ledger_unavailable else Inr (audit_of (sv_crypto sv) (sv_keys sv) (sy_ledger sy)))"

text \<open>\<open>GET /incidents\<close>: each incident with its status and its last error. Without a database the site is not looked at.\<close>

definition incidents_route :: "'k server \<Rightarrow> int \<Rightarrow> request \<Rightarrow> string \<Rightarrow> system \<Rightarrow> (string \<times> incident \<times> string \<times> string) list http" where
  "incidents_route sv now rq site sy = http_bind (require_role (sv_auth sv) (sv_login sv) Viewer False False now rq) (\<lambda>_.
     Inr (map (\<lambda>(thread, ic). let failure = latest_error thread (jt_rows (sy_queue sy))
            in (thread, ic, if failure \<noteq> [] then ''failed'' else status_from_snapshot (map_of (sy_threads sy) thread), failure))
       (if sv_pool sv then list_incidents (strip site) sy else sy_incidents sy)))"

section \<open>Reading a webhook\<close>

type_synonym dict = "(string \<times> json) list"

record webhook_cfg =
  wh_max_body :: int
  wh_secret :: string
  wh_alert_tag :: string
  wh_default_site :: string
  wh_pd_tag :: string
  wh_lib :: ingress_lib
  wh_json :: json_ext
  wh_int :: "json \<Rightarrow> int option"
  wh_hmac :: "string \<Rightarrow> string \<Rightarrow> string"
  wh_invalid :: "dict \<Rightarrow> string"
  wh_error :: "py_exn \<Rightarrow> string"

definition max_body_bytes :: "webhook_cfg \<Rightarrow> int" where
  "max_body_bytes cfg = (if wh_max_body cfg = 0 then 262144 else wh_max_body cfg)"

definition read_json :: "webhook_cfg \<Rightarrow> string \<Rightarrow> dict http" where
  "read_json cfg body =
     (if int (length body) > max_body_bytes cfg then Inl (413, ''Webhook payload too large'')
      else case loads (wh_json cfg) body of
             None \<Rightarrow> Inl (422, ''Invalid JSON payload'')
           | Some (JObj ms) \<Rightarrow> Inr ms
           | Some _ \<Rightarrow> Inl (422, ''Webhook payload must be a JSON object''))"

text \<open>A field of a model: \<open>None\<close> for a validation error, the default when the key is absent.\<close>

definition str_or :: "string option \<Rightarrow> string \<Rightarrow> dict \<Rightarrow> string option" where
  "str_or preset k ms = (case map_of ms k of None \<Rightarrow> preset | Some (JStr s) \<Rightarrow> Some s | _ \<Rightarrow> None)"

definition dict_or :: "string \<Rightarrow> dict \<Rightarrow> dict option" where
  "dict_or k ms = (case map_of ms k of None \<Rightarrow> Some [] | Some (JObj d) \<Rightarrow> Some d | _ \<Rightarrow> None)"

definition null_or_dict :: "string \<Rightarrow> dict \<Rightarrow> dict option" where
  "null_or_dict k ms = (if map_of ms k = Some JNull then Some [] else dict_or k ms)"

definition only_str :: "string \<times> json \<Rightarrow> (string \<times> string) option" where
  "only_str m = (case m of (k, JStr s) \<Rightarrow> Some (k, s) | _ \<Rightarrow> None)"

fun all_some :: "'a option list \<Rightarrow> 'a list option" where
  "all_some [] = Some []"
| "all_some (None # xs) = None"
| "all_some (Some x # xs) = map_option (Cons x) (all_some xs)"

definition labels_or :: "string \<Rightarrow> dict \<Rightarrow> labels option" where
  "labels_or k ms = Option.bind (dict_or k ms) (\<lambda>d. all_some (map only_str d))"

definition read_generic :: "string \<Rightarrow> string \<Rightarrow> dict \<Rightarrow> generic_body option" where
  "read_generic id_key text_key ms =
     Option.bind (str_or None id_key ms) (\<lambda>i. Option.bind (str_or None text_key ms) (\<lambda>d.
     Option.bind (str_or (Some ''high'') ''severity'' ms) (\<lambda>v. Option.bind (str_or (Some []) ''site'' ms) (\<lambda>s.
     Option.bind (str_or (Some []) ''external_id'' ms) (\<lambda>e.
       Some \<lparr>gb_ticket = i, gb_description = d, gb_severity = v, gb_site = s, gb_external = e\<rparr>)))))"

text \<open>\<open>source\<close> is only in the first format, \<open>event\<close> only in the second, where it is a text already.\<close>

definition source_ok :: "dict \<Rightarrow> bool" where
  "source_ok ms = (case str_or (Some ''generic'') ''source'' ms of None \<Rightarrow> False | Some s \<Rightarrow> length s \<le> 64)"

definition is_mirror :: "dict \<Rightarrow> bool" where
  "is_mirror ms = (map_of ms ''event'' = Some (JStr ''incident.opened'') \<and>
     (case map_of ms ''incident'' of None \<Rightarrow> False | Some v \<Rightarrow> truthy v))"

definition generic_trigger :: "dict \<Rightarrow> trigger res option" where
  "generic_trigger ms =
     (if is_mirror ms then map_option normalize_generic (read_generic ''incident'' ''summary'' ms)
      else if \<not> source_ok ms then None
      else map_option normalize_generic (read_generic ''ticket_id'' ''description'' ms))"

definition read_alert :: "json \<Rightarrow> alert option" where
  "read_alert v = (case v of
       JObj ms \<Rightarrow>
         Option.bind (str_or (Some ''firing'') ''status'' ms) (\<lambda>s. Option.bind (labels_or ''labels'' ms) (\<lambda>ls.
         Option.bind (labels_or ''annotations'' ms) (\<lambda>an. Option.bind (str_or (Some []) ''fingerprint'' ms) (\<lambda>f.
           Some \<lparr>al_status = s, al_labels = ls, al_annotations = an, al_fingerprint = f\<rparr>))))
     | _ \<Rightarrow> None)"

definition read_alertmanager :: "dict \<Rightarrow> alertmanager_body option" where
  "read_alertmanager ms =
     Option.bind (str_or (Some ''4'') ''version'' ms) (\<lambda>_. Option.bind (str_or (Some ''firing'') ''status'' ms) (\<lambda>s.
     Option.bind (labels_or ''groupLabels'' ms) (\<lambda>g. Option.bind (labels_or ''commonLabels'' ms) (\<lambda>cl.
     Option.bind (labels_or ''commonAnnotations'' ms) (\<lambda>ca.
     Option.bind (case map_of ms ''alerts'' of None \<Rightarrow> Some [] | Some (JArr vs) \<Rightarrow> all_some (map read_alert vs) | _ \<Rightarrow> None) (\<lambda>as.
       Some \<lparr>ab_status = s, ab_group_labels = g, ab_common_labels = cl, ab_common_annotations = ca, ab_alerts = as\<rparr>))))))"

definition int_or_null :: "webhook_cfg \<Rightarrow> string \<Rightarrow> dict \<Rightarrow> int option option" where
  "int_or_null cfg k ms = (case map_of ms k of
     None \<Rightarrow> Some None | Some JNull \<Rightarrow> Some None | Some v \<Rightarrow> map_option Some (wh_int cfg v))"

definition read_pd_data :: "webhook_cfg \<Rightarrow> dict \<Rightarrow> pagerduty_data option" where
  "read_pd_data cfg ms =
     Option.bind (str_or (Some []) ''id'' ms) (\<lambda>i. Option.bind (int_or_null cfg ''number'' ms) (\<lambda>n.
     Option.bind (str_or (Some []) ''title'' ms) (\<lambda>t. Option.bind (dict_or ''body'' ms) (\<lambda>b.
     Option.bind (str_or (Some []) ''urgency'' ms) (\<lambda>u. Option.bind (null_or_dict ''priority'' ms) (\<lambda>pr.
     Option.bind (null_or_dict ''service'' ms) (\<lambda>sv. Option.bind (null_or_dict ''custom_details'' ms) (\<lambda>cd.
       Some \<lparr>pd_id = i, pd_number = n, pd_title = t, pd_body = b, pd_urgency = u, pd_priority = pr,
             pd_service = sv, pd_custom = cd\<rparr>))))))))"

definition read_pagerduty :: "webhook_cfg \<Rightarrow> dict \<Rightarrow> (string \<times> pagerduty_data) option" where
  "read_pagerduty cfg ms =
     Option.bind (dict_or ''event'' ms) (\<lambda>ev. Option.bind (str_or (Some []) ''event_type'' ev) (\<lambda>et.
     Option.bind (str_or (Some []) ''resource_type'' ev) (\<lambda>_. Option.bind (dict_or ''data'' ev) (\<lambda>d.
     Option.bind (read_pd_data cfg d) (\<lambda>x. Some (et, x))))))"

section \<open>The webhook routes\<close>

datatype format = Generic | Alertmanager | Pagerduty

fun trigger_of :: "webhook_cfg \<Rightarrow> format \<Rightarrow> dict \<Rightarrow> trigger res option" where
  "trigger_of cfg Generic ms = generic_trigger ms"
| "trigger_of cfg Alertmanager ms =
     map_option (normalize_alertmanager (wh_lib cfg) (wh_alert_tag cfg) (wh_default_site cfg)) (read_alertmanager ms)"
| "trigger_of cfg Pagerduty ms =
     map_option (\<lambda>(et, d). normalize_pagerduty (wh_lib cfg) (wh_pd_tag cfg) et d) (read_pagerduty cfg ms)"

record signed_request = request +
  sr_signature :: string
  sr_timestamp :: string
  sr_body :: string

text \<open>The dependency of each route: the PagerDuty one checks the signature when there is a secret and both headers.\<close>

definition admit_webhook ::
  "webhook_cfg \<Rightarrow> 'k server \<Rightarrow> clock \<Rightarrow> format \<Rightarrow> signed_request \<Rightarrow> limiter option \<Rightarrow> principal http res \<times> limiter option" where
  "admit_webhook cfg sv ck fmt rq lm =
     (let plain = require_webhook_principal (sv_auth sv) (sv_login sv) (ck_now ck) (request.truncate rq) lm
      in if fmt \<noteq> Pagerduty then plain
         else if wh_secret cfg \<noteq> [] \<and> sr_signature rq \<noteq> [] \<and> sr_timestamp rq \<noteq> []
         then (if verify_pagerduty_signature (wh_hmac cfg) (wh_secret cfg) (sr_body rq) (sr_timestamp rq) (sr_signature rq)
               then plain else (Inr (Inl (401, ''Invalid PagerDuty webhook signature'')), lm))
         else plain)"

definition accept_payload ::
  "webhook_cfg \<Rightarrow> 'k server \<Rightarrow> clock \<Rightarrow> format \<Rightarrow> string \<Rightarrow> system \<Rightarrow> trigger_result http \<times> system" where
  "accept_payload cfg sv ck fmt body sy =
     (case read_json cfg body of
        Inl e \<Rightarrow> (Inl e, sy)
      | Inr ms \<Rightarrow>
          (case trigger_of cfg fmt ms of
             None \<Rightarrow> (Inl (422, wh_invalid cfg ms), sy)
           | Some (Inl e) \<Rightarrow> (Inl (422, wh_error cfg e), sy)
           | Some (Inr t) \<Rightarrow> trigger_incident sv ck t sy))"

definition webhook_route ::
  "webhook_cfg \<Rightarrow> 'k server \<Rightarrow> clock \<Rightarrow> format \<Rightarrow> signed_request \<Rightarrow> limiter option \<times> system
    \<Rightarrow> trigger_result http res \<times> limiter option \<times> system" where
  "webhook_route cfg sv ck fmt rq st = (case admit_webhook cfg sv ck fmt rq (fst st) of
     (Inl e, lm) \<Rightarrow> (Inl e, lm, snd st)
   | (Inr (Inl e), lm) \<Rightarrow> (Inr (Inl e), lm, snd st)
   | (Inr (Inr _), lm) \<Rightarrow> (case accept_payload cfg sv ck fmt (sr_body rq) (snd st) of (r, sy) \<Rightarrow> (Inr r, lm, sy)))"

section \<open>The audit agrees with the start\<close>

text \<open>The audit route reports the ledger as sound exactly when the start-up check would accept it and an anchor
  protects it.\<close>

theorem audit_agrees_with_startup:
  "vr_ok (audit_of c ks l) \<longleftrightarrow> ac_ok (verify_ledger_at_startup c ks l) \<and> sink_latest (lg_sink l) \<noteq> None"
  by (cases "sink_latest (lg_sink l)")
     (auto simp: audit_of_def verify_ledger_at_startup_def check_against_anchor_def anchored_def Let_def)

section \<open>What a webhook can do\<close>

lemma admitted_is_operator:
  assumes "admit_webhook cfg sv ck fmt rq lm = (Inr (Inr p), lm')"
  shows "current_principal (sv_auth sv) (sv_login sv) (ck_now ck) (request.truncate rq) = Inr p \<and> can (pr_role p) Operator"
  using assms
  by (auto simp: admit_webhook_def require_webhook_principal_def Let_def split: if_splits sum.splits option.splits prod.splits)

lemma read_json_size: "read_json cfg body = Inr ms \<Longrightarrow> int (length body) \<le> max_body_bytes cfg"
  by (auto simp: read_json_def split: if_splits)

lemma trigger_incident_threads [simp]: "sy_threads (snd (trigger_incident sv ck t sy)) = sy_threads sy"
  "sy_ledger (snd (trigger_incident sv ck t sy)) = sy_ledger sy" "sy_store (snd (trigger_incident sv ck t sy)) = sy_store sy"
  by (auto simp: trigger_incident_def insert_incident_def Let_def split: prod.splits sum.splits)

lemma accept_payload_cases:
  "accept_payload cfg sv ck fmt body sy = (r, sy') \<Longrightarrow> sy' = sy \<or>
     (\<exists>ms t. read_json cfg body = Inr ms \<and> trigger_of cfg fmt ms = Some (Inr t) \<and> tg_action t \<noteq> ''ignore'' \<and>
        thread_id_ok (tg_thread t) \<and> (r, sy') = trigger_incident sv ck t sy)"
  by (auto simp: accept_payload_def trigger_incident_def Let_def split: sum.splits option.splits if_splits)

lemma trigger_incident_incidents:
  "tg_action t \<noteq> ''ignore'' \<Longrightarrow> thread_id_ok (tg_thread t) \<Longrightarrow>
    sy_incidents (snd (trigger_incident sv ck t sy)) =
      al_put (tg_thread t) \<lparr>ic_description = tg_description t, ic_severity = tg_severity t, ic_site = strip (tg_site t)\<rparr> (sy_incidents sy)"
  by (auto simp: trigger_incident_def insert_incident_def Let_def split: prod.splits sum.splits)

text \<open>C21. A webhook changes the system only for a caller whose credential has the role of an operator, with a body
  within the size limit that is a JSON object of the format; then it records one incident under a well-formed
  thread id and queues it, and neither a thread, the ledger nor a stored execution changes.\<close>

theorem webhook_only_opens_incidents:
  assumes "webhook_route cfg sv ck fmt rq (lm, sy) = (r, lm', sy')" and "sy' \<noteq> sy"
  shows "\<exists>p ms t. current_principal (sv_auth sv) (sv_login sv) (ck_now ck) (request.truncate rq) = Inr p \<and>
    can (pr_role p) Operator \<and> int (length (sr_body rq)) \<le> max_body_bytes cfg \<and>
    loads (wh_json cfg) (sr_body rq) = Some (JObj ms) \<and> trigger_of cfg fmt ms = Some (Inr t) \<and>
    thread_id_ok (tg_thread t) \<and> sy' = snd (trigger_incident sv ck t sy) \<and>
    map_of (sy_incidents sy') = (map_of (sy_incidents sy))(tg_thread t \<mapsto>
      \<lparr>ic_description = tg_description t, ic_severity = tg_severity t, ic_site = strip (tg_site t)\<rparr>) \<and>
    sy_threads sy' = sy_threads sy \<and> sy_ledger sy' = sy_ledger sy \<and> sy_store sy' = sy_store sy"
proof -
  obtain p where p: "admit_webhook cfg sv ck fmt rq lm = (Inr (Inr p), lm')"
    and a: "accept_payload cfg sv ck fmt (sr_body rq) sy = (fst (accept_payload cfg sv ck fmt (sr_body rq) sy), sy')"
    using assms by (auto simp: webhook_route_def split: prod.splits sum.splits)
  from accept_payload_cases[OF a] assms(2) obtain ms t where t: "read_json cfg (sr_body rq) = Inr ms"
    "trigger_of cfg fmt ms = Some (Inr t)" "tg_action t \<noteq> ''ignore''" "thread_id_ok (tg_thread t)"
    "sy' = snd (trigger_incident sv ck t sy)" by (metis snd_conv)
  have "loads (wh_json cfg) (sr_body rq) = Some (JObj ms)"
    using t(1) by (auto simp: read_json_def split: if_splits option.splits json.splits)
  then show ?thesis using admitted_is_operator[OF p] read_json_size[OF t(1)] t
    by (intro exI[of _ p] exI[of _ ms] exI[of _ t]) (simp add: trigger_incident_incidents)
qed

definition route_server :: "string server" where
  "route_server = \<lparr>sv_crypto = plain_crypto, sv_keys = demo_keyset, sv_auth = plain_auth,
     sv_login = \<lparr>as_enabled = True, as_service_token = ''token'', as_jwt_secret = ''key'', as_mfa_required = True\<rparr>,
     sv_pool = True, sv_schedule = \<lparr>sc_windows = [], sc_freezes = []\<rparr>, sv_agent = demo_agent, sv_executor = None,
     sv_prose = \<lparr>px_reason = (\<lambda>_. []), px_next = (\<lambda>_. []), px_summary = (\<lambda>_. []), px_line = (\<lambda>_. []),
       px_execution = (\<lambda>_. JNull), px_error = (\<lambda>_. [])\<rparr>\<rparr>"

definition route_cfg :: webhook_cfg where
  "route_cfg = \<lparr>wh_max_body = 0, wh_secret = ''shared secret'', wh_alert_tag = ''AM'', wh_default_site = [], wh_pd_tag = ''PD'',
     wh_lib = demo_lib, wh_json = \<lparr>jx_float = (\<lambda>_. JNull), jx_char = (\<lambda>_. [])\<rparr>, wh_int = (\<lambda>v. case v of JInt i \<Rightarrow> Some i | _ \<Rightarrow> None),
     wh_hmac = (@), wh_invalid = (\<lambda>_. []), wh_error = (\<lambda>_. [])\<rparr>"

definition unsigned_event :: signed_request where
  "unsigned_event = \<lparr>rq_method = ''POST'', rq_authorization = ''Bearer token'', rq_cookie = None, rq_csrf_header = [],
     rq_forwarded = [], rq_client = None, sr_signature = [], sr_timestamp = [],
     sr_body = replace_char (CHR ''!'') (CHR 0x22)
       ''{!event!:{!event_type!:!incident.triggered!,!data!:{!number!:7}}}''\<rparr>"

definition route_clock :: clock where
  "route_clock = \<lparr>ck_now = 60, ck_text = ''t'', ck_moment = \<lparr>mo_day = 1, mo_clock = 0\<rparr>\<rparr>"

definition route_empty :: system where
  "route_empty = \<lparr>sy_threads = [], sy_queue = \<lparr>jt_rows = [], jt_next = 1, pg_capacity = 9, pg_max_attempts = 3\<rparr>,
     sy_ledger = \<lparr>lg_rows = [], lg_sink = NullSink\<rparr>, sy_store = [], sy_incidents = []\<rparr>"

text \<open>A configured PagerDuty secret does not make the signature necessary: without its header, whoever holds the
  service token has any body taken as an event of PagerDuty.\<close>

theorem unsigned_event_is_accepted:
  assumes "wh_secret cfg \<noteq> []" and "sr_signature rq = []" and "as_enabled (sv_login sv)"
    and "bearer (request.truncate rq) = Some token" and "as_service_token (sv_login sv) = token" and "token \<noteq> []"
  shows "webhook_route cfg sv ck Pagerduty rq (None, sy) =
    (Inr (fst (accept_payload cfg sv ck Pagerduty (sr_body rq) sy)), None,
     snd (accept_payload cfg sv ck Pagerduty (sr_body rq) sy))"
proof -
  have "require_webhook_principal (sv_auth sv) (sv_login sv) (ck_now ck) (request.truncate rq) None =
      (Inr (Inr service_principal), None)"
    using assms(3-6) by (simp add: require_webhook_principal_def current_principal_def service_principal_def can_def)
  then show ?thesis using assms(2) by (simp add: webhook_route_def admit_webhook_def split: prod.split)
qed

lemma route_opened: "map fst (sy_incidents (snd (accept_payload route_cfg route_server route_clock Pagerduty
    (sr_body unsigned_event) route_empty))) = [''PD-7'']"
  by code_simp

lemma route_bearer: "bearer (request.truncate unsigned_event) = Some ''token''"
  by code_simp

lemma unsigned_route:
  "webhook_route route_cfg route_server route_clock Pagerduty unsigned_event (None, route_empty) =
    (Inr (fst (accept_payload route_cfg route_server route_clock Pagerduty (sr_body unsigned_event) route_empty)), None,
     snd (accept_payload route_cfg route_server route_clock Pagerduty (sr_body unsigned_event) route_empty))"
proof -
  have "require_webhook_principal (sv_auth route_server) (sv_login route_server) (ck_now route_clock)
      (request.truncate unsigned_event) None = (Inr (Inr service_principal), None)"
    using route_bearer by (simp add: require_webhook_principal_def current_principal_def service_principal_def can_def route_server_def)
  then show ?thesis by (simp add: webhook_route_def admit_webhook_def unsigned_event_def split: prod.split)
qed

lemma unsigned_event_is_accepted_witness:
  "(\<exists>r sy'. webhook_route route_cfg route_server route_clock Pagerduty unsigned_event (None, route_empty) = (Inr r, None, sy') \<and>
     map fst (sy_incidents sy') = [''PD-7'']) \<and> wh_secret route_cfg \<noteq> []"
proof
  have "wh_secret route_cfg \<noteq> []" "sr_signature unsigned_event = []" by (simp_all add: route_cfg_def unsigned_event_def)
  moreover have "as_enabled (sv_login route_server)" "as_service_token (sv_login route_server) = ''token''"
    by (simp_all add: route_server_def)
  ultimately show "\<exists>r sy'. webhook_route route_cfg route_server route_clock Pagerduty unsigned_event (None, route_empty) = (Inr r, None, sy') \<and>
     map fst (sy_incidents sy') = [''PD-7'']"
    using unsigned_event_is_accepted[of route_cfg unsigned_event route_server "''token''" route_clock route_empty]
      route_bearer route_opened by simp
qed (simp add: route_cfg_def)

lemma webhook_only_opens_incidents_witness:
  "\<exists>t :: trigger. thread_id_ok (tg_thread t) \<and>
     map_of (sy_incidents (snd (accept_payload route_cfg route_server route_clock Pagerduty (sr_body unsigned_event) route_empty)))
       = [tg_thread t \<mapsto> \<lparr>ic_description = tg_description t, ic_severity = tg_severity t, ic_site = strip (tg_site t)\<rparr>]"
proof -
  have "snd (accept_payload route_cfg route_server route_clock Pagerduty (sr_body unsigned_event) route_empty) \<noteq> route_empty"
    using route_opened by (metis (no_types, lifting) list.distinct(1) list.map_disc_iff route_empty_def system.select_convs(5))
  moreover have e: "map_of (sy_incidents route_empty) = Map.empty" by (simp add: route_empty_def)
  ultimately show ?thesis using webhook_only_opens_incidents[OF unsigned_route] unfolding e by blast
qed

end
