(* ===== verification/Neo4j.thy ===== *)
theory Neo4j
  imports Netbox Topology
begin

text \<open>
  The topology in the graph database: \<open>store/neo4j_store.py\<close> with the start-up seed, the freshness record and the
  five queries, over the graph that \<open>Netbox\<close> writes. A query is the set of the rows, or of the answers, that
  the meaning of its Cypher text allows: which row \<open>single()\<close> returns first and which of the shortest paths is found
  is up to the database. \<open>shortestPath\<close> with equal end points is an error of the database.
\<close>

section \<open>The seed\<close>

definition strip_semicolons :: "string \<Rightarrow> string" where
  "strip_semicolons s = rev (dropWhile (\<lambda>c. c = CHR '';'') (rev s))"

definition statement_text :: "string list \<Rightarrow> string" where
  "statement_text buf = strip (strip_semicolons (strip (join [CHR 0x0A] buf)))"

definition keep_statement :: "string list \<Rightarrow> string list \<Rightarrow> string list" where
  "keep_statement buf statements =
     (if statement_text buf = [] then statements else statements @ [statement_text buf])"

fun statement_lines :: "string list \<Rightarrow> string list \<Rightarrow> string list \<Rightarrow> string list" where
  "statement_lines statements buf [] = keep_statement buf statements"
| "statement_lines statements buf (l # ls) =
     (if starts_with ''//'' (strip l) then statement_lines statements buf ls
      else if ends_with '';'' (strip l) then statement_lines (keep_statement (buf @ [l]) statements) [] ls
      else statement_lines statements (buf @ [l]) ls)"

definition statements_of :: "string \<Rightarrow> string list" where
  "statements_of cypher = statement_lines [] [] (split_lines cypher)"

text \<open>What \<open>ensure_seed\<close> runs: nothing over a graph that came from NetBox or has enough links.\<close>

definition ensure_seed :: "string option \<Rightarrow> int \<Rightarrow> int \<Rightarrow> string \<Rightarrow> string \<Rightarrow> string list" where
  "ensure_seed source netbox_devices links schema seed =
     (if source = Some ''netbox'' \<or> netbox_devices > 0 \<or> links \<ge> 8 then []
      else ''MATCH (n) DETACH DELETE n'' # statements_of schema @ statements_of seed)"

section \<open>Freshness\<close>

record topology_meta =
  tm_source :: string
  tm_ingested_at :: string
  tm_site :: string
  tm_device_count :: int
  tm_link_count :: int
  tm_warning_count :: int

text \<open>\<open>replace("Z", "+00:00")\<close>; \<open>stamp_of\<close> is \<open>datetime.fromisoformat\<close> in UTC.\<close>

definition utc_suffix :: "string \<Rightarrow> string" where
  "utc_suffix s = concat (map (\<lambda>c. if c = CHR ''Z'' then ''+00:00'' else [c]) s)"

definition age_seconds :: "(string \<Rightarrow> int option) \<Rightarrow> int \<Rightarrow> topology_meta option \<Rightarrow> int option" where
  "age_seconds stamp_of now meta = (case meta of
     None \<Rightarrow> None
   | Some m \<Rightarrow> if tm_ingested_at m = [] then None
       else map_option (\<lambda>t. max 0 (now - t)) (stamp_of (utc_suffix (tm_ingested_at m))))"

section \<open>The queries\<close>

definition effective_site :: "string option \<Rightarrow> string \<Rightarrow> string" where
  "effective_site site own = (case site of None \<Rightarrow> strip own | Some s \<Rightarrow> s)"

definition neo_device :: "graph \<Rightarrow> string \<Rightarrow> string \<Rightarrow> bool" where
  "neo_device g site name \<longleftrightarrow> (case gr_devices g name of None \<Rightarrow> False | Some d \<Rightarrow> site = [] \<or> nd_site d = site)"

definition neo_known :: "graph \<Rightarrow> string \<Rightarrow> string list" where
  "neo_known g site = sorted_list_of_set {n. neo_device g site n}"

definition coalesce :: "'a option \<Rightarrow> 'a option \<Rightarrow> 'a option" where
  "coalesce a b = (if a = None then b else a)"

text \<open>The rows of \<open>device_ip\<close>, one for each interface or one without. Both writers of the graph set
  \<open>management_ip\<close>, to the empty text if there is none.\<close>

definition ip_rows :: "graph \<Rightarrow> string \<Rightarrow> string \<Rightarrow> string option set" where
  "ip_rows g site name = {coalesce (map_option nd_ip (gr_devices g name)) i | i. neo_device g site name \<and>
     (i \<in> {map_option nf_ip (gr_interfaces g f) | f. (name, f) \<in> gr_has g} \<or>
      (\<forall>f. (name, f) \<notin> gr_has g) \<and> i = None)}"

definition ip_answer :: "string option \<Rightarrow> string option" where
  "ip_answer row = (case row of Some (c # s) \<Rightarrow> Some (c # s) | _ \<Rightarrow> None)"

definition neo_ip :: "graph \<Rightarrow> string \<Rightarrow> string \<Rightarrow> string option set" where
  "neo_ip g site name = (if ip_rows g site name = {} then {None} else ip_answer ` ip_rows g site name)"

text \<open>A step along one relationship, in either direction, and the paths of \<open>[:HAS_INTERFACE|CONNECTS_TO*1..15]\<close>.\<close>

datatype gnode = Dev string | Port string

fun hop :: "graph \<Rightarrow> gnode \<Rightarrow> gnode \<Rightarrow> bool" where
  "hop g (Dev d) (Port i) = ((d, i) \<in> gr_has g)"
| "hop g (Port i) (Dev d) = ((d, i) \<in> gr_has g)"
| "hop g (Port i) (Port j) = ((i, j) \<in> gr_connects g \<or> (j, i) \<in> gr_connects g)"
| "hop g (Dev d) (Dev e) = False"

definition neo_paths :: "graph \<Rightarrow> string \<Rightarrow> string \<Rightarrow> string \<Rightarrow> gnode list set" where
  "neo_paths g site a b = {p. neo_device g site a \<and> neo_device g site b \<and> p \<noteq> [] \<and> hd p = Dev a \<and> last p = Dev b \<and>
     successively (hop g) p \<and> 2 \<le> length p \<and> length p \<le> 16}"

definition dev_names :: "gnode list \<Rightarrow> string list" where
  "dev_names p = List.map_filter (\<lambda>n. case n of Dev d \<Rightarrow> Some d | Port _ \<Rightarrow> None) p"

definition neo_path :: "graph \<Rightarrow> string \<Rightarrow> string \<Rightarrow> string \<Rightarrow> string list option res set" where
  "neo_path g site a b =
     (if neo_device g site a \<and> neo_device g site b \<and> a = b then {Inl (RuntimeError ''shortestPath: the start and end nodes are the same'')}
      else if neo_paths g site a b = {} then {Inr None}
      else {Inr (Some (dev_names p)) | p. p \<in> neo_paths g site a b \<and> (\<forall>q\<in>neo_paths g site a b. length p \<le> length q)})"

definition neo_blast :: "graph \<Rightarrow> string \<Rightarrow> string \<Rightarrow> (string \<times> string option) set" where
  "neo_blast g site name = {(n, z) | n z i j. neo_device g site name \<and> neo_device g site n \<and> (name, i) \<in> gr_has g \<and>
     (i, j) \<in> gr_connects g \<and> (n, j) \<in> gr_has g \<and> (name, i) \<noteq> (n, j) \<and>
     (z \<in> Some ` {y. (n, y) \<in> gr_belongs g} \<or> (\<forall>y. (n, y) \<notin> gr_belongs g) \<and> z = None)}"

definition neo_boundary :: "graph \<Rightarrow> string \<Rightarrow> string \<Rightarrow> string \<Rightarrow> boundary option set" where
  "neo_boundary g site a b =
     (let rows = {(x, y). neo_device g site a \<and> neo_device g site b \<and> (a, x) \<in> gr_belongs g \<and> (b, y) \<in> gr_belongs g}
      in if rows = {} then {None}
         else (\<lambda>(x, y). Some \<lparr>bd_source_zone = x, bd_dest_zone = y, bd_crosses = (x \<noteq> y)\<rparr>) ` rows)"

section \<open>Facts\<close>

text \<open>A measure of the nodes that no step changes by more than one bounds the length of a path from below.\<close>

lemma path_at_least:
  assumes "successively (hop g) p" and "p \<noteq> []" and "\<And>x y. hop g x y \<Longrightarrow> abs (f x - f y) \<le> (1 :: int)"
  shows "abs (f (hd p) - f (last p)) \<le> int (length p) - 1"
  using assms(1,2)
proof (induction p rule: induct_list012)
  case (3 x y zs)
  have "hop g x y" using "3.prems"(1) by simp
  from assms(3)[OF this] have "abs (f x - f y) \<le> 1" .
  moreover have "abs (f y - f (last (y # zs))) \<le> int (length (y # zs)) - 1" using 3 by simp
  ultimately show ?case by simp
qed simp_all

lemma ingested_parts:
  assumes "build_topology s ds fs addrs = t"
  shows "gr_has (ingest True None t g) = {(nf_device f, nf_id f) | f. f \<in> set (nt_interfaces t)}"
    and "gr_connects (ingest True None t g) = set (nt_links t) \<union> (set (nt_links t))\<inverse>"
    and "gr_devices (ingest True None t g) = map_of (rev (map (\<lambda>d. (nd_name d, d\<lparr>nd_zone := []\<rparr>)) (nt_devices t)))"
  by (simp_all add: ingest_exact[OF assms])

text \<open>Two devices are cabled when a link joins an interface of one to one of the other.\<close>

definition cabled :: "nb_topology \<Rightarrow> string \<Rightarrow> string \<Rightarrow> bool" where
  "cabled t a b \<longleftrightarrow> (\<exists>f\<in>set (nt_interfaces t). \<exists>h\<in>set (nt_interfaces t). nf_device f = a \<and> nf_device h = b \<and>
     ((nf_id f, nf_id h) \<in> set (nt_links t) \<or> (nf_id h, nf_id f) \<in> set (nt_links t)))"

text \<open>C18. Over an imported inventory the blast radius of a known device names, besides the device itself, exactly the
  devices of the site that are cabled to it, whichever end reported the cable.\<close>

theorem blast_radius_is_cabling:
  assumes "build_topology s ds fs addrs = t" and "neo_device (ingest True None t g) site name"
  shows "fst ` neo_blast (ingest True None t g) site name - {name} =
    {n. n \<noteq> name \<and> neo_device (ingest True None t g) site n \<and> cabled t name n}"
proof -
  let ?g = "ingest True None t g"
  have zone: "\<exists>z. z \<in> Some ` {y. (n, y) \<in> gr_belongs ?g} \<or> (\<forall>y. (n, y) \<notin> gr_belongs ?g) \<and> z = None" for n by blast
  have "n \<in> fst ` neo_blast ?g site name \<longleftrightarrow> neo_device ?g site n \<and> cabled t name n" if "n \<noteq> name" for n
  proof -
    have "n \<in> fst ` neo_blast ?g site name \<longleftrightarrow> neo_device ?g site n \<and>
        (\<exists>i j. (name, i) \<in> gr_has ?g \<and> (i, j) \<in> gr_connects ?g \<and> (n, j) \<in> gr_has ?g)"
      using assms(2) that zone[of n] unfolding neo_blast_def image_iff by fastforce
    also have "\<dots> \<longleftrightarrow> neo_device ?g site n \<and> cabled t name n"
      unfolding ingested_parts[OF assms(1)] cabled_def by blast
    finally show ?thesis .
  qed
  then show ?thesis by blast
qed

text \<open>An imported device without a primary address has no address at all for the agent, whatever addresses its
  interfaces carry: the empty text that the import writes is not null, so the query never falls back to them.\<close>

theorem imported_device_without_ip:
  assumes "build_topology s ds fs addrs = t"
    and "map_of (rev (map (\<lambda>d. (nd_name d, d)) (nt_devices t))) name = Some d" and "nd_ip d = []"
  shows "neo_ip (ingest True None t g) site name = {None}"
proof -
  have "gr_devices (ingest True None t g) name = Some (d\<lparr>nd_zone := []\<rparr>)"
  proof -
    have "map_of (map (\<lambda>d. (nd_name d, d\<lparr>nd_zone := []\<rparr>)) xs) name =
        map_option (\<lambda>d. d\<lparr>nd_zone := []\<rparr>) (map_of (map (\<lambda>d. (nd_name d, d)) xs) name)" for xs :: "nb_device list"
      by (induction xs) auto
    then show ?thesis using assms(2) by (simp add: ingested_parts(3)[OF assms(1)] rev_map)
  qed
  then have "r = Some []" if "r \<in> ip_rows (ingest True None t g) site name" for r
    using that assms(3) by (auto simp: ip_rows_def coalesce_def)
  then have "ip_answer r = None" if "r \<in> ip_rows (ingest True None t g) site name" for r
    using that by (force simp: ip_answer_def)
  then show ?thesis by (auto simp: neo_ip_def image_iff)
qed

section \<open>A row of seven devices\<close>

definition plain_device :: "string \<Rightarrow> string \<Rightarrow> nb_device" where
  "plain_device site name = \<lparr>nd_name = name, nd_role = [], nd_vendor = [], nd_platform = [], nd_site = site, nd_ip = [],
     nd_zone = []\<rparr>"

text \<open>The graph of a row of devices, each joined to the next, with the site of each.\<close>

definition row_links :: "string list \<Rightarrow> (string \<times> string) list" where
  "row_links ns = map (\<lambda>(a, b). (port_id a ''out'', port_id b ''in'')) (zip ns (tl ns))"

definition row_graph :: "(string \<times> string) list \<Rightarrow> graph" where
  "row_graph ds = \<lparr>gr_zones = {}, gr_devices = map_of (map (\<lambda>(n, s). (n, plain_device s n)) ds), gr_belongs = {},
     gr_interfaces = Map.empty, gr_has = set (concat (map (\<lambda>(n, _). [(n, port_id n ''in''), (n, port_id n ''out'')]) ds)),
     gr_connects = set (row_links (map fst ds)) \<union> (set (row_links (map fst ds)))\<inverse>\<rparr>"

definition row_devices :: "string list \<Rightarrow> devices" where
  "row_devices ns = map (\<lambda>i. (ns ! i, \<lparr>dv_zone = [], dv_neighbors = (if i = 0 then [] else [ns ! (i - 1)]) @
     (if Suc i < length ns then [ns ! Suc i] else []), dv_ip = None, dv_site = []\<rparr>)) [0..<length ns]"

definition seven :: "string list" where
  "seven = [''A'', ''B'', ''C'', ''D'', ''E'', ''F'', ''G'']"

definition row_place :: "string list \<Rightarrow> gnode \<Rightarrow> int" where
  "row_place ns x = (case map_of (concat (map (\<lambda>(i, n). [(Dev n, 3 * int i), (Port (port_id n ''in''), 3 * int i - 1),
     (Port (port_id n ''out''), 3 * int i + 1)]) (enumerate 0 ns))) x of None \<Rightarrow> 0 | Some k \<Rightarrow> k)"

definition row_edges :: "(string \<times> string) list \<Rightarrow> (gnode \<times> gnode) list" where
  "row_edges ds = concat (map (\<lambda>(n, _). [(Dev n, Port (port_id n ''in'')), (Dev n, Port (port_id n ''out''))]) ds)
     @ map (\<lambda>(a, b). (Port a, Port b)) (row_links (map fst ds))"

lemma row_hop:
  assumes "hop (row_graph ds) x y"
  shows "(x, y) \<in> set (row_edges ds) \<or> (y, x) \<in> set (row_edges ds)"
proof -
  have "(Port a, Port b) \<in> (\<lambda>(a, b). (Port a, Port b)) ` ls \<longleftrightarrow> (a, b) \<in> ls" for a b ls by force
  then show ?thesis using assms by (cases x; cases y) (auto simp: row_graph_def row_edges_def)
qed

lemma row_steps:
  assumes "list_all (\<lambda>(x, y). abs (f x - f y) \<le> (1 :: int)) (row_edges ds)" and "hop (row_graph ds) x y"
  shows "abs (f x - f y) \<le> 1"
  using row_hop[OF assms(2)] assms(1) by (auto simp: list_all_iff)

lemma seven_steps: "hop (row_graph (map (\<lambda>n. (n, [])) seven)) x y \<Longrightarrow> abs (row_place seven x - row_place seven y) \<le> 1"
proof (erule row_steps[rotated])
  show "list_all (\<lambda>(x, y). abs (row_place seven x - row_place seven y) \<le> 1) (row_edges (map (\<lambda>n. (n, [])) seven))"
    by code_simp
qed

text \<open>Seven devices in a row: the path from one end to the other has six links and eighteen relationships, three
  more than the query follows, so the graph database finds none where the in-memory inventory finds it.\<close>

theorem six_links_have_no_path:
  "neo_path (row_graph (map (\<lambda>n. (n, [])) seven)) [] ''A'' ''G'' = {Inr None} \<and>
   path_trace (row_devices seven) [] ''A'' ''G'' = Inr (Some seven)"
proof
  let ?g = "row_graph (map (\<lambda>n. (n, [])) seven)"
  have "neo_paths ?g [] ''A'' ''G'' = {}"
  proof -
    have "int (length p) \<ge> 19" if "successively (hop ?g) p" "p \<noteq> []" "hd p = Dev ''A''" "last p = Dev ''G''" for p
    proof -
      have "row_place seven (Dev ''A'') = 0" "row_place seven (Dev ''G'') = 18"
        by (simp_all add: row_place_def seven_def port_id_def)
      then show ?thesis using path_at_least[OF that(1,2), of "row_place seven"] seven_steps that(3,4) by fastforce
    qed
    then show ?thesis unfolding neo_paths_def by force
  qed
  then show "neo_path ?g [] ''A'' ''G'' = {Inr None}" by (simp add: neo_path_def)
  show "path_trace (row_devices seven) [] ''A'' ''G'' = Inr (Some seven)" by code_simp
qed

section \<open>Two sites\<close>

definition two_sites :: graph where
  "two_sites = row_graph [(''A'', ''S''), (''X'', ''T''), (''B'', ''S'')]"

definition through_x :: "gnode list" where
  "through_x = [Dev ''A'', Port ''A:out'', Port ''X:in'', Dev ''X'', Port ''X:out'', Port ''B:in'', Dev ''B'']"

lemmas two_sites_defs = two_sites_def row_graph_def row_links_def port_id_def plain_device_def

lemma two_sites_steps: "hop two_sites x y \<Longrightarrow> abs (row_place [''A'', ''X'', ''B''] x - row_place [''A'', ''X'', ''B''] y) \<le> 1"
  unfolding two_sites_def
proof (erule row_steps[rotated])
  show "list_all (\<lambda>(x, y). abs (row_place [''A'', ''X'', ''B''] x - row_place [''A'', ''X'', ''B''] y) \<le> 1)
      (row_edges [(''A'', ''S''), (''X'', ''T''), (''B'', ''S'')])" by code_simp
qed

lemma two_sites_shortest: "p \<in> neo_paths two_sites ''S'' ''A'' ''B'' \<Longrightarrow> 7 \<le> length p"
proof -
  assume "p \<in> neo_paths two_sites ''S'' ''A'' ''B''"
  then have p: "successively (hop two_sites) p" "p \<noteq> []" "hd p = Dev ''A''" "last p = Dev ''B''"
    by (simp_all add: neo_paths_def)
  have "row_place [''A'', ''X'', ''B''] (Dev ''A'') = 0" "row_place [''A'', ''X'', ''B''] (Dev ''B'') = 6"
    by (simp_all add: row_place_def port_id_def)
  then show ?thesis
    using path_at_least[OF p(1,2), of "row_place [''A'', ''X'', ''B'']"] two_sites_steps p(3,4) by fastforce
qed

text \<open>C40. A path traced within a site may lead through a device of another site: the query asks only the two ends for
  the site.\<close>

theorem site_path_leaves_site:
  "Inr (Some [''A'', ''X'', ''B'']) \<in> neo_path two_sites ''S'' ''A'' ''B'' \<and> \<not> neo_device two_sites ''S'' ''X''"
proof
  have t: "through_x \<in> neo_paths two_sites ''S'' ''A'' ''B''"
    by (simp add: neo_paths_def through_x_def neo_device_def two_sites_defs)
  have l: "length through_x = 7" "dev_names through_x = [''A'', ''X'', ''B'']"
    by (simp_all add: through_x_def dev_names_def List.map_filter_def)
  have "\<forall>q\<in>neo_paths two_sites ''S'' ''A'' ''B''. length through_x \<le> length q"
    using two_sites_shortest by (simp add: l)
  with t l(2) show "Inr (Some [''A'', ''X'', ''B'']) \<in> neo_path two_sites ''S'' ''A'' ''B''"
    unfolding neo_path_def by (auto intro!: exI[of _ through_x])
  show "\<not> neo_device two_sites ''S'' ''X''" by (simp add: neo_device_def two_sites_defs)
qed

section \<open>Witnesses\<close>

definition bare_devices :: "json list" where
  "bare_devices = [JObj [(''id'', JInt 1), (''name'', JStr ''FW'')], JObj [(''id'', JInt 2), (''name'', JStr ''SW'')]]"

definition bare_topology :: nb_topology where
  "bare_topology = build_topology (\<lambda>_. []) bare_devices
     [nb_demo_port 10 ''FW'' ''e0'' ''SW'' ''e1'', nb_demo_port 11 ''SW'' ''e1'' ''FW'' ''e0'']
     [JObj [(''assigned_object_id'', JInt 10), (''assigned_object_type'', JStr ''dcim.interface''),
            (''address'', JStr ''10.0.0.1/24'')]]"

lemma bare_facts:
  "map_of (rev (map (\<lambda>d. (nd_name d, d)) (nt_devices bare_topology))) ''FW'' = Some (device_of (\<lambda>_. []) (hd bare_devices))"
  "nd_ip (device_of (\<lambda>_. []) (hd bare_devices)) = []"
  "map (\<lambda>f. (nf_id f, nf_ip f)) (nt_interfaces bare_topology) = [(''FW:e0'', ''10.0.0.1''), (''SW:e1'', [])]"
  "map nd_name (nt_devices bare_topology) = [''FW'', ''SW'']"
  by code_simp+

lemma imported_device_without_ip_witness: "neo_ip (ingest True None bare_topology empty_graph) [] ''FW'' = {None}"
  by (rule imported_device_without_ip[OF bare_topology_def[symmetric] bare_facts(1,2)])

lemma bare_known: "neo_device (ingest True None bare_topology empty_graph) [] ''FW''"
proof -
  have "''FW'' \<in> nd_name ` set (nt_devices bare_topology)" using bare_facts(4) by (metis list.set_intros(1) list.set_map)
  then have "gr_devices (ingest True None bare_topology empty_graph) ''FW'' \<noteq> None"
    unfolding ingested_parts(3)[OF bare_topology_def[symmetric]] by (auto simp: map_of_eq_None_iff image_image)
  then show ?thesis by (auto simp: neo_device_def)
qed

lemma blast_radius_is_cabling_witness:
  "fst ` neo_blast (ingest True None bare_topology empty_graph) [] ''FW'' - {''FW''} =
    {n. n \<noteq> ''FW'' \<and> neo_device (ingest True None bare_topology empty_graph) [] n \<and> cabled bare_topology ''FW'' n}"
  by (rule blast_radius_is_cabling[OF bare_topology_def[symmetric] bare_known])

end
