(* ===== verification/Probe.thy ===== *)
theory Probe
  imports Secrets Asa
begin

text \<open>
  The connectivity report of \<open>firewall/probe.py\<close>: the lines it prints and its exit code. The backend of a
  session is a record of the methods the probe calls, whatever the vendor; what the device answers is fixed
  for the run.
\<close>

section \<open>The report\<close>

record probed =
  pb_policy :: "string \<Rightarrow> acl_rule list res"
  pb_nat :: "string \<Rightarrow> string list \<Rightarrow> nat_assessment res"
  pb_denied :: "flow_query \<Rightarrow> nat res"                 \<comment> \<open>the number of records\<close>
  pb_send :: "string \<Rightarrow> string res"

datatype probe_line = Backend_is device_session | Policy_failed py_exn | Entries nat nat | Unmodelled int string
  | Flow_is string string int | Nat_translated "string list" | Nat_unresolved_by "string list" | Nat_none
  | Nat_failed py_exn | Verdict string "(string \<times> int) option" | Denied_records nat
  | Read_only_enforced | Read_only_unexpected py_exn | Read_only_broken | Some_unmodelled | Fully_supported

definition coverage :: "acl_rule list \<Rightarrow> nat \<times> acl_rule list" where
  "coverage rules = (length (filter (\<lambda>r. ar_action r = ''permit'' \<or> ar_action r = ''deny'') rules),
     filter (\<lambda>r. ar_action r = ''unparsed'') rules)"

definition nat_line :: "nat_assessment res \<Rightarrow> probe_line" where
  "nat_line a = (case a of Inl e \<Rightarrow> Nat_failed e
     | Inr n \<Rightarrow> if na_applies n then Nat_translated (na_translated n)
         else if na_unresolved n \<noteq> [] then Nat_unresolved_by (na_unresolved n) else Nat_none)"

text \<open>The lines about a flow; an exception of the denied flows ends the probe.\<close>

definition flow_lines :: "probed \<Rightarrow> string \<Rightarrow> acl_rule list \<Rightarrow> string \<times> string \<times> int \<Rightarrow> probe_line list res" where
  "flow_lines b device rules flow = (case flow of (source, target, port) \<Rightarrow>
     (case evaluate_flow rules source target port ''tcp'' of (action, hit) \<Rightarrow>
       res_bind (pb_denied b \<lparr>q_source_device = ''probe-src'', q_source_ip = source, q_target_device = ''probe-dst'',
           q_target_ip = target, q_port = port, q_proto = ''tcp''\<rparr>) (\<lambda>n.
         Inr [Flow_is source target port, nat_line (pb_nat b device [source, target]),
           Verdict action (map_option (\<lambda>(_, r). (ar_id r, ar_line r)) hit), Denied_records n])))"

definition about_flow :: "probed \<Rightarrow> string \<Rightarrow> acl_rule list \<Rightarrow> (string \<times> string \<times> int) option \<Rightarrow> probe_line list res" where
  "about_flow b device rules flow = (case flow of None \<Rightarrow> Inr [] | Some f \<Rightarrow> flow_lines b device rules f)"

text \<open>The refusal of a write command, and the lines and the exit code after it.\<close>

definition read_only_lines :: "probed \<Rightarrow> acl_rule list \<Rightarrow> probe_line list \<times> int" where
  "read_only_lines b rest = (case pb_send b ''configure terminal'' of
     Inr _ \<Rightarrow> ([Read_only_broken], 2)
   | Inl (ReadOnlyViolation _) \<Rightarrow>
       (if rest \<noteq> [] then ([Read_only_enforced, Some_unmodelled], 1) else ([Read_only_enforced, Fully_supported], 0))
   | Inl e \<Rightarrow> ([Read_only_unexpected e], 2))"

definition probe ::
  "device_settings \<Rightarrow> (device_session \<Rightarrow> probed) \<Rightarrow> string \<Rightarrow> string \<Rightarrow> (string \<times> string \<times> int) option \<Rightarrow> device_args
    \<Rightarrow> (probe_line list \<times> int) res" where
  "probe st connect backend device flow a = res_bind (make_device_firewall st backend (a\<lparr>da_device_id := device\<rparr>)) (\<lambda>session.
     let b = connect session
     in case pb_policy b device of
          Inl e \<Rightarrow> Inr ([Backend_is session, Policy_failed e], 2)
        | Inr rules \<Rightarrow>
            (case coverage rules of (known, rest) \<Rightarrow>
              res_bind (about_flow b device rules flow) (\<lambda>about.
                case read_only_lines b rest of (end, code) \<Rightarrow>
                  Inr (Backend_is session # Entries known (length rest)
                    # map (\<lambda>r. Unmodelled (ar_line r) (ar_raw r)) rest @ about @ end, code))))"

section \<open>The exit code\<close>

lemma read_only_zero:
  "snd (read_only_lines b rest) = 0 \<longleftrightarrow> rest = [] \<and> (\<exists>c. pb_send b ''configure terminal'' = Inl (ReadOnlyViolation c))"
  by (auto simp: read_only_lines_def split: sum.splits py_exn.splits)

lemma about_flow_ok:
  "(\<exists>ls. about_flow b device rules flow = Inr ls) \<longleftrightarrow>
    (case flow of None \<Rightarrow> True | Some f \<Rightarrow> (\<exists>ls. flow_lines b device rules f = Inr ls))"
  by (simp add: about_flow_def split: option.split)

lemma probe_code:
  assumes "make_device_firewall st backend (a\<lparr>da_device_id := device\<rparr>) = Inr s"
  shows "(\<exists>ls. probe st connect backend device flow a = Inr (ls, 0)) \<longleftrightarrow>
    (\<exists>rules about. pb_policy (connect s) device = Inr rules \<and> about_flow (connect s) device rules flow = Inr about \<and>
       snd (read_only_lines (connect s) (snd (coverage rules))) = 0)"
proof (cases "pb_policy (connect s) device")
  case (Inr rules)
  obtain ls code where "read_only_lines (connect s) (snd (coverage rules)) = (ls, code)" by fastforce
  then show ?thesis
    by (cases "about_flow (connect s) device rules flow")
       (simp_all add: probe_def assms Inr coverage_def)
qed (simp add: probe_def assms)

text \<open>The probe ends with 0 exactly when the session could be built, the policy was read without an unmodelled entry, the
  device refused a write command before sending it, and, where a flow was asked about, its denied flows were read.\<close>

theorem probe_exit_zero_iff:
  "(\<exists>ls. probe st connect backend device flow a = Inr (ls, 0)) \<longleftrightarrow>
   (\<exists>s rules c. make_device_firewall st backend (a\<lparr>da_device_id := device\<rparr>) = Inr s \<and>
      pb_policy (connect s) device = Inr rules \<and> (\<nexists>r. r \<in> set rules \<and> ar_action r = ''unparsed'') \<and>
      pb_send (connect s) ''configure terminal'' = Inl (ReadOnlyViolation c) \<and>
      (case flow of None \<Rightarrow> True | Some f \<Rightarrow> (\<exists>ls. flow_lines (connect s) device rules f = Inr ls)))"
proof (cases "make_device_firewall st backend (a\<lparr>da_device_id := device\<rparr>)")
  case (Inr s)
  show ?thesis
    unfolding probe_code[OF Inr] read_only_zero
    by (simp add: Inr about_flow_ok[symmetric] coverage_def filter_empty_conv) blast
qed (simp add: probe_def)

end
