(* ===== verification/Sessions.thy ===== *)
theory Sessions
  imports Accounts "HOL-Library.List_Lexorder"
begin

text \<open>
  Browser sessions: the cookies of \<open>auth/sessions.py\<close> and the routes of \<open>routers/auth.py\<close> around the handlers of
  \<open>Accounts\<close>, with the checks of the body, the database and the role. A jar is what a browser keeps for the
  service: it sends a secure cookie only over TLS and lets scripts read a cookie unless it is \<open>httponly\<close>.
\<close>

section \<open>Cookies\<close>

record cookie =
  co_value :: string
  co_max_age :: int
  co_httponly :: bool
  co_secure :: bool

type_synonym jar = "(string \<times> cookie) list"

definition session_cookie :: string where "session_cookie = ''zn_session''"
definition csrf_cookie :: string where "csrf_cookie = ''zn_csrf''"

definition set_session_cookies :: "string \<Rightarrow> string \<Rightarrow> int \<Rightarrow> bool \<Rightarrow> jar \<Rightarrow> jar" where
  "set_session_cookies token csrf max_age secure jar =
     al_put csrf_cookie \<lparr>co_value = csrf, co_max_age = max_age, co_httponly = False, co_secure = secure\<rparr>
       (al_put session_cookie \<lparr>co_value = token, co_max_age = max_age, co_httponly = True, co_secure = secure\<rparr> jar)"

definition clear_session_cookies :: "jar \<Rightarrow> jar" where
  "clear_session_cookies jar = filter (\<lambda>(k, _). k \<notin> {session_cookie, csrf_cookie}) jar"

definition sent :: "bool \<Rightarrow> jar \<Rightarrow> string \<Rightarrow> string option" where
  "sent tls jar name = (case map_of jar name of None \<Rightarrow> None
     | Some c \<Rightarrow> if co_secure c \<and> \<not> tls then None else Some (co_value c))"

definition script_reads :: "jar \<Rightarrow> string \<Rightarrow> string option" where
  "script_reads jar name = (case map_of jar name of None \<Rightarrow> None
     | Some c \<Rightarrow> if co_httponly c then None else Some (co_value c))"

section \<open>The routes\<close>

record route_env =
  re_auth :: authlib
  re_login :: auth_state
  re_cfg :: login_cfg
  re_pool :: bool
  re_secure :: bool

definition user_store_unavailable :: "int \<times> string" where
  "user_store_unavailable = (503, ''User store unavailable: the API has no database connection'')"

definition login_route ::
  "route_env \<Rightarrow> int \<Rightarrow> string \<Rightarrow> string option \<Rightarrow> login_body \<Rightarrow> login_state \<times> jar \<Rightarrow> session_grant http res \<times> login_state \<times> jar" where
  "login_route e now csrf client body s =
     (if \<not> re_pool e then (Inr (Inl user_store_unavailable), s)
      else case login (re_auth e) (re_cfg e) (as_jwt_secret (re_login e)) now csrf client body (fst s) of
             (Inr (Inr g), ls) \<Rightarrow>
               (Inr (Inr g), ls, set_session_cookies (gr_token g) csrf (gr_expires_in g) (re_secure e) (snd s))
           | (r, ls) \<Rightarrow> (r, ls, snd s))"

definition logout_route :: "jar \<Rightarrow> jar" where
  "logout_route jar = clear_session_cookies jar"

definition me_route :: "route_env \<Rightarrow> int \<Rightarrow> request \<Rightarrow> (principal \<times> bool) http" where
  "me_route e now rq = http_bind (current_principal (re_auth e) (re_login e) now rq) (\<lambda>p. Inr (p, can_approve (re_login e) p))"

text \<open>A handler behind a role or a session, with the database it needs.\<close>

definition with_admin :: "route_env \<Rightarrow> int \<Rightarrow> request \<Rightarrow> users \<Rightarrow> (users \<Rightarrow> 'a http \<times> users) \<Rightarrow> 'a http \<times> users" where
  "with_admin e now rq us f = (case require_role (re_auth e) (re_login e) Admin False False now rq of
     Inl x \<Rightarrow> (Inl x, us) | Inr _ \<Rightarrow> if \<not> re_pool e then (Inl user_store_unavailable, us) else f us)"

text \<open>The rows come in the order of their addresses, compared by character codes.\<close>

record listed_user =
  lu_email :: string
  lu_role :: string
  lu_active :: bool
  lu_mfa :: bool
  lu_locked :: "int option"

definition list_users :: "users \<Rightarrow> listed_user list" where
  "list_users us = map (\<lambda>(k, u). \<lparr>lu_email = k, lu_role = us_role u, lu_active = us_active u, lu_mfa = us_totp_enabled u,
     lu_locked = us_locked u\<rparr>) (sort_key fst us)"

definition list_users_route :: "route_env \<Rightarrow> int \<Rightarrow> request \<Rightarrow> users \<Rightarrow> listed_user list http \<times> users" where
  "list_users_route e now rq us = with_admin e now rq us (\<lambda>us. (Inr (list_users us), us))"

definition create_user_route ::
  "route_env \<Rightarrow> int \<Rightarrow> request \<Rightarrow> string \<Rightarrow> string \<Rightarrow> role \<Rightarrow> users \<Rightarrow> (string \<times> role) http \<times> users" where
  "create_user_route e now rq email password r us =
     (if length password < 12
      then (http_bind (require_role (re_auth e) (re_login e) Admin False False now rq) (\<lambda>_. Inl (422, ''password'')), us)
      else with_admin e now rq us (create_user (re_auth e) email password r))"

definition unlock_user_route :: "route_env \<Rightarrow> int \<Rightarrow> request \<Rightarrow> string \<Rightarrow> users \<Rightarrow> unit http \<times> users" where
  "unlock_user_route e now rq email us = with_admin e now rq us (\<lambda>us. (Inr (), unlock_user email us))"

definition provisioning_uri :: "(string \<Rightarrow> string) \<Rightarrow> string \<Rightarrow> string \<Rightarrow> string" where
  "provisioning_uri quote secret account =
     ''otpauth://totp/'' @ quote ''ZeroNode'' @ '':'' @ quote account @ ''?secret='' @ secret @ ''&issuer='' @ quote ''ZeroNode''
     @ ''&algorithm=SHA1&digits=6&period=30''"

definition enrol_mfa_route ::
  "route_env \<Rightarrow> (string \<Rightarrow> string) \<Rightarrow> int \<Rightarrow> request \<Rightarrow> string \<Rightarrow> users \<Rightarrow> (string \<times> string) http \<times> users" where
  "enrol_mfa_route e quote now rq secret us = (case current_principal (re_auth e) (re_login e) now rq of
     Inl x \<Rightarrow> (Inl x, us)
   | Inr p \<Rightarrow>
       if pr_kind p = ''user'' \<and> \<not> re_pool e then (Inl user_store_unavailable, us)
       else (case enrol_mfa p secret us of
           (Inl x, us') \<Rightarrow> (Inl x, us')
         | (Inr s, us') \<Rightarrow> (Inr (s, provisioning_uri quote s (pr_subject p)), us')))"

definition with_code ::
  "route_env \<Rightarrow> int \<Rightarrow> request \<Rightarrow> string \<Rightarrow> users \<Rightarrow> (principal \<Rightarrow> unit http res \<times> users) \<Rightarrow> unit http res \<times> users" where
  "with_code e now rq code us f = (case current_principal (re_auth e) (re_login e) now rq of
     Inl x \<Rightarrow> (Inr (Inl x), us)
   | Inr p \<Rightarrow>
       if length code < 6 \<or> length code > 8 then (Inr (Inl (422, ''totp_code'')), us)
       else if \<not> re_pool e then (Inr (Inl user_store_unavailable), us) else f p)"

definition activate_mfa_route :: "route_env \<Rightarrow> int \<Rightarrow> request \<Rightarrow> string \<Rightarrow> users \<Rightarrow> unit http res \<times> users" where
  "activate_mfa_route e now rq code us = with_code e now rq code us (\<lambda>p. activate_mfa (re_auth e) now p code us)"

definition disable_mfa_route :: "route_env \<Rightarrow> int \<Rightarrow> request \<Rightarrow> string \<Rightarrow> users \<Rightarrow> unit http res \<times> users" where
  "disable_mfa_route e now rq code us = with_code e now rq code us (\<lambda>p. disable_mfa (re_auth e) now p code us)"

section \<open>The browser\<close>

text \<open>A request of the dashboard, which echoes the CSRF cookie, and one with another header.\<close>

definition browser_request :: "bool \<Rightarrow> string \<Rightarrow> jar \<Rightarrow> string \<Rightarrow> request" where
  "browser_request tls method jar header = \<lparr>rq_method = method, rq_authorization = [], rq_cookie = sent tls jar session_cookie,
     rq_csrf_header = header, rq_forwarded = [], rq_client = None\<rparr>"

definition dashboard_request :: "bool \<Rightarrow> string \<Rightarrow> jar \<Rightarrow> request" where
  "dashboard_request tls method jar =
     browser_request tls method jar (case script_reads jar csrf_cookie of None \<Rightarrow> [] | Some v \<Rightarrow> v)"

lemma jar_after_login [simp]:
  "map_of (set_session_cookies token csrf age secure jar) csrf_cookie =
     Some \<lparr>co_value = csrf, co_max_age = age, co_httponly = False, co_secure = secure\<rparr>"
  "map_of (set_session_cookies token csrf age secure jar) session_cookie =
     Some \<lparr>co_value = token, co_max_age = age, co_httponly = True, co_secure = secure\<rparr>"
  by (simp_all add: set_session_cookies_def csrf_cookie_def session_cookie_def)

lemma map_of_filter_key: "map_of (filter (\<lambda>(k, _). k \<notin> S) xs) x = (if x \<in> S then None else map_of xs x)"
  by (induction xs) auto

lemma browser_no_bearer: "bearer (browser_request tls m jar h) = None"
  by (simp add: bearer_def browser_request_def partition_at_def lower_def)

lemma browser_fields [simp]:
  "rq_cookie (browser_request tls m jar h) = sent tls jar session_cookie"
  "rq_csrf_header (browser_request tls m jar h) = h" "rq_method (browser_request tls m jar h) = m"
  by (simp_all add: browser_request_def)

lemma browser_principal:
  assumes "as_enabled st" and "sent tls jar session_cookie = Some t" and "t \<noteq> []"
    and "decode_token au now t (as_jwt_secret st) = Inr p"
  shows "current_principal au st now (browser_request tls m jar h) =
    http_bind (check_csrf (browser_request tls m jar h) p) (\<lambda>_. Inr p)"
  using assms by (simp add: current_principal_def browser_no_bearer decode_principal_def)

lemma browser_nobody:
  "as_enabled st \<Longrightarrow> sent tls jar session_cookie = None \<Longrightarrow>
     current_principal au st now (browser_request tls m jar h) = Inl (401, ''Not authenticated'')"
  by (simp add: current_principal_def browser_no_bearer)

lemma login_route_grants:
  assumes "login_route e now csrf client body (ls, jar) = (Inr (Inr g), ls', jar')"
  shows "fst (login (re_auth e) (re_cfg e) (as_jwt_secret (re_login e)) now csrf client body ls) = Inr (Inr g)"
    and "jar' = set_session_cookies (gr_token g) csrf (gr_expires_in g) (re_secure e) jar"
  using assms by (auto simp: login_route_def split: if_splits prod.splits sum.splits)

text \<open>C14. After a login the browser holds the session and no script can read its token. As long as the token lives,
  a request of the dashboard passes for an approval exactly when the user is an approver with the second factor the
  deployment asks for, and the same request without the CSRF value is refused. A logout clears the browser, which is
  nobody then; the service keeps no session, so a copy of the cookies made before is still the user until the token
  expires.\<close>

theorem browser_session:
  assumes "login_route e now csrf client body (ls, jar) = (Inr (Inr g), ls', jar')"
    and "tokens_decode (re_auth e) (as_jwt_secret (re_login e)) now'" and "now \<le> now'" and "now' < now + gr_expires_in g"
    and "as_enabled (re_login e)" and "gr_token g \<noteq> []" and "csrf \<noteq> []" and "lb_email body \<noteq> []"
    and "tls \<or> \<not> re_secure e" and "upper m \<in> set unsafe_methods" and "h \<noteq> csrf"
  shows "script_reads jar' session_cookie = None \<and>
    ((\<exists>p. require_role (re_auth e) (re_login e) Approver True True now' (dashboard_request tls m jar') = Inr p \<and>
        pr_subject p = lower (lb_email body)) \<longleftrightarrow>
      can (gr_role g) Approver \<and> (gr_mfa g \<or> \<not> as_mfa_required (re_login e))) \<and>
    current_principal (re_auth e) (re_login e) now' (browser_request tls m jar' h) =
      Inl (403, ''Missing or invalid CSRF token'') \<and>
    current_principal (re_auth e) (re_login e) now' (dashboard_request tls m (logout_route jar')) = Inl (401, ''Not authenticated'') \<and>
    (\<exists>p. current_principal (re_auth e) (re_login e) now' (dashboard_request tls m jar') = Inr p \<and>
       pr_subject p = lower (lb_email body) \<and> pr_role p = gr_role g)"
proof -
  note l = login_route_grants[OF assms(1)]
  have s: "sent tls jar' session_cookie = Some (gr_token g)" "script_reads jar' csrf_cookie = Some csrf"
    "script_reads jar' session_cookie = None"
    using assms(9) by (auto simp: l(2) sent_def script_reads_def)
  have "map_of (logout_route jar') session_cookie = None"
    unfolding logout_route_def clear_session_cookies_def map_of_filter_key by simp
  then have gone: "sent tls (logout_route jar') session_cookie = None" by (simp add: sent_def)
  note b = browser_principal[OF assms(5) s(1) assms(6) granted_decodes[OF l(1) assms(2,3,4,8)], of m]
  have "(\<exists>p. require_role (re_auth e) (re_login e) Approver True True now' (dashboard_request tls m jar') = Inr p \<and>
        pr_subject p = lower (lb_email body)) \<longleftrightarrow> can (gr_role g) Approver \<and> (gr_mfa g \<or> \<not> as_mfa_required (re_login e))"
    by (rule session_approves_iff[OF l(1) assms(2-5)])
      (use assms(6-8) s in \<open>simp_all add: dashboard_request_def browser_no_bearer\<close>)
  moreover have "current_principal (re_auth e) (re_login e) now' (browser_request tls m jar' h) =
      Inl (403, ''Missing or invalid CSRF token'')"
    using assms(7,10,11) by (simp add: b check_csrf_def)
  moreover have "current_principal (re_auth e) (re_login e) now' (dashboard_request tls m (logout_route jar')) =
      Inl (401, ''Not authenticated'')"
    unfolding dashboard_request_def by (rule browser_nobody[OF assms(5) gone])
  moreover have "\<exists>p. current_principal (re_auth e) (re_login e) now' (dashboard_request tls m jar') = Inr p \<and>
      pr_subject p = lower (lb_email body) \<and> pr_role p = gr_role g"
    using assms(7) by (simp add: dashboard_request_def s(2) b check_csrf_def)
  ultimately show ?thesis using s(3) by blast
qed

section \<open>A session of Ann\<close>

definition ann_env :: route_env where
  "ann_env = \<lparr>re_auth = plain_auth, re_login = demo_auth,
     re_cfg = \<lparr>lc_threshold = 5, lc_lock_minutes = 15, lc_ttl_minutes = 60\<rparr>, re_pool = True, re_secure = True\<rparr>"

definition ann_users :: login_state where
  "ann_users = \<lparr>ls_users = [(''ann'', demo_user)], ls_limiter = None\<rparr>"

definition ann_jar :: jar where
  "ann_jar = set_session_cookies (gr_token demo_grant) ''csrf'' (gr_expires_in demo_grant) True []"

lemma ann_signs_in:
  "\<exists>ls. login_route ann_env 60 ''csrf'' None (demo_login demo_code) (ann_users, []) = (Inr (Inr demo_grant), ls, ann_jar)"
proof -
  obtain ls where "login plain_auth \<lparr>lc_threshold = 5, lc_lock_minutes = 15, lc_ttl_minutes = 60\<rparr> ''key'' 60 ''csrf'' None
      (demo_login demo_code) \<lparr>ls_users = [(''ann'', demo_user)], ls_limiter = None\<rparr> = (Inr (Inr demo_grant), ls)"
    using demo_login_granted by (metis prod.collapse)
  then show ?thesis by (simp add: login_route_def ann_env_def ann_users_def ann_jar_def demo_auth_def)
qed

lemma browser_session_witness:
  "(\<exists>p. require_role plain_auth demo_auth Approver True True 120 (dashboard_request True ''POST'' ann_jar) = Inr p) \<and>
   current_principal plain_auth demo_auth 120 (browser_request True ''POST'' ann_jar []) = Inl (403, ''Missing or invalid CSRF token'') \<and>
   current_principal plain_auth demo_auth 120 (dashboard_request True ''POST'' (logout_route ann_jar)) = Inl (401, ''Not authenticated'')"
proof -
  obtain ls where l: "login_route ann_env 60 ''csrf'' None (demo_login demo_code) (ann_users, []) = (Inr (Inr demo_grant), ls, ann_jar)"
    using ann_signs_in by blast
  have facts: "gr_token demo_grant \<noteq> []" "120 < 60 + gr_expires_in demo_grant" "gr_role demo_grant = Approver" "gr_mfa demo_grant"
    "upper ''POST'' \<in> set unsafe_methods"
    by code_simp+
  have e: "re_auth ann_env = plain_auth" "re_login ann_env = demo_auth" "as_enabled demo_auth" "lb_email (demo_login demo_code) \<noteq> []"
    by (simp_all add: ann_env_def demo_auth_def demo_login_def)
  show ?thesis
    using browser_session[OF l, of 120 True "''POST''" "[]"] plain_tokens_decode facts e by (auto simp: can_def)
qed

end
