(* ===== verification/Spec2Isabelle.thy ===== *)
theory Spec2Isabelle
  imports Verify Stores Minify Throttle Topology Queue_Spec Sanitize Workflow_Facts Resilience Tool_Call Netbox Startup
    Worker_Loop Outbound Routes Neo4j Probe Sessions
begin

text \<open>
  ZeroNode investigates network incidents with a language model, proposes a firewall change, simulates
  it, waits for a human decision, carries the approved change out and keeps a signed record of it. The
  development models the backend of the service, \<open>apps/api/app\<close>, one theory per part, from the
  parsers of device output up to histories of the whole system.

  \<^bold>\<open>How the parts interact.\<close> A webhook or a person triggers an incident (\<open>Ingress\<close>, \<open>Workflow\<close>), whose
  text is cleaned (\<open>Sanitize\<close>) and queued (\<open>Jobs\<close>). A worker runs the agent graph (\<open>Agent\<close>) on
  it: two model nodes call tools over the topology (\<open>Topology\<close>) and a firewall backend
  (\<open>Asa\<close>, \<open>Vendors\<close>, \<open>Stores\<close>), until a proposal passes the simulation (\<open>Verify\<close>) or has been refused
  three times, and the graph stops at the gate. A decision, made under a role and a second factor (\<open>Access\<close>,
  \<open>Accounts\<close>) inside the change window (\<open>Schedule\<close>), is sealed into the ledger (\<open>Canonical\<close>,
  \<open>Ledger\<close>) and queued; the worker resumes the graph, which rejects or executes (\<open>Render\<close>,
  \<open>Executor\<close>), reads the device back and reverts when the check fails. Around it the service is configured
  and started (\<open>Secrets\<close>, \<open>Startup\<close>), its topology is imported (\<open>Netbox\<close>, \<open>Neo4j\<close>), its workers poll the
  queue (\<open>Worker_Loop\<close>), and it tells the outside what waits and what happened (\<open>Outbound\<close>).

  \<^bold>\<open>The theories.\<close>
  \<^item> \<open>Prelude\<close>: exceptions and results, JSON, association lists, Python's text operations on ASCII.
  \<^item> \<open>Regex\<close>: the part of Python's \<open>re\<close> the program uses, as derivatives of matches in order.
  \<^item> \<open>Ipv4\<close>, \<open>Policy\<close>: \<open>firewall/policy.py\<close>, \<open>firewall/normalize.py\<close>: addresses as 32-bit words, rules,
    ports, first-match evaluation. \<open>Objects\<close>: \<open>firewall/objectgroup.py\<close>. \<open>Nat_Detect\<close>: \<open>firewall/nat.py\<close>.
  \<^item> \<open>Transport\<close>: \<open>firewall/ssh.py\<close>; the library is a record of functions on a world.
  \<^item> \<open>Asa\<close>, \<open>Vendors\<close>, \<open>Stores\<close>: the backends of \<open>firewall/asa.py\<close>, \<open>ios.py\<close>, \<open>eos.py\<close>,
    \<open>srlinux.py\<close>, \<open>mock.py\<close>, their parsers and their caches. \<open>Minify\<close>: \<open>minify.py\<close>.
  \<^item> \<open>Verify\<close>: \<open>verify.py\<close>, simulation and rollback. \<open>Render\<close>, \<open>Executor\<close>, \<open>Exec_Facts\<close>: \<open>execute/\<close>.
  \<^item> \<open>Canonical\<close>, \<open>Ledger\<close>: \<open>audit/\<close>, the sealed chain, anchors and rotation.
  \<^item> \<open>Jobs\<close>, \<open>Queue_Spec\<close>: \<open>jobs/store.py\<close>, \<open>jobs/dispatcher.py\<close>, and the list of jobs both refine.
  \<^item> \<open>Throttle\<close>, \<open>Access\<close>, \<open>Accounts\<close>, \<open>Sessions\<close>: \<open>auth/\<close> and \<open>routers/auth.py\<close>. \<open>Schedule\<close>: \<open>schedule.py\<close>.
  \<^item> \<open>Topology\<close>: \<open>store/memory.py\<close>, \<open>store/site_scoped.py\<close>. \<open>Sanitize\<close>: \<open>sanitize.py\<close>. \<open>Ingress\<close>: \<open>ingress/\<close>.
  \<^item> \<open>Agent\<close>, \<open>Agent_Facts\<close>: \<open>graph/nodes.py\<close>, \<open>graph/builder.py\<close>, \<open>graph/state.py\<close>, \<open>tools/topology.py\<close>.
    \<open>Json_Read\<close>: \<open>json.loads\<close>. \<open>Tool_Call\<close>: \<open>graph/parser.py\<close>. \<open>Resilience\<close>: \<open>jobs/resilience.py\<close>.
  \<^item> \<open>Workflow\<close>, \<open>Workflow_Facts\<close>: \<open>routers/incidents.py\<close>, \<open>ingress/trigger.py\<close>, \<open>store/incidents.py\<close>,
    \<open>jobs/runner.py\<close>, \<open>jobs/worker.py\<close>, and the histories of the system. \<open>Worker_Loop\<close>: the polling loop
    of \<open>jobs/worker.py\<close>. \<open>Routes\<close>: \<open>routers/webhooks.py\<close>, \<open>auth/webhook_auth.py\<close>, \<open>routers/audit.py\<close>.
    \<open>Outbound\<close>: \<open>outbound/\<close> and the notices of a trigger, a decision and a job.
  \<^item> \<open>Secrets\<close>: \<open>secretref.py\<close>, \<open>firewall/devices.py\<close>, \<open>execute/factory.py\<close>. \<open>Telemetry\<close>: the counters of
    \<open>observability.py\<close>. \<open>Startup\<close>: \<open>config.py\<close>, \<open>config_validate.py\<close>, \<open>inference/factory.py\<close>, and the start and
    the health endpoint of \<open>main.py\<close>. \<open>Probe\<close>: \<open>firewall/probe.py\<close>.
  \<^item> \<open>Netbox\<close>: \<open>store/netbox.py\<close>, \<open>store/topology_ingest.py\<close> and the graph they write. \<open>Neo4j\<close>: the queries of
    \<open>store/neo4j_store.py\<close> over that graph.

  \<^bold>\<open>State.\<close> A class with fields is a record its methods take and return; a table is a list of records in the
  order of insertion; an exception is a value of the left of a sum. Everything outside the repository
  is a parameter: SHA-256, Ed25519, PyJWT, argon2 and HMAC (\<open>crypto\<close>, \<open>authlib\<close>, \<open>ingress_lib\<close>),
  the SSH library and the devices (\<open>wire\<close>, \<open>plant\<close>), the model
  (\<open>turns\<close>), the environment, files and Vault (\<open>secret_world\<close>, \<open>boot_world\<close>), the receivers of posts,
  the clock. SQL and Cypher statements are modelled by the meaning their documentation gives them: tables are
  lists, the graph is a record of relations, and a query that leaves a choice to the database is the set of its answers. What a property needs of them is a named hypothesis with a
  witness on a concrete instance. Report texts and log lines are constructors that carry their data.

  \<^bold>\<open>What is shown.\<close> \<open>Workflow_Facts\<close> keeps of every run its job, what was waiting at its gate and what it
  did, and shows that no run pushes a line without an approval by an entitled person, sealed for its incident and
  carried by its job, and a verified action at its gate, by an invariant over all steps of all operations; \<open>Verify\<close> what a verified
  report means for the policy after the change, and that the derived rollback restores it; \<open>Exec_Facts\<close> that only
  rendered and screened lines are sent and that APPLIED and ROLLED BACK are confirmed by a read;
  \<open>Ledger\<close> that an anchored history cannot be changed, shortened or replaced, and that what the program
  appends verifies; \<open>Jobs\<close> that a
  leased job is handed to nobody else whatever is done to the queue meanwhile; \<open>Queue_Spec\<close> that both dispatchers refine one abstract
  queue, reclaims included, and that no ready job starves (they part for a failure that is reported under an earlier
  claim, which is shown too); \<open>Accounts\<close>
  when a login is granted and when its session approves, \<open>Sessions\<close> what a browser can do with it; \<open>Tool_Call\<close> that a call written between the tags is
  recovered, unless it contains the closing tag, and that an inferred one validates (the agent's own properties hold for any parser);
  \<open>Resilience\<close> that a model call ends within its budget; \<open>Startup\<close> that a production start fails closed and that
  a healthy answer is true; \<open>Netbox\<close> and \<open>Neo4j\<close> that the import writes exactly the inventory and its cables and that
  the blast radius reads them back; \<open>Worker_Loop\<close> that a worker is bounded and, told to stop, starts at most the job it was already
  asking for (a claim is three steps, with anything in between); \<open>Routes\<close> that a webhook
  can only open an incident, and that the audit route agrees with the start-up check; \<open>Outbound\<close> that every finished
  job is told exactly once and that a delivery is bounded; the rest the exact behaviour of parsers,
  expansion, translation, schedules, searches and limits. Some properties state what goes wrong: an approval is not
  bound to the proposal it was given for, a second decision seals the execution again, enrolment drops the second
  factor, a copied session outlives the logout, a failed read-back is not reverted, a path within a site leaves it and a long one is not found, a lost
  lease does not stop the job.

  \<^bold>\<open>Bounds and fuel.\<close> \<open>expand_group\<close> runs with fuel one more than the number of groups, and
  \<open>expand_terminates\<close> shows it never runs out; \<open>run_graph\<close> counts the recursion limit of the source (16)
  down, whose end is an error value; \<open>loads\<close> has fuel twice
  the length of its text, and \<open>loads_fuel\<close> shows that more changes nothing; the path search is well-founded on the unseen names. Addresses are
  words, so mask arithmetic wraps as in the source's 32-bit fields; Python's integers are \<open>int\<close>.

  \<^bold>\<open>Not modelled.\<close> The middleware, the periodic import, tracing and the set-up of logging in \<open>main.py\<close> and
  \<open>observability.py\<close>, the DDL, the HTTP, SQL and graph drivers, the model clients and the prompts are input
  and output around the parts above; an exception of the database inside the polling loop ends a worker and is not a
  step of it. \<open>Agent\<close> leaves the metrics out, so its turns are those of a service whose metrics are enabled
  (\<open>Startup\<close> shows what happens to the others). The evaluation harness, the fake device and the operational scripts
  are drivers of the service and no part of it.
\<close>

end
